(* ===== verification/Prelude.thy ===== *)
theory Prelude
  imports Main "HOL-Library.Word"
begin

text \<open>
  Shared ground of the development: the Rust integer types as words, little-endian
  byte conversions, fixed-array writes, saturating and checked arithmetic, and the
  two generic locales (preservation of an invariant along a run, and encoders with
  a decoder) that the component theories interpret.
\<close>

unbundle bit_operations_syntax

section \<open>Integer types\<close>

type_synonym u8 = "8 word"
type_synonym u16 = "16 word"
type_synonym u32 = "32 word"
type_synonym u64 = "64 word"
type_synonym i8 = "8 word"
type_synonym bytes = "8 word list"

text \<open>Collections used by the component proofs.\<close>

named_theorems le_bytes \<open>round trips of little-endian conversions\<close>
named_theorems splice_simps \<open>reads of a buffer after a slice copy\<close>

section \<open>Little-endian conversions\<close>

text \<open>\<open>u16::from_le_bytes\<close>, \<open>u32::from_le_bytes\<close>, \<open>u64::from_le_bytes\<close> and their inverses.\<close>

definition u16_from_le :: "u8 \<Rightarrow> u8 \<Rightarrow> u16" where
  "u16_from_le b0 b1 = ucast b0 OR push_bit 8 (ucast b1)"

definition u16_to_le :: "u16 \<Rightarrow> bytes" where
  "u16_to_le w = [ucast w, ucast (drop_bit 8 w)]"

definition u32_from_le :: "u8 \<Rightarrow> u8 \<Rightarrow> u8 \<Rightarrow> u8 \<Rightarrow> u32" where
  "u32_from_le b0 b1 b2 b3 =
     ucast b0 OR push_bit 8 (ucast b1) OR push_bit 16 (ucast b2) OR push_bit 24 (ucast b3)"

definition u32_to_le :: "u32 \<Rightarrow> bytes" where
  "u32_to_le w = [ucast w, ucast (drop_bit 8 w), ucast (drop_bit 16 w), ucast (drop_bit 24 w)]"

primrec u64_from_le :: "bytes \<Rightarrow> u64" where
  "u64_from_le [] = 0"
| "u64_from_le (b # bs) = ucast b OR push_bit 8 (u64_from_le bs)"

lemma length_u16_to_le [simp]: "length (u16_to_le w) = 2"
  by (simp add: u16_to_le_def)

lemma length_u32_to_le [simp]: "length (u32_to_le w) = 4"
  by (simp add: u32_to_le_def)

lemma u16_le_nth [simp]:
  "u16_to_le w ! 0 = ucast w" "u16_to_le w ! Suc 0 = ucast (drop_bit 8 w)"
  by (simp_all add: u16_to_le_def)

lemma u16_from_to_le [le_bytes, simp]:
  "u16_from_le (ucast (w :: u16)) (ucast (drop_bit 8 w)) = w"
  unfolding u16_from_le_def
  by (rule bit_eqI) (auto simp: bit_simps)

lemma u32_from_to_le [le_bytes, simp]:
  "u32_from_le (ucast (w :: u32)) (ucast (drop_bit 8 w)) (ucast (drop_bit 16 w)) (ucast (drop_bit 24 w)) = w"
  unfolding u32_from_le_def
proof (rule bit_eqI)
  fix n :: nat
  consider "n < 8" | "8 \<le> n" "n < 16" | "16 \<le> n" "n < 24" | "24 \<le> n" by linarith
  then show "bit (ucast (ucast w :: u8) OR push_bit 8 (ucast (ucast (drop_bit 8 w) :: u8))
      OR push_bit 16 (ucast (ucast (drop_bit 16 w) :: u8))
      OR push_bit 24 (ucast (ucast (drop_bit 24 w) :: u8)) :: u32) n = bit w n"
    by cases (auto simp: bit_simps dest: bit_imp_le_length)
qed

lemma u16_to_from_le [le_bytes, simp]: "u16_to_le (u16_from_le a b) = [a, b]"
  unfolding u16_from_le_def u16_to_le_def
  by (simp, intro conjI; rule bit_eqI) (auto simp: bit_simps dest: bit_imp_le_length)

lemma u32_to_from_le [le_bytes, simp]: "u32_to_le (u32_from_le a b c d) = [a, b, c, d]"
  unfolding u32_from_le_def u32_to_le_def
  by (simp, intro conjI; rule bit_eqI) (auto simp: bit_simps dest: bit_imp_le_length)

section \<open>Arrays and slices\<close>

text \<open>\<open>xs[a..b]\<close> of an in-range slice, and \<open>buf[off..off + ys.len()].copy_from_slice(ys)\<close>.\<close>

definition slice_of :: "'a list \<Rightarrow> nat \<Rightarrow> nat \<Rightarrow> 'a list" where
  "slice_of xs a b = take (b - a) (drop a xs)"

definition splice :: "'a list \<Rightarrow> nat \<Rightarrow> 'a list \<Rightarrow> 'a list" where
  "splice buf off ys = take off buf @ ys @ drop (off + length ys) buf"

lemma length_slice [simp]: "b \<le> length xs \<Longrightarrow> length (slice_of xs a b) = b - a"
  by (simp add: slice_of_def)

lemma length_splice [simp]:
  "off + length ys \<le> length buf \<Longrightarrow> length (splice buf off ys) = length buf"
  by (simp add: splice_def)

lemma nth_slice: "i < b - a \<Longrightarrow> b \<le> length xs \<Longrightarrow> slice_of xs a b ! i = xs ! (a + i)"
  by (simp add: slice_of_def)

lemma nth_splice [splice_simps]:
  "off + length ys \<le> length buf \<Longrightarrow> i < length buf \<Longrightarrow>
   splice buf off ys ! i =
     (if off \<le> i \<and> i < off + length ys then ys ! (i - off) else buf ! i)"
  by (auto simp: splice_def nth_append min_def not_less intro!: arg_cong [where f = "nth buf"])

lemma slice_splice_same:
  "off + length ys \<le> length buf \<Longrightarrow> slice_of (splice buf off ys) off (off + length ys) = ys"
  by (simp add: slice_of_def splice_def)

lemma take_splice_upto:
  "off + length ys \<le> length buf \<Longrightarrow> take (off + length ys) (splice buf off ys) = take off buf @ ys"
  by (simp add: splice_def)

section \<open>Rust arithmetic\<close>

text \<open>\<open>usize\<close> is 32 bits wide on the target; lengths are \<open>nat\<close> and the checked sum is explicit.\<close>

definition checked_add_usize :: "nat \<Rightarrow> nat \<Rightarrow> nat option" where
  "checked_add_usize a b = (if a + b < 2 ^ 32 then Some (a + b) else None)"

definition saturating_add :: "'a::len word \<Rightarrow> 'a word \<Rightarrow> 'a word" where
  "saturating_add a b = (if unat a + unat b < 2 ^ LENGTH('a) then a + b else - 1)"

definition saturating_mul :: "'a::len word \<Rightarrow> 'a word \<Rightarrow> 'a word" where
  "saturating_mul a b = (if unat a * unat b < 2 ^ LENGTH('a) then a * b else - 1)"

definition div_ceil :: "'a::len word \<Rightarrow> 'a word \<Rightarrow> 'a word" where
  "div_ceil a b = (if a mod b = 0 then a div b else a div b + 1)"

definition count_ones :: "'a::len word \<Rightarrow> nat" where
  "count_ones w = length (filter (bit w) [0..<LENGTH('a)])"

text \<open>No word has a bit beyond its width.\<close>

lemma not_bit_u8 [simp]: "8 \<le> n \<Longrightarrow> \<not> bit (w :: u8) n"
  using bit_imp_le_length [of w n] by auto

lemma not_bit_u16 [simp]: "16 \<le> n \<Longrightarrow> \<not> bit (w :: u16) n"
  using bit_imp_le_length [of w n] by auto

lemma unat_of_nat_small: "n < 2 ^ LENGTH('a) \<Longrightarrow> unat (word_of_nat n :: 'a::len word) = n"
  by (simp add: unat_of_nat take_bit_nat_eq_self)

lemma and_mask_small: "unat w < 2 ^ n \<Longrightarrow> w AND mask n = (w :: 'a::len word)"
  by (simp add: word_eq_iff_unsigned [where ?'a = nat] unsigned_take_bit_eq take_bit_nat_eq_self flip: take_bit_eq_mask)

lemma unat_ucast_up:
  "LENGTH('a) \<le> LENGTH('b) \<Longrightarrow> unat (ucast (w :: 'a::len word) :: 'b::len word) = unat w"
proof -
  assume "LENGTH('a) \<le> LENGTH('b)"
  then have "unat w < 2 ^ LENGTH('b)"
    using unsigned_less [where 'a = nat, of w]
    by (rule_tac less_le_trans [OF _ power_increasing]) auto
  then show ?thesis by (simp add: unsigned_ucast_eq take_bit_nat_eq_self)
qed

lemma unat_mult_small:
  "unat a * unat b < 2 ^ LENGTH('a) \<Longrightarrow> unat (a * b) = unat a * unat b" for a b :: "'a::len word"
  by (simp add: unat_word_ariths)

lemma unat_add_small:
  "unat a + unat b < 2 ^ LENGTH('a) \<Longrightarrow> unat (a + b) = unat a + unat b" for a b :: "'a::len word"
  by (simp add: unat_word_ariths)

lemma unat_max: "unat (- 1 :: 'a::len word) = 2 ^ LENGTH('a) - 1"
  by (simp add: unsigned_minus_1_eq_mask mask_eq_exp_minus_1)

lemma unat_saturating_add:
  "unat (saturating_add a b) = min (unat a + unat b) (2 ^ LENGTH('a) - 1)" for a b :: "'a::len word"
  by (auto simp: saturating_add_def unat_word_ariths unat_max min_def)

lemma unat_saturating_mul:
  "unat (saturating_mul a b) = min (unat a * unat b) (2 ^ LENGTH('a) - 1)" for a b :: "'a::len word"
proof (cases "unat a * unat b < 2 ^ LENGTH('a)")
  case True
  then show ?thesis by (simp add: saturating_mul_def unat_word_ariths)
next
  case False
  then have "2 ^ LENGTH('a) - 1 \<le> unat a * unat b" by linarith
  with False show ?thesis by (simp only: saturating_mul_def if_False unat_max min_absorb2)
qed

section \<open>Invariants along a run\<close>

text \<open>
  A machine whose operations are labelled by events: when every operation keeps an
  invariant, so does every sequence of operations.
\<close>

locale step_machine =
  fixes step :: "'s \<Rightarrow> 'e \<Rightarrow> 's"
    and inv :: "'s \<Rightarrow> bool"
  assumes inv_step: "inv s \<Longrightarrow> inv (step s e)"
begin

lemma inv_run: "inv s \<Longrightarrow> inv (foldl step s es)"
  by (induction es arbitrary: s) (auto intro: inv_step)

end

text \<open>A partial encoder with its decoder: on valid values decoding undoes encoding.\<close>

locale codec =
  fixes enc :: "'v \<Rightarrow> 'w"
    and dec :: "'w \<Rightarrow> 'v option"
    and valid :: "'v \<Rightarrow> bool"
  assumes dec_enc: "valid v \<Longrightarrow> dec (enc v) = Some v"
begin

lemma enc_inj: "inj_on enc {v. valid v}"
  by (rule inj_onI) (metis dec_enc mem_Collect_eq option.inject)

end

end
