(* ===== verification/Phy_Transforms.thy ===== *)
theory Phy_Transforms
  imports Prelude
begin

text \<open>
  Protocol-defined PHY transforms of \<^verbatim>\<open>crates/ble-controller\<close>: the error type and radio
  packet (\<^verbatim>\<open>lib.rs\<close>, \<^verbatim>\<open>phy.rs\<close>), channel indices and centre frequencies (\<^verbatim>\<open>channel.rs\<close>),
  data whitening (\<^verbatim>\<open>whitening.rs\<close>) and the CRC24 shift register (\<^verbatim>\<open>crc.rs\<close>). The lemmas
  show that whitening is a self-inverse stream cipher, and that the CRC register is
  linear and detects every error confined to one octet.
\<close>

section \<open>Errors, PHYs and received packets\<close>

datatype radio_error = Err_Busy | Err_Timeout | Err_InvalidChannel | Err_InvalidPacket | Err_Hardware

datatype phy = Le1M | Le2M | LeCodedS2 | LeCodedS8

record received_packet =
  payload :: bytes
  rssi_dbm :: i8
  crc_ok :: bool
  timestamp_us :: nat

section \<open>Channels\<close>

datatype channel = Channel u8

definition channel_new :: "u8 \<Rightarrow> radio_error + channel" where
  "channel_new index = (if index \<le> 39 then Inr (Channel index) else Inl Err_InvalidChannel)"

fun channel_index :: "channel \<Rightarrow> u8" where
  "channel_index (Channel i) = i"

definition ADV_37 :: channel where "ADV_37 = Channel 37"
definition ADV_38 :: channel where "ADV_38 = Channel 38"
definition ADV_39 :: channel where "ADV_39 = Channel 39"

text \<open>\<open>unreachable!()\<close> of the last match arm is the value \<open>None\<close>.\<close>

definition frequency_mhz :: "channel \<Rightarrow> u16 option" where
  "frequency_mhz c =
     (let i = channel_index c in
      if i = 37 then Some 2402
      else if i = 38 then Some 2426
      else if i = 39 then Some 2480
      else if i \<le> 10 then Some (2404 + ucast i * 2)
      else if 11 \<le> i \<and> i \<le> 36 then Some (2428 + (ucast i - 11) * 2)
      else None)"

instantiation channel :: linorder
begin

definition less_eq_channel :: "channel \<Rightarrow> channel \<Rightarrow> bool" where
  "c \<le> d \<longleftrightarrow> channel_index c \<le> channel_index d"

definition less_channel :: "channel \<Rightarrow> channel \<Rightarrow> bool" where
  "c < d \<longleftrightarrow> channel_index c < channel_index d"

instance
proof
  fix x y z :: channel
  show "x < y \<longleftrightarrow> x \<le> y \<and> \<not> y \<le> x" by (auto simp: less_eq_channel_def less_channel_def)
  show "x \<le> x" by (simp add: less_eq_channel_def)
  show "x \<le> y \<Longrightarrow> y \<le> z \<Longrightarrow> x \<le> z" by (simp add: less_eq_channel_def)
  show "x \<le> y \<Longrightarrow> y \<le> x \<Longrightarrow> x = y"
    by (cases x; cases y) (simp add: less_eq_channel_def)
  show "x \<le> y \<or> y \<le> x" by (auto simp: less_eq_channel_def)
qed

end

section \<open>Data whitening\<close>

text \<open>One iteration of the inner \<open>for bit in 0..8\<close> loop on the pair (lfsr, value).\<close>

definition whiten_bit :: "u8 \<times> u8 \<Rightarrow> nat \<Rightarrow> u8 \<times> u8" where
  "whiten_bit s i =
     (let (lfsr, value) = s in
      if lfsr AND 1 \<noteq> 0
      then (drop_bit 1 (lfsr XOR 0x88), value XOR push_bit i 1)
      else (drop_bit 1 lfsr, value))"

definition whiten_byte :: "u8 \<Rightarrow> u8 \<Rightarrow> u8 \<times> u8" where
  "whiten_byte lfsr b = foldl whiten_bit (lfsr, b) [0..<8]"

fun whiten_bytes :: "u8 \<Rightarrow> bytes \<Rightarrow> bytes" where
  "whiten_bytes lfsr [] = []"
| "whiten_bytes lfsr (b # bs) =
     (let (lfsr', v) = whiten_byte lfsr b in v # whiten_bytes lfsr' bs)"

definition whitening_apply :: "u8 \<Rightarrow> bytes \<Rightarrow> bytes" where
  "whitening_apply channel bs = whiten_bytes ((channel AND 0x3f) OR 0x40) bs"

section \<open>CRC24\<close>

definition crc24_bit :: "u8 \<Rightarrow> u32 \<Rightarrow> nat \<Rightarrow> u32" where
  "crc24_bit byte state i =
     (let input = drop_bit i byte AND 1;
          feedback = ucast (drop_bit 23 state) XOR input;
          state' = push_bit 1 state AND 0x00ffffff
      in if feedback \<noteq> 0 then state' XOR 0x0000065b else state')"

definition crc24_byte :: "u32 \<Rightarrow> u8 \<Rightarrow> u32" where
  "crc24_byte state byte = foldl (crc24_bit byte) state [0..<8]"

definition crc24 :: "bytes \<Rightarrow> u32 \<Rightarrow> u32" where
  "crc24 data init = foldl crc24_byte (init AND 0x00ffffff) data"

section \<open>Channel lemmas\<close>

text \<open>The RF channel number of the Core channel mapping: 2402 + 2 k MHz.\<close>

definition rf_channel_number :: "nat \<Rightarrow> nat" where
  "rf_channel_number i =
     (if i = 37 then 0 else if i = 38 then 12 else if i = 39 then 39
      else if i \<le> 10 then i + 1 else i + 2)"

lemma channel_new_cases:
  "channel_new i = Inr c \<Longrightarrow> c = Channel i \<and> unat i \<le> 39"
  by (auto simp: channel_new_def word_le_nat_alt split: if_splits)

lemma rf_channel_number_inj: "inj_on rf_channel_number {..39}"
  by (auto simp: inj_on_def rf_channel_number_def split: if_splits)

lemma frequency_mhz_core:
  assumes "channel_new i = Inr c"
  shows "\<exists>f. frequency_mhz c = Some f \<and> unat f = 2402 + 2 * rf_channel_number (unat i)"
proof -
  have c: "c = Channel i" and le: "unat i \<le> 39" using channel_new_cases [OF assms] by auto
  have eqs: "i = 37 \<longleftrightarrow> unat i = 37" "i = 38 \<longleftrightarrow> unat i = 38" "i = 39 \<longleftrightarrow> unat i = 39"
    "i \<le> 10 \<longleftrightarrow> unat i \<le> 10" "11 \<le> i \<longleftrightarrow> 11 \<le> unat i" "i \<le> 36 \<longleftrightarrow> unat i \<le> 36"
    by (auto simp: word_le_nat_alt unat_arith_simps(3))
  have uc: "unat (ucast i :: u16) = unat i" by (simp add: unat_ucast_up)
  have sub: "unat ((ucast i :: u16) - 11) = unat i - 11" if "11 \<le> unat i"
    using that by (simp add: unat_sub word_le_nat_alt uc)
  show ?thesis
    using le by (auto simp: c frequency_mhz_def Let_def eqs rf_channel_number_def unat_word_ariths uc sub)
qed

section \<open>Whitening lemmas\<close>

text \<open>The keystream octet of a register state, and the whole keystream.\<close>

definition key_byte :: "u8 \<Rightarrow> u8" where
  "key_byte lfsr = snd (whiten_byte lfsr 0)"

fun keystream :: "u8 \<Rightarrow> nat \<Rightarrow> bytes" where
  "keystream lfsr 0 = []"
| "keystream lfsr (Suc n) = key_byte lfsr # keystream (fst (whiten_byte lfsr 0)) n"

lemma whiten_bit_xor:
  "whiten_bit (l, v XOR k) i = (fst (whiten_bit (l, k) i), v XOR snd (whiten_bit (l, k) i))"
  by (simp add: whiten_bit_def xor.assoc)

lemma foldl_whiten_bit_xor:
  "foldl whiten_bit (l, v XOR k) is =
     (fst (foldl whiten_bit (l, k) is), v XOR snd (foldl whiten_bit (l, k) is))"
proof (induction "is" arbitrary: l k)
  case Nil
  then show ?case by simp
next
  case (Cons i "is")
  obtain l' k' where s: "whiten_bit (l, k) i = (l', k')" by fastforce
  show ?case by (simp add: whiten_bit_xor s Cons.IH)
qed

lemma whiten_byte_xor: "whiten_byte l v = (fst (whiten_byte l 0), v XOR key_byte l)"
  using foldl_whiten_bit_xor [of l v 0] by (simp add: whiten_byte_def key_byte_def)

lemma whiten_bytes_keystream:
  "whiten_bytes l bs = map2 (XOR) bs (keystream l (length bs))"
proof (induction bs arbitrary: l)
  case Nil
  then show ?case by simp
next
  case (Cons b bs)
  then show ?case by (simp add: whiten_byte_xor [of l b])
qed

lemma length_keystream [simp]: "length (keystream l n) = n"
  by (induction n arbitrary: l) auto

lemma length_whitening [simp]: "length (whitening_apply ch bs) = length bs"
  by (simp add: whitening_apply_def whiten_bytes_keystream)

lemma map2_xor_self:
  "length bs = length ks \<Longrightarrow> map2 (XOR) (map2 (XOR) bs ks) ks = (bs :: bytes)"
  by (induction bs ks rule: list_induct2) (auto simp: xor.assoc)

section \<open>CRC lemmas\<close>

text \<open>The register keeps 24 bits, and one step in closed form.\<close>

definition crc_state :: "u32 \<Rightarrow> bool" where
  "crc_state s \<longleftrightarrow> s AND 0x00ffffff = s"

lemma crc_state_bit: "crc_state s \<longleftrightarrow> (\<forall>n. bit s n \<longrightarrow> n < 24)"
proof -
  have m: "(0x00ffffff :: u32) = mask 24" by (simp add: mask_eq_exp_minus_1)
  show ?thesis
    unfolding crc_state_def m using bit_imp_le_length [of s] by (auto simp: bit_eq_iff bit_simps)
qed


lemma crc_state_mask [simp]: "crc_state (s AND 0x00ffffff)"
  by (simp add: crc_state_def and.assoc)

lemma low_bit_word: "(w :: 'a::len word) AND 1 = (if bit w 0 then 1 else 0)"
  by (simp add: and_one_eq odd_iff_mod_2_eq_one bit_0)

lemma crc24_bit_closed:
  assumes "crc_state s"
  shows "crc24_bit b s i =
    (push_bit 1 s AND 0x00ffffff) XOR (if bit s 23 \<noteq> bit b i then 0x0000065b else 0)"
proof -
  have hi: "(ucast (drop_bit 23 s) :: u8) = (if bit s 23 then 1 else 0)"
    using assms by (intro bit_eqI) (auto simp: crc_state_bit bit_simps less_Suc_eq)
  have lo: "drop_bit i b AND 1 = (if bit b i then 1 else 0)"
    by (simp add: low_bit_word bit_drop_bit_eq)
  show ?thesis by (auto simp: crc24_bit_def Let_def hi lo)
qed

lemma crc24_bit_state: "crc_state s \<Longrightarrow> crc_state (crc24_bit b s i)"
proof -
  assume s: "crc_state s"
  have "(0x0000065b :: u32) = 0x65b AND 0x00ffffff" by simp
  then show ?thesis
    unfolding crc24_bit_closed [OF s] by (auto simp: crc_state_def bit.conj_xor_distrib2)
qed

lemma foldl_crc24_bit_state: "crc_state s \<Longrightarrow> crc_state (foldl (crc24_bit b) s is)"
  by (induction "is" arbitrary: s) (auto intro: crc24_bit_state)

lemma crc24_byte_state: "crc_state s \<Longrightarrow> crc_state (crc24_byte s b)"
  by (simp add: crc24_byte_def foldl_crc24_bit_state)

interpretation crc_register: step_machine crc24_byte crc_state
  by unfold_locales (rule crc24_byte_state)

lemma crc24_state: "crc_state (crc24 bs init)"
  unfolding crc24_def by (rule crc_register.inv_run) simp

lemma crc24_bit_xor:
  assumes "crc_state s" and "crc_state t"
  shows "crc24_bit (a XOR b) (s XOR t) i = crc24_bit a s i XOR crc24_bit b t i"
proof -
  have st: "crc_state (s XOR t)" using assms by (auto simp: crc_state_bit bit_simps)
  show ?thesis
    unfolding crc24_bit_closed [OF st] crc24_bit_closed [OF assms(1)] crc24_bit_closed [OF assms(2)]
    by (rule bit_eqI) (auto simp: bit_simps)
qed

lemma foldl_crc24_bit_xor:
  "crc_state s \<Longrightarrow> crc_state t \<Longrightarrow>
   foldl (crc24_bit (a XOR b)) (s XOR t) is = foldl (crc24_bit a) s is XOR foldl (crc24_bit b) t is"
  by (induction "is" arbitrary: s t) (auto simp: crc24_bit_xor intro: crc24_bit_state)

lemma crc24_byte_xor:
  "crc_state s \<Longrightarrow> crc_state t \<Longrightarrow> crc24_byte (s XOR t) (a XOR b) = crc24_byte s a XOR crc24_byte t b"
  by (simp add: crc24_byte_def foldl_crc24_bit_xor)

lemma foldl_crc24_byte_xor:
  "length as = length bs \<Longrightarrow> crc_state s \<Longrightarrow> crc_state t \<Longrightarrow>
   foldl crc24_byte (s XOR t) (map2 (XOR) as bs) = foldl crc24_byte s as XOR foldl crc24_byte t bs"
  by (induction as bs arbitrary: s t rule: list_induct2) (auto simp: crc24_byte_xor intro: crc24_byte_state)

lemma crc24_bit_zero_input:
  assumes "crc_state s" and "crc24_bit 0 s i = 0"
  shows "s = 0"
proof (rule bit_eqI)
  fix n
  have eq: "(push_bit 1 s AND 0x00ffffff) XOR (if bit s 23 then 0x0000065b else 0) = 0"
    using assms(2) by (simp add: crc24_bit_closed [OF assms(1)])
  have top: "\<not> bit s 23"
  proof
    assume "bit s 23"
    with eq have "bit ((push_bit 1 s AND 0x00ffffff) XOR 0x0000065b) 0 = bit (0 :: u32) 0" by simp
    then show False by (simp only: bit_xor_iff bit_and_iff bit_push_bit_iff) simp
  qed
  have m: "(0x00ffffff :: u32) = mask 24" by (simp add: mask_eq_exp_minus_1)
  have z: "push_bit 1 s AND mask 24 = 0" using eq top by (simp add: m)
  show "bit s n = bit 0 n"
  proof (cases "n < 23")
    case True
    have "bit (push_bit 1 s AND mask 24) (Suc n) = bit (0 :: u32) (Suc n)" by (simp only: z)
    with True show ?thesis by (simp only: bit_and_iff bit_push_bit_iff bit_mask_iff) simp
  next
    case False
    with top assms(1) show ?thesis by (auto simp: crc_state_bit less_Suc_eq numeral_eq_Suc)
  qed
qed

lemma foldl_crc24_bit_nonzero:
  "crc_state s \<Longrightarrow> s \<noteq> 0 \<Longrightarrow> foldl (crc24_bit 0) s is \<noteq> 0"
  by (induction "is" arbitrary: s) (auto dest: crc24_bit_zero_input intro: crc24_bit_state)

lemma crc24_zeros_nonzero:
  "crc_state s \<Longrightarrow> s \<noteq> 0 \<Longrightarrow> foldl crc24_byte s (replicate n 0) \<noteq> 0"
  by (induction n arbitrary: s)
     (auto simp: crc24_byte_def foldl_crc24_bit_nonzero foldl_crc24_bit_state)

lemma crc24_byte_zero_zero: "crc24_byte 0 0 = 0"
  by (simp add: crc24_byte_def crc24_bit_def upt_rec)

lemma crc24_zeros_zero: "foldl crc24_byte 0 (replicate n 0) = 0"
  by (induction n) (auto simp: crc24_byte_zero_zero)

lemma crc_poly_bits: "bit (0x0000065b :: u32) n \<Longrightarrow> n < 11"
proof -
  assume b: "bit (0x0000065b :: u32) n"
  have "(0x0000065b :: u32) = 0x65b AND mask 11" by (simp add: mask_eq_exp_minus_1)
  with b have "bit (0x65b AND mask 11 :: u32) n" by metis
  then show ?thesis by (simp add: bit_simps)
qed

text \<open>
  From the zero register the first octet cannot reach position 23, so every set input
  bit feeds the polynomial back and the register vanishes only on the zero octet.
\<close>

lemma crc24_first_octet:
  "k \<le> 8 \<Longrightarrow> (\<forall>n. bit (foldl (crc24_bit b) 0 [0..<k]) n \<longrightarrow> n < 11 + k) \<and>
    (foldl (crc24_bit b) 0 [0..<k] = 0 \<longrightarrow> (\<forall>i<k. \<not> bit b i))"
proof (induction k)
  case 0
  then show ?case by simp
next
  case (Suc k)
  let ?s = "foldl (crc24_bit b) 0 [0..<k]"
  have st: "crc_state ?s" by (rule foldl_crc24_bit_state) (simp add: crc_state_def)
  have bound: "\<forall>n. bit ?s n \<longrightarrow> n < 11 + k" and zero: "?s = 0 \<Longrightarrow> \<forall>i<k. \<not> bit b i"
    using Suc by auto
  have no23: "\<not> bit ?s 23" using bound Suc.prems by fastforce
  have m: "(0x00ffffff :: u32) = mask 24" by (simp add: mask_eq_exp_minus_1)
  have step: "foldl (crc24_bit b) 0 [0..<Suc k] =
    (push_bit 1 ?s AND mask 24) XOR (if bit b k then 0x0000065b else 0)"
    using no23 by (simp add: crc24_bit_closed [OF st] m)
  have "n < 11 + Suc k" if bn: "bit (foldl (crc24_bit b) 0 [0..<Suc k]) n" for n
  proof -
    have "bit (push_bit 1 ?s) n \<or> bit (0x0000065b :: u32) n"
      using bn unfolding step bit_xor_iff bit_and_iff by (auto split: if_splits)
    moreover have "n < 11 + Suc k" if "bit (push_bit 1 ?s) n"
    proof -
      from that have "bit ?s (n - 1)" by (simp only: bit_push_bit_iff)
      with bound show ?thesis by fastforce
    qed
    ultimately show ?thesis using crc_poly_bits [of n] by fastforce
  qed
  moreover have "\<forall>i<Suc k. \<not> bit b i" if z: "foldl (crc24_bit b) 0 [0..<Suc k] = 0"
  proof -
    have nb: "\<not> bit b k"
    proof
      assume "bit b k"
      with z step have "bit ((push_bit 1 ?s AND mask 24) XOR (0x0000065b :: u32)) 0 = bit 0 0" by simp
      then show False by (simp only: bit_xor_iff bit_and_iff bit_push_bit_iff) simp
    qed
    with z step have "crc24_bit 0 ?s 0 = 0" using no23 by (simp add: crc24_bit_closed [OF st] m)
    then have "?s = 0" by (rule crc24_bit_zero_input [OF st])
    with nb zero show ?thesis by (auto simp: less_Suc_eq)
  qed
  ultimately show ?case by blast
qed

lemma crc24_byte_nonzero:
  assumes "b \<noteq> 0"
  shows "crc24_byte 0 b \<noteq> 0"
proof
  assume "crc24_byte 0 b = 0"
  then have "\<forall>i<8. \<not> bit b i" using crc24_first_octet [of 8 b] by (simp add: crc24_byte_def)
  then have "b = 0" using bit_imp_le_length [of b] by (intro bit_eqI) auto
  with assms show False by simp
qed

text \<open>An error pattern confined to one octet leaves a non-zero register.\<close>

lemma crc24_octet_pattern:
  assumes "e \<noteq> 0"
  shows "foldl crc24_byte 0 (replicate m 0 @ e # replicate n 0) \<noteq> 0"
proof -
  have "crc_state (crc24_byte 0 e)" by (rule crc24_byte_state) (simp add: crc_state_def)
  then show ?thesis
    using crc24_zeros_nonzero crc24_byte_nonzero [OF assms] by (simp add: crc24_zeros_zero)
qed


lemma xor_absorb_right: "a = a XOR b \<Longrightarrow> b = 0" for a b :: "'a::len word"
proof -
  assume eq: "a = a XOR b"
  have "a XOR (a XOR b) = b" by (simp flip: xor.assoc)
  with eq show ?thesis by (metis xor_self_eq)
qed

section \<open>Properties\<close>

text \<open>Applying data whitening twice on the same channel gives back the original octets.\<close>

theorem whitening_involution: "whitening_apply ch (whitening_apply ch bs) = bs"
  by (simp add: whitening_apply_def whiten_bytes_keystream map2_xor_self)

text \<open>
  The CRC register is linear over XOR and stays in 24 bits: the CRC of the sum of two
  equally long PDUs, from the sum of the initial values, is the sum of their CRCs.
\<close>

theorem crc24_linear:
  assumes "length as = length bs"
  shows "crc24 (map2 (XOR) as bs) (i XOR j) = crc24 as i XOR crc24 bs j
    \<and> unat (crc24 as i) < 2 ^ 24"
proof -
  have "(i XOR j) AND 0x00ffffff = (i AND 0x00ffffff) XOR (j AND 0x00ffffff)"
    by (rule bit_eqI) (auto simp: bit_simps)
  then have lin: "crc24 (map2 (XOR) as bs) (i XOR j) = crc24 as i XOR crc24 bs j"
    unfolding crc24_def using assms by (simp add: foldl_crc24_byte_xor)
  have "crc24 as i = crc24 as i AND mask 24"
    using crc24_state [of as i] by (simp add: crc_state_def mask_eq_exp_minus_1)
  then have "crc24 as i = take_bit 24 (crc24 as i)" by (simp add: take_bit_eq_mask)
  then have "unat (crc24 as i) = take_bit 24 (unat (crc24 as i))"
    by (metis unsigned_take_bit_eq)
  then have "unat (crc24 as i) < 2 ^ 24" by (metis take_bit_nat_less_exp)
  with lin show ?thesis by simp
qed

theorem crc24_linear_witness:
  "crc24 (map2 (XOR) [0x40, 1] [3, 7]) (0x555555 XOR 1) = crc24 [0x40, 1] 0x555555 XOR crc24 [3, 7] 1
    \<and> unat (crc24 [0x40, 1] 0x555555) < 2 ^ 24"
  by (rule crc24_linear) simp

text \<open>
  C36. A transmission error confined to one octet of a PDU, whatever its bits, always
  changes the CRC.
\<close>

theorem crc24_detects_octet_error:
  assumes "e \<noteq> 0"
  shows "crc24 (xs @ (x XOR e) # ys) init \<noteq> crc24 (xs @ x # ys) init"
proof
  let ?z = "replicate (length xs) 0 @ e # replicate (length ys) 0"
  assume eq: "crc24 (xs @ (x XOR e) # ys) init = crc24 (xs @ x # ys) init"
  have sum: "map2 (XOR) (xs @ x # ys) ?z = xs @ (x XOR e) # ys"
  proof -
    have z: "map2 (XOR) us (replicate (length us) 0) = us" for us :: bytes
      by (induction us) auto
    show ?thesis by (simp add: z)
  qed
  have "crc24 (map2 (XOR) (xs @ x # ys) ?z) (init XOR 0) = crc24 (xs @ x # ys) init XOR crc24 ?z 0"
    unfolding crc24_def by (subst foldl_crc24_byte_xor [symmetric]) (auto simp: crc_state_def)
  with eq have "crc24 (xs @ x # ys) init = crc24 (xs @ x # ys) init XOR crc24 ?z 0"
    by (simp only: sum xor.right_neutral)
  then have "crc24 ?z 0 = 0" by (rule xor_absorb_right)
  then show False
    using crc24_octet_pattern [OF assms] by (simp add: crc24_def)
qed

theorem crc24_detects_octet_error_witness:
  "(0x10 :: u8) \<noteq> 0 \<and> crc24 ([0x00, 0x06] @ (0xa1 XOR 0x10) # [0xa2]) 0x555555
     \<noteq> crc24 ([0x00, 0x06] @ 0xa1 # [0xa2]) 0x555555"
  using crc24_detects_octet_error [of "0x10" "[0x00, 0x06]" "0xa1" "[0xa2]" "0x555555"] by simp

text \<open>
  Every channel that \<open>Channel::new\<close> accepts has a centre frequency: 2402 MHz plus 2 MHz
  per RF channel of the Core mapping, inside the 2402..2480 MHz band, and no two channels
  share one; indices above 39 are refused.
\<close>

theorem channel_frequency_map:
  assumes "channel_new i = Inr c" and "channel_new j = Inr d"
  shows "(\<exists>f. frequency_mhz c = Some f \<and> unat f = 2402 + 2 * rf_channel_number (unat i)
            \<and> unat f \<le> 2480)
    \<and> (frequency_mhz c = frequency_mhz d \<longleftrightarrow> c = d)"
proof -
  obtain f g where f: "frequency_mhz c = Some f" "unat f = 2402 + 2 * rf_channel_number (unat i)"
    and g: "frequency_mhz d = Some g" "unat g = 2402 + 2 * rf_channel_number (unat j)"
    using frequency_mhz_core assms by meson
  have c: "c = Channel i" "unat i \<le> 39" "d = Channel j" "unat j \<le> 39"
    using channel_new_cases assms by blast+
  have "rf_channel_number (unat i) \<le> 39" using c by (simp add: rf_channel_number_def)
  moreover have "i = j" if "f = g"
    using that f g c inj_onD [OF rf_channel_number_inj, of "unat i" "unat j"] by (simp add: word_eq_iff_unsigned [where ?'a = nat])
  ultimately show ?thesis using f g c by auto
qed

theorem channel_frequency_map_witness:
  "(\<exists>f. frequency_mhz (Channel 38) = Some f \<and> unat f = 2402 + 2 * rf_channel_number (unat (38 :: u8))
            \<and> unat f \<le> 2480)
    \<and> (frequency_mhz (Channel 38) = frequency_mhz (Channel 0) \<longleftrightarrow> Channel 38 = Channel 0)"
  by (rule channel_frequency_map [of 38 _ 0]) (simp_all add: channel_new_def)

end
