(* ===== verification/Control_Pdu.thy ===== *)
theory Control_Pdu
  imports Phy_Transforms
begin

text \<open>
  Link Layer parameter validation and control PDUs of
  \<^verbatim>\<open>crates/ble-controller/src/link_layer.rs\<close>: sleep-clock widening, access-address rules,
  procedure instants modulo 65536, connection timing, and the parsers and encoders of
  LL_CONNECTION_UPDATE_IND, LL_CONNECTION_PARAM_REQ/RSP and LL_CHANNEL_MAP_IND. The
  lemmas relate each bit-level or looping routine to a declarative reading of the rule
  it implements. Arithmetic is on words, so it wraps as the release profile does.
\<close>

definition ADV_ACCESS_ADDRESS :: u32 where "ADV_ACCESS_ADDRESS = 0x8e89bed6"
definition ADV_CRC_INIT :: u32 where "ADV_CRC_INIT = 0x555555"

section \<open>Sleep clock and window widening\<close>

definition sleep_clock_accuracy_ppm :: "u8 \<Rightarrow> u16" where
  "sleep_clock_accuracy_ppm sca =
     (let k = sca AND 0x07 in
      if k = 0 then 500 else if k = 1 then 250 else if k = 2 then 150 else if k = 3 then 100
      else if k = 4 then 75 else if k = 5 then 50 else if k = 6 then 30 else 20)"

definition window_widening_us :: "u64 \<Rightarrow> u8 \<Rightarrow> u16 \<Rightarrow> u64" where
  "window_widening_us elapsed_us central_sca local_sca_ppm =
     (let total_ppm = ucast (sleep_clock_accuracy_ppm central_sca) + ucast local_sca_ppm;
          whole = elapsed_us div 1000000;
          remainder = elapsed_us mod 1000000
      in saturating_add (saturating_mul whole total_ppm)
           (div_ceil (saturating_mul remainder total_ppm) 1000000))"

section \<open>Access addresses\<close>

definition transition_count :: "u32 \<Rightarrow> nat \<Rightarrow> nat" where
  "transition_count v bits =
     (let m = (if bits = 32 then drop_bit 1 (- 1) else push_bit (bits - 1) 1 - 1)
      in count_ones ((v XOR drop_bit 1 v) AND m))"

text \<open>The \<open>while bit < 32\<close> loop; \<open>False\<close> is its early \<open>return false\<close>.\<close>

function aa_run_loop :: "u32 \<Rightarrow> u32 \<Rightarrow> nat \<Rightarrow> nat \<Rightarrow> bool" where
  "aa_run_loop aa previous run i =
     (if i < 32 then
        (let current = drop_bit i aa AND 1 in
         if current = previous then
           (if run + 1 > 6 then False else aa_run_loop aa previous (run + 1) (i + 1))
         else aa_run_loop aa current 1 (i + 1))
      else True)"
  by pat_completeness auto
termination
  by (relation "measure (\<lambda>(aa, p, r, i). 32 - i)") auto

declare aa_run_loop.simps [simp del]

definition data_access_address_is_valid :: "u32 \<Rightarrow> bool \<Rightarrow> bool" where
  "data_access_address_is_valid aa coded_phy =
     (if aa = ADV_ACCESS_ADDRESS \<or> count_ones (aa XOR ADV_ACCESS_ADDRESS) = 1 then False
      else (let octets = u32_to_le aa in
        if octets ! 0 = octets ! 1 \<and> octets ! 1 = octets ! 2 \<and> octets ! 2 = octets ! 3 then False
        else if \<not> aa_run_loop aa (aa AND 1) 1 1 then False
        else if transition_count aa 32 > 24 \<or> transition_count (drop_bit 26 aa) 6 < 2 then False
        else if coded_phy \<and> (count_ones (aa AND 0xff) < 3 \<or> transition_count (aa AND 0xffff) 16 > 11)
        then False
        else True))"

section \<open>Instants\<close>

datatype instant_relation = Current | Future u16 | Passed

definition classify_instant :: "u16 \<Rightarrow> u16 \<Rightarrow> instant_relation" where
  "classify_instant event_counter instant =
     (let delta = instant - event_counter in
      if delta = 0 then Current
      else if 1 \<le> delta \<and> delta \<le> 32766 then Future delta
      else Passed)"

datatype control_pdu_error = Malformed | InvalidParameters | InstantPassed

datatype instant_procedure = IP_ConnectionUpdate | IP_ChannelMapUpdate | IP_ConnectionParametersRequest

definition procedure_collision_error :: "instant_procedure \<Rightarrow> instant_procedure \<Rightarrow> u8" where
  "procedure_collision_error local remote =
     (if (local, remote) = (IP_ConnectionUpdate, IP_ConnectionParametersRequest)
        \<or> (local, remote) = (IP_ConnectionParametersRequest, IP_ConnectionUpdate)
        \<or> local = remote
      then 0x23 else 0x2a)"

section \<open>Connection timing\<close>

text \<open>
  The function as a release build computes it (wrapping), and lines 879--880 as a build
  with overflow checks computes them (\<open>None\<close> is the panic).
\<close>

definition connection_timing_is_valid :: "u8 \<Rightarrow> u16 \<Rightarrow> u16 \<Rightarrow> u16 \<Rightarrow> u16 \<Rightarrow> bool" where
  "connection_timing_is_valid window_size window_offset interval latency supervision_timeout =
     (let timeout_in_interval_units = (ucast supervision_timeout :: u32) * 8;
          maximum_event_span = 2 * ((ucast latency :: u32) + 1) * ucast interval
      in window_size \<ge> 1 \<and> window_size \<le> 8
       \<and> interval \<ge> 6 \<and> interval \<le> 3200
       \<and> window_offset \<le> interval
       \<and> (ucast window_size :: u16) < interval
       \<and> latency \<le> 499
       \<and> supervision_timeout \<ge> 10 \<and> supervision_timeout \<le> 3200
       \<and> timeout_in_interval_units > maximum_event_span)"

definition connection_parameter_range_is_valid :: "u16 \<Rightarrow> u16 \<Rightarrow> u16 \<Rightarrow> u16 \<Rightarrow> bool" where
  "connection_parameter_range_is_valid interval_min interval_max latency supervision_timeout =
     (interval_min \<ge> 6 \<and> interval_min \<le> interval_max \<and> interval_max \<le> 3200 \<and> latency \<le> 499
      \<and> supervision_timeout \<ge> 10 \<and> supervision_timeout \<le> 3200
      \<and> (ucast supervision_timeout :: u32) * 8 > 2 * ((ucast latency :: u32) + 1) * ucast interval_max)"

section \<open>LL\_CONNECTION\_UPDATE\_IND\<close>

record connection_update_ind =
  cu_window_size :: u8
  cu_window_offset :: u16
  cu_interval :: u16
  cu_latency :: u16
  cu_supervision_timeout :: u16
  cu_instant :: u16

definition cu_parameters_are_valid :: "connection_update_ind \<Rightarrow> bool" where
  "cu_parameters_are_valid u =
     connection_timing_is_valid (cu_window_size u) (cu_window_offset u) (cu_interval u)
       (cu_latency u) (cu_supervision_timeout u)"

definition connection_update_parse :: "bytes \<Rightarrow> u16 \<Rightarrow> control_pdu_error + connection_update_ind" where
  "connection_update_parse p event_counter =
     (if length p \<noteq> 12 \<or> p ! 0 \<noteq> 0x00 then Inl Malformed
      else (let update = \<lparr>cu_window_size = p ! 1, cu_window_offset = u16_from_le (p ! 2) (p ! 3),
                 cu_interval = u16_from_le (p ! 4) (p ! 5), cu_latency = u16_from_le (p ! 6) (p ! 7),
                 cu_supervision_timeout = u16_from_le (p ! 8) (p ! 9),
                 cu_instant = u16_from_le (p ! 10) (p ! 11)\<rparr>
        in if \<not> cu_parameters_are_valid update then Inl InvalidParameters
           else if classify_instant event_counter (cu_instant update) = Passed then Inl InstantPassed
           else Inr update))"

definition connection_update_matches_request ::
    "u16 \<Rightarrow> u16 \<Rightarrow> u16 \<Rightarrow> u16 \<Rightarrow> connection_update_ind \<Rightarrow> bool" where
  "connection_update_matches_request interval_min interval_max latency supervision_timeout update =
     (cu_interval update \<ge> interval_min \<and> cu_interval update \<le> interval_max
      \<and> cu_latency update = latency \<and> cu_supervision_timeout update = supervision_timeout)"

section \<open>LL\_CONNECTION\_PARAM\_REQ and LL\_CONNECTION\_PARAM\_RSP\<close>

record connection_param_pdu =
  cp_interval_min :: u16
  cp_interval_max :: u16
  cp_latency :: u16
  cp_supervision_timeout :: u16
  cp_preferred_periodicity :: u8
  cp_reference_event_count :: u16
  cp_offsets :: "u16 list"

definition REQUEST_OPCODE :: u8 where "REQUEST_OPCODE = 0x0f"
definition RESPONSE_OPCODE :: u8 where "RESPONSE_OPCODE = 0x10"

text \<open>
  The two nested loops over the anchor offsets: \<open>seen\<close> is the part before \<open>index\<close>, which
  the inner loop compares with; \<open>None\<close> is \<open>return false\<close>, \<open>Some h\<close> the final value of
  \<open>have_valid_offset\<close>.
\<close>

fun offsets_loop :: "u16 \<Rightarrow> u16 list \<Rightarrow> u16 list \<Rightarrow> bool \<Rightarrow> bool \<Rightarrow> bool option" where
  "offsets_loop interval_max seen [] saw_invalid have_valid = Some have_valid"
| "offsets_loop interval_max seen (offset # rest) saw_invalid have_valid =
     (if offset = - 1 then offsets_loop interval_max (seen @ [offset]) rest True have_valid
      else if saw_invalid \<or> offset \<ge> interval_max then None
      else if offset \<in> set seen then None
      else offsets_loop interval_max (seen @ [offset]) rest saw_invalid True)"

definition cp_parameters_are_valid :: "connection_param_pdu \<Rightarrow> u16 \<Rightarrow> bool" where
  "cp_parameters_are_valid p event_counter =
     (if \<not> connection_parameter_range_is_valid (cp_interval_min p) (cp_interval_max p)
            (cp_latency p) (cp_supervision_timeout p)
        \<or> (ucast (cp_preferred_periodicity p) :: u16) > cp_interval_max p then False
      else (case offsets_loop (cp_interval_max p) [] (cp_offsets p) False False of
              None \<Rightarrow> False
            | Some have_valid_offset \<Rightarrow>
                \<not> have_valid_offset \<or> classify_instant event_counter (cp_reference_event_count p) \<noteq> Passed))"

fun chunks_u16 :: "bytes \<Rightarrow> u16 list" where
  "chunks_u16 (a # b # rest) = u16_from_le a b # chunks_u16 rest"
| "chunks_u16 _ = []"

definition connection_param_parse :: "bytes \<Rightarrow> u8 \<Rightarrow> u16 \<Rightarrow> control_pdu_error + connection_param_pdu" where
  "connection_param_parse p expected_opcode event_counter =
     (if length p \<noteq> 24 \<or> p ! 0 \<noteq> expected_opcode then Inl Malformed
      else (let parameters = \<lparr>cp_interval_min = u16_from_le (p ! 1) (p ! 2),
                 cp_interval_max = u16_from_le (p ! 3) (p ! 4),
                 cp_latency = u16_from_le (p ! 5) (p ! 6),
                 cp_supervision_timeout = u16_from_le (p ! 7) (p ! 8),
                 cp_preferred_periodicity = p ! 9,
                 cp_reference_event_count = u16_from_le (p ! 10) (p ! 11),
                 cp_offsets = chunks_u16 (slice_of p 12 24)\<rparr>
        in if cp_parameters_are_valid parameters event_counter then Inr parameters
           else Inl InvalidParameters))"

definition parse_request :: "bytes \<Rightarrow> u16 \<Rightarrow> control_pdu_error + connection_param_pdu" where
  "parse_request p event_counter = connection_param_parse p REQUEST_OPCODE event_counter"

definition parse_response :: "bytes \<Rightarrow> u16 \<Rightarrow> control_pdu_error + connection_param_pdu" where
  "parse_response p event_counter = connection_param_parse p RESPONSE_OPCODE event_counter"

text \<open>\<open>write\<close> overwrites all 24 octets of its output array.\<close>

definition connection_param_write :: "connection_param_pdu \<Rightarrow> u8 \<Rightarrow> bytes" where
  "connection_param_write p opcode =
     [opcode] @ u16_to_le (cp_interval_min p) @ u16_to_le (cp_interval_max p) @ u16_to_le (cp_latency p)
      @ u16_to_le (cp_supervision_timeout p) @ [cp_preferred_periodicity p]
      @ u16_to_le (cp_reference_event_count p) @ concat (map u16_to_le (cp_offsets p))"

section \<open>LL\_CHANNEL\_MAP\_IND\<close>

record channel_map_ind =
  cm_map :: bytes
  cm_instant :: u16

definition data_channel_map_is_valid :: "bytes \<Rightarrow> bool" where
  "data_channel_map_is_valid m =
     (if m ! 4 AND 0xe0 \<noteq> 0 then False else foldl (\<lambda>used b. used + count_ones b) 0 m \<ge> 2)"

definition channel_map_parse :: "bytes \<Rightarrow> u16 \<Rightarrow> control_pdu_error + channel_map_ind" where
  "channel_map_parse p event_counter =
     (if length p \<noteq> 8 \<or> p ! 0 \<noteq> 0x01 then Inl Malformed
      else (let update = \<lparr>cm_map = slice_of p 1 6, cm_instant = u16_from_le (p ! 6) (p ! 7)\<rparr>
        in if \<not> data_channel_map_is_valid (cm_map update) then Inl InvalidParameters
           else if classify_instant event_counter (cm_instant update) = Passed then Inl InstantPassed
           else Inr update))"

section \<open>Encryption-start headers\<close>

definition encryption_start_headers :: "u8 \<Rightarrow> u8 \<Rightarrow> u8 \<times> u8" where
  "encryption_start_headers peripheral_transmit_sn peripheral_expected_sn =
     (let llid_control = 0x03;
          central = llid_control OR push_bit 2 (peripheral_transmit_sn XOR 1)
                      OR push_bit 3 peripheral_expected_sn;
          peripheral = llid_control OR push_bit 2 (peripheral_expected_sn XOR 1)
                      OR push_bit 3 (peripheral_transmit_sn XOR 1)
      in (central, peripheral))"

section \<open>Lemmas: instants\<close>

lemma classify_Current [simp]: "classify_instant e i = Current \<longleftrightarrow> i = e"
  by (auto simp: classify_instant_def Let_def)

lemma classify_Future: "classify_instant e i = Future d \<longleftrightarrow> d = i - e \<and> 1 \<le> unat d \<and> unat d \<le> 32766"
proof (cases "i = e")
  case True
  then show ?thesis by (auto simp: classify_instant_def)
next
  case False
  then have "unat (i - e) \<noteq> 0" by (simp add: unat_eq_zero)
  with False show ?thesis
    unfolding classify_instant_def Let_def by (auto simp: word_le_nat_alt)
qed

lemma classify_Passed: "classify_instant e i = Passed \<longleftrightarrow> 32767 \<le> unat (i - e)"
proof (cases "i = e")
  case True
  then show ?thesis by (auto simp: classify_instant_def)
next
  case False
  then have "unat (i - e) \<noteq> 0" by (simp add: unat_eq_zero)
  with False show ?thesis
    unfolding classify_instant_def Let_def by (auto simp: word_le_nat_alt)
qed

lemma classify_shift:
  assumes "classify_instant e i = Future d" and "k < unat d"
  shows "classify_instant (e + word_of_nat k) i = Future (d - word_of_nat k)"
proof -
  have d: "d = i - e" "unat d \<le> 32766" using assms(1) by (auto simp: classify_Future)
  have k: "unat (word_of_nat k :: u16) = k" using assms(2) d(2) by (simp add: unat_of_nat take_bit_nat_eq_self)
  have "unat (d - word_of_nat k) = unat d - k"
    using assms(2) k by (simp add: unat_sub word_le_nat_alt)
  with assms(2) d show ?thesis by (auto simp: classify_Future algebra_simps)
qed

section \<open>Lemmas: window widening\<close>

lemma sca_ppm_bound: "unat (sleep_clock_accuracy_ppm sca) \<le> 500"
  by (simp add: sleep_clock_accuracy_ppm_def Let_def)

lemma unat_div_ceil:
  fixes a b :: "'a::len word"
  assumes "0 < unat b"
  shows "unat (div_ceil a b) = (unat a + unat b - 1) div unat b"
proof -
  have ab: "unat (a div b) = unat a div unat b" "unat (a mod b) = unat a mod unat b"
    by (simp_all add: unat_div unat_mod)
  have z: "a mod b = 0 \<longleftrightarrow> unat a mod unat b = 0" by (metis ab(2) unat_eq_zero)
  show ?thesis
  proof (cases "unat a mod unat b = 0")
    case True
    then obtain q where q: "unat a = unat b * q" by blast
    have "(unat b * q + unat b - 1) div unat b = q"
      using assms by (simp add: div_nat_eqI)
    with True q assms show ?thesis by (simp add: div_ceil_def z ab)
  next
    case False
    define q r where "q = unat a div unat b" and "r = unat a mod unat b"
    have a: "unat a = unat b * q + r" "r < unat b" "0 < r"
      using False assms by (auto simp: q_def r_def)
    have "(unat a + unat b - 1) div unat b = Suc q"
      using a by (intro div_nat_eqI) auto
    moreover have "unat (a div b + 1) = Suc q"
    proof -
      have "1 < unat b" using a by linarith
      then have "2 * q \<le> unat b * q" by simp
      with a(1,3) unsigned_less [where 'a = nat, of a] have "Suc q < 2 ^ LENGTH('a)" by linarith
      then show ?thesis by (simp add: unat_word_ariths ab q_def)
    qed
    ultimately show ?thesis using False by (simp add: div_ceil_def z)
  qed
qed

lemma widening_split:
  fixes e t :: nat
  shows "(e div 1000000) * t + ((e mod 1000000) * t + 999999) div 1000000 = (e * t + 999999) div 1000000"
proof -
  define q r where "q = e div 1000000" and "r = e mod 1000000"
  have e: "e = 1000000 * q + r" by (simp add: q_def r_def)
  have "(e * t + 999999) div 1000000 = ((r * t + 999999) + (q * t) * 1000000) div 1000000"
    by (simp add: e algebra_simps)
  also have "\<dots> = q * t + (r * t + 999999) div 1000000"
    by (rule div_mult_self1) simp
  finally show ?thesis by (simp add: q_def r_def)
qed

lemma window_widening_exact_aux:
  "unat (window_widening_us e sca ppm) =
     (unat e * (unat (sleep_clock_accuracy_ppm sca) + unat ppm) + 999999) div 1000000"
proof -
  let ?t = "(ucast (sleep_clock_accuracy_ppm sca) :: u64) + ucast ppm"
  let ?T = "unat (sleep_clock_accuracy_ppm sca) + unat ppm"
  have p: "unat ppm < 65536" using unsigned_less [where 'a = nat, of ppm] by simp
  have T: "?T \<le> 66035" using sca_ppm_bound [of sca] p by linarith
  have t: "unat ?t = ?T" using T by (simp add: unat_word_ariths unat_ucast_up)
  have e: "unat e < 18446744073709551616" using unsigned_less [where 'a = nat, of e] by simp
  have w: "unat (e div 1000000) = unat e div 1000000" "unat (e mod 1000000) = unat e mod 1000000"
    by (simp_all add: unat_div unat_mod)
  have wb: "unat e div 1000000 \<le> 18446744073709" "unat e mod 1000000 < 1000000" using e by auto
  have m1: "unat e div 1000000 * ?T \<le> 18446744073709 * 66035" by (rule mult_le_mono [OF wb(1) T])
  have m2: "unat e mod 1000000 * ?T \<le> 1000000 * 66035" by (rule mult_le_mono) (use wb(2) T in auto)
  have s1: "unat (saturating_mul (e div 1000000) ?t) = unat e div 1000000 * ?T"
    using m1 by (simp add: unat_saturating_mul w t)
  have s2: "unat (saturating_mul (e mod 1000000) ?t) = unat e mod 1000000 * ?T"
    using m2 by (simp add: unat_saturating_mul w t)
  have c: "unat (div_ceil (saturating_mul (e mod 1000000) ?t) 1000000)
      = (unat e mod 1000000 * ?T + 999999) div 1000000"
    by (subst unat_div_ceil) (simp_all add: s2)
  have "(unat e mod 1000000 * ?T + 999999) div 1000000 \<le> 66036" using m2 by linarith
  then have "unat (window_widening_us e sca ppm)
      = unat e div 1000000 * ?T + (unat e mod 1000000 * ?T + 999999) div 1000000"
    using m1 unfolding window_widening_us_def Let_def unat_saturating_add s1 c by simp
  then show ?thesis by (simp only: widening_split)
qed

section \<open>Lemmas: timing\<close>

lemma event_span_unat:
  assumes "unat l \<le> 499" and "unat i \<le> 3200"
  shows "unat (2 * ((ucast (l :: u16) :: u32) + 1) * ucast (i :: u16)) = 2 * (unat l + 1) * unat i"
proof -
  have "(unat l + 1) * unat i \<le> 500 * 3200" by (rule mult_le_mono) (use assms in auto)
  then have b: "2 * (unat l + 1) * unat i < 4294967296" by linarith
  have "unat (2 * ((ucast l :: u32) + 1)) = 2 * (unat l + 1)"
    using assms(1) by (simp add: unat_word_ariths unat_ucast_up)
  then show ?thesis using b by (subst unat_mult_small) (simp_all add: unat_ucast_up)
qed

lemma timeout_units_unat: "unat ((ucast (t :: u16) :: u32) * 8) = unat t * 8"
proof -
  have "unat t < 65536" using unsigned_less [where 'a = nat, of t] by simp
  then show ?thesis by (simp add: unat_word_ariths unat_ucast_up)
qed

section \<open>Lemmas: access addresses\<close>

text \<open>Seven consecutive equal bits starting at \<open>j\<close>, and the bit transitions in the low \<open>b\<close> bits.\<close>

definition seven_equal :: "u32 \<Rightarrow> nat \<Rightarrow> bool" where
  "seven_equal aa j \<longleftrightarrow> (\<forall>k\<le>6. bit aa (j + k) = bit aa j)"

definition transitions :: "u32 \<Rightarrow> nat \<Rightarrow> nat \<Rightarrow> nat" where
  "transitions aa a b = card {n. a \<le> n \<and> n < b \<and> bit aa n \<noteq> bit aa (Suc n)}"

lemma count_ones_card: "count_ones w = card {n. bit w n}" for w :: "'a::len word"
proof -
  have "{n. bit w n} = set (filter (bit w) [0..<LENGTH('a)])"
    by (auto dest: bit_imp_le_length)
  then show ?thesis
    unfolding count_ones_def by (metis distinct_card distinct_filter distinct_upt)
qed

lemma transition_mask:
  "1 \<le> b \<Longrightarrow> b \<le> 32 \<Longrightarrow> (if b = 32 then drop_bit 1 (- 1) else push_bit (b - 1) 1 - 1) = (mask (b - 1) :: u32)"
  by (rule bit_eqI) (auto simp: bit_simps mask_eq_exp_minus_1 push_bit_eq_mult simp flip: mask_eq_exp_minus_1)

lemma transition_count_card:
  assumes "1 \<le> b" and "b \<le> 32"
  shows "transition_count v b = card {n. n < b - 1 \<and> bit v n \<noteq> bit v (Suc n)}"
proof -
  have "{n. bit ((v XOR drop_bit 1 v) AND mask (b - 1)) n} = {n. n < b - 1 \<and> bit v n \<noteq> bit v (Suc n)}"
    using assms by (auto simp: bit_simps)
  then show ?thesis
    by (simp only: transition_count_def Let_def count_ones_card transition_mask [OF assms])
qed

lemma transition_count_shift:
  assumes "1 \<le> b" and "b \<le> 32"
  shows "transition_count (drop_bit s v) b = transitions v s (s + (b - 1))"
proof -
  let ?A = "{n. n < b - 1 \<and> bit v (s + n) \<noteq> bit v (s + Suc n)}"
  have "(\<lambda>n. s + n) ` ?A = {n. s \<le> n \<and> n < s + (b - 1) \<and> bit v n \<noteq> bit v (Suc n)}"
  proof (intro set_eqI iffI)
    fix n
    assume "n \<in> {n. s \<le> n \<and> n < s + (b - 1) \<and> bit v n \<noteq> bit v (Suc n)}"
    then have "n - s \<in> ?A" "n = s + (n - s)" by auto
    then show "n \<in> (\<lambda>n. s + n) ` ?A" by blast
  qed auto
  moreover have "card ((\<lambda>n. s + n) ` ?A) = card ?A" by (rule card_image) simp
  ultimately show ?thesis
    by (simp add: transition_count_card [OF assms] transitions_def bit_drop_bit_eq)
qed

lemma bit_and_one_eq: "(drop_bit i aa AND 1 = drop_bit j aa AND 1) = (bit aa i = bit aa j)" for aa :: u32
  by (simp add: low_bit_word bit_drop_bit_eq)

lemma aa_run_loop_spec:
  assumes "n < 32" and "1 \<le> r" and "r \<le> 6" and "r \<le> Suc n"
    and "\<forall>k<r. bit aa (n - k) = bit aa n"
    and "r = Suc n \<or> bit aa (n - r) \<noteq> bit aa n"
  shows "aa_run_loop aa (drop_bit n aa AND 1) r (Suc n) \<longleftrightarrow>
    (\<forall>j. n < j + 6 \<and> j + 6 < 32 \<longrightarrow> \<not> seven_equal aa j)"
  using assms
proof (induction "31 - n" arbitrary: n r)
  case 0
  then have "n = 31" by linarith
  then show ?case by (auto simp: aa_run_loop.simps [of aa _ r])
next
  case (Suc m)
  then have n: "Suc n < 32" by linarith
  let ?R = "\<lambda>a. \<forall>j. a < j + 6 \<and> j + 6 < 32 \<longrightarrow> \<not> seven_equal aa j"
  have split: "?R n \<longleftrightarrow> ?R (Suc n) \<and> (6 \<le> Suc n \<longrightarrow> \<not> seven_equal aa (Suc n - 6))"
  proof (intro iffI conjI allI impI)
    fix j assume R: "?R (Suc n) \<and> (6 \<le> Suc n \<longrightarrow> \<not> seven_equal aa (Suc n - 6))" and j: "n < j + 6 \<and> j + 6 < 32"
    show "\<not> seven_equal aa j"
      using R j by (cases "j + 6 = Suc n") (auto dest: spec [of _ j])
  qed (use n in auto)
  show ?case
  proof (cases "bit aa (Suc n) = bit aa n")
    case same: True
    show ?thesis
    proof (cases "r = 6")
      case True
      then have le: "6 \<le> Suc n" using Suc.prems by simp
      have "bit aa (Suc n - 6 + k) = bit aa (Suc n - 6)" if "k \<le> 6" for k
      proof -
        have all: "bit aa (n - i) = bit aa n" if "i < 6" for i using Suc.prems(5) that True by simp
        have "bit aa (Suc n - 6 + k) = bit aa n"
          using same all [of "5 - k"] le that by (cases "k = 6") (auto simp: Suc_diff_le)
        moreover have "bit aa (Suc n - 6) = bit aa n" using all [of 5] by simp
        ultimately show ?thesis by simp
      qed
      then have "\<not> ?R n" using split le by (auto simp: seven_equal_def)
      moreover have "\<not> aa_run_loop aa (drop_bit n aa AND 1) r (Suc n)"
        using n True same by (subst aa_run_loop.simps) (simp add: Let_def bit_and_one_eq)
      ultimately show ?thesis by simp
    next
      case False
      then have r: "r < 6" using Suc.prems by simp
      have "bit aa (Suc n - k) = bit aa (Suc n)" if "k < Suc r" for k
        using Suc.prems(5) that same by (cases k) auto
      moreover have "Suc r = Suc (Suc n) \<or> bit aa (Suc n - Suc r) \<noteq> bit aa (Suc n)"
        using Suc.prems(6) same by simp
      ultimately have IH: "aa_run_loop aa (drop_bit (Suc n) aa AND 1) (Suc r) (Suc (Suc n)) \<longleftrightarrow> ?R (Suc n)"
        using Suc.hyps(1) [of "Suc n" "Suc r"] Suc.hyps(2) Suc.prems(4) n r by simp
      have "\<not> seven_equal aa (Suc n - 6)" if "6 \<le> Suc n"
      proof
        assume s: "seven_equal aa (Suc n - 6)"
        have "r \<noteq> Suc n" using that r by simp
        then have ne: "bit aa (n - r) \<noteq> bit aa n" using Suc.prems(6) by simp
        have e: "bit aa (Suc n - 6 + k) = bit aa (Suc n - 6)" if "k \<le> 6" for k
          using s that unfolding seven_equal_def by blast
        have b: "5 - r \<le> 6" "(5 :: nat) \<le> 6" by simp_all
        have "bit aa (Suc n - 6 + (5 - r)) = bit aa (Suc n - 6 + 5)"
          by (rule trans [OF e [OF b(1)] e [OF b(2), symmetric]])
        moreover have "Suc n - 6 + (5 - r) = n - r" "Suc n - 6 + 5 = n" using that r by auto
        ultimately show False using ne by simp
      qed
      with IH split show ?thesis
        using n r same by (subst aa_run_loop.simps) (simp add: Let_def bit_and_one_eq low_bit_word bit_drop_bit_eq)
    qed
  next
    case diff: False
    have IH: "aa_run_loop aa (drop_bit (Suc n) aa AND 1) 1 (Suc (Suc n)) \<longleftrightarrow> ?R (Suc n)"
      using Suc.hyps(1) [of "Suc n" 1] Suc.hyps(2) n diff by simp
    have "\<not> seven_equal aa (Suc n - 6)" if "6 \<le> Suc n"
    proof
      assume s: "seven_equal aa (Suc n - 6)"
      have "bit aa (Suc n - 6 + 5) = bit aa (Suc n - 6 + 6)" using s unfolding seven_equal_def by simp
      then show False using diff that by simp
    qed
    with IH split show ?thesis
      using n diff by (subst aa_run_loop.simps) (simp add: Let_def bit_and_one_eq)
  qed
qed

lemma aa_run_loop_start:
  "aa_run_loop aa (aa AND 1) 1 1 \<longleftrightarrow> (\<forall>j\<le>25. \<not> seven_equal aa j)"
  using aa_run_loop_spec [of 0 1 aa] by (auto simp: drop_bit_0)

section \<open>Lemmas: parameter PDUs\<close>

text \<open>Valid offsets come first, are distinct and below the interval; the rest is 0xffff.\<close>

definition anchor_offsets :: "u16 list \<Rightarrow> u16 list" where
  "anchor_offsets os = takeWhile (\<lambda>v. v \<noteq> - 1) os"

definition offsets_ok :: "u16 \<Rightarrow> u16 list \<Rightarrow> bool" where
  "offsets_ok interval_max os \<longleftrightarrow>
     list_all (\<lambda>v. v = - 1) (dropWhile (\<lambda>v. v \<noteq> - 1) os)
     \<and> list_all (\<lambda>v. v < interval_max) (anchor_offsets os) \<and> distinct (anchor_offsets os)"

lemma offsets_loop_saw:
  "offsets_loop im seen os True h = (if list_all (\<lambda>v. v = - 1) os then Some h else None)"
  by (induction os arbitrary: seen) auto

lemma offsets_loop_seen:
  "offsets_loop im seen os False h =
     (if list_all (\<lambda>v. v = - 1) (dropWhile (\<lambda>v. v \<noteq> - 1) os)
         \<and> list_all (\<lambda>v. v < im) (anchor_offsets os) \<and> distinct (anchor_offsets os)
         \<and> set seen \<inter> set (anchor_offsets os) = {}
      then Some (h \<or> anchor_offsets os \<noteq> []) else None)"
  by (induction os arbitrary: seen h) (auto simp: anchor_offsets_def offsets_loop_saw not_le)

lemma offsets_loop_ok:
  "offsets_loop im [] os False False =
     (if offsets_ok im os then Some (anchor_offsets os \<noteq> []) else None)"
  by (simp add: offsets_loop_seen offsets_ok_def)

lemma chunks_u16_concat: "chunks_u16 (concat (map u16_to_le os)) = os"
  by (induction os) (simp_all add: u16_to_le_def)

lemma concat_chunks_u16: "even (length bs) \<Longrightarrow> concat (map u16_to_le (chunks_u16 bs)) = bs"
  by (induction bs rule: chunks_u16.induct) auto

lemma length_chunks_u16: "length (chunks_u16 bs) = length bs div 2"
  by (induction bs rule: chunks_u16.induct) auto

lemma length_concat_u16: "length (concat (map u16_to_le os)) = 2 * length os"
  by (induction os) auto

lemma length_connection_param_write: "length (connection_param_write p op) = 12 + 2 * length (cp_offsets p)"
  by (simp add: connection_param_write_def length_concat_u16)

lemma connection_param_parse_write:
  assumes "length (cp_offsets p) = 6"
  shows "connection_param_parse (connection_param_write p op) op e =
    (if cp_parameters_are_valid p e then Inr p else Inl InvalidParameters)"
proof -
  let ?w = "connection_param_write p op"
  have l: "length ?w = 24" using assms by (simp add: length_connection_param_write)
  have sl: "slice_of ?w 12 24 = concat (map u16_to_le (cp_offsets p))"
    using assms by (simp add: slice_of_def connection_param_write_def length_concat_u16)
  have fields: "?w ! 0 = op" "u16_from_le (?w ! 1) (?w ! 2) = cp_interval_min p"
    "u16_from_le (?w ! 3) (?w ! 4) = cp_interval_max p" "u16_from_le (?w ! 5) (?w ! 6) = cp_latency p"
    "u16_from_le (?w ! 7) (?w ! 8) = cp_supervision_timeout p" "?w ! 9 = cp_preferred_periodicity p"
    "u16_from_le (?w ! 10) (?w ! 11) = cp_reference_event_count p"
    by (simp_all add: connection_param_write_def u16_to_le_def)
  have eta: "\<lparr>cp_interval_min = cp_interval_min p, cp_interval_max = cp_interval_max p, cp_latency = cp_latency p,
      cp_supervision_timeout = cp_supervision_timeout p, cp_preferred_periodicity = cp_preferred_periodicity p,
      cp_reference_event_count = cp_reference_event_count p, cp_offsets = cp_offsets p\<rparr> = p"
    by (cases p) simp
  show ?thesis
    unfolding connection_param_parse_def l sl fields chunks_u16_concat Let_def eta by simp
qed

lemma list24: "length (p :: 'a list) = 24 \<Longrightarrow>
  p = [p ! 0, p ! 1, p ! 2, p ! 3, p ! 4, p ! 5, p ! 6, p ! 7, p ! 8, p ! 9, p ! 10, p ! 11] @ slice_of p 12 24"
  by (rule nth_equalityI) (auto simp: slice_of_def nth_append nth_Cons' less_Suc_eq numeral_eq_Suc)

lemma connection_param_write_parse:
  assumes "connection_param_parse b op e = Inr p"
  shows "connection_param_write p op = b \<and> length (cp_offsets p) = 6 \<and> cp_parameters_are_valid p e"
proof -
  have l: "length b = 24" and op: "b ! 0 = op"
    and p: "p = \<lparr>cp_interval_min = u16_from_le (b ! 1) (b ! 2), cp_interval_max = u16_from_le (b ! 3) (b ! 4),
      cp_latency = u16_from_le (b ! 5) (b ! 6), cp_supervision_timeout = u16_from_le (b ! 7) (b ! 8),
      cp_preferred_periodicity = b ! 9, cp_reference_event_count = u16_from_le (b ! 10) (b ! 11),
      cp_offsets = chunks_u16 (slice_of b 12 24)\<rparr>"
    and v: "cp_parameters_are_valid p e"
    using assms by (auto simp: connection_param_parse_def Let_def split: if_splits)
  have "connection_param_write p op = [b ! 0, b ! 1, b ! 2, b ! 3, b ! 4, b ! 5, b ! 6, b ! 7, b ! 8,
      b ! 9, b ! 10, b ! 11] @ slice_of b 12 24"
    using l by (simp add: p op connection_param_write_def concat_chunks_u16)
  also have "\<dots> = b" by (rule list24 [OF l, symmetric])
  finally show ?thesis using l v by (simp add: p length_chunks_u16)
qed


text \<open>The encoder and its parser as a codec over parameter sets acceptable at event \<open>e\<close>.\<close>

interpretation param_codec: codec
  "\<lambda>p. connection_param_write p op"
  "\<lambda>b. case connection_param_parse b op e of Inl _ \<Rightarrow> None | Inr p \<Rightarrow> Some p"
  "\<lambda>p. length (cp_offsets p) = 6 \<and> cp_parameters_are_valid p e"
  for op e
  by unfold_locales (simp add: connection_param_parse_write)

lemma connection_update_parse_ok:
  "connection_update_parse p e = Inr u \<Longrightarrow>
     length p = 12 \<and> p ! 0 = 0 \<and> cu_parameters_are_valid u \<and> classify_instant e (cu_instant u) \<noteq> Passed"
  by (auto simp: connection_update_parse_def Let_def split: if_splits)

lemma channel_map_parse_ok:
  "channel_map_parse p e = Inr u \<Longrightarrow>
     length p = 8 \<and> p ! 0 = 1 \<and> length (cm_map u) = 5 \<and> data_channel_map_is_valid (cm_map u)
     \<and> classify_instant e (cm_instant u) \<noteq> Passed"
  by (auto simp: channel_map_parse_def Let_def split: if_splits)

lemma connection_timing_iff:
  "connection_timing_is_valid ws wo i l t \<longleftrightarrow>
     unat ws \<in> {1..8} \<and> unat i \<in> {6..3200} \<and> unat wo \<le> unat i \<and> unat ws < unat i \<and> unat l \<le> 499
     \<and> unat t \<in> {10..3200} \<and> 2 * (unat l + 1) * unat i < 8 * unat t"
proof (cases "unat i \<le> 3200 \<and> unat l \<le> 499")
  case True
  then have "2 * ((ucast l :: u32) + 1) * ucast i < ucast t * 8 \<longleftrightarrow> 2 * (unat l + 1) * unat i < 8 * unat t"
    by (simp only: word_less_nat_alt event_span_unat timeout_units_unat mult.commute [of 8])
  then show ?thesis
    unfolding connection_timing_is_valid_def Let_def
    by (auto simp: word_le_nat_alt word_less_nat_alt unat_ucast_up)
next
  case False
  then show ?thesis
    unfolding connection_timing_is_valid_def Let_def by (auto simp: word_le_nat_alt)
qed

section \<open>A valid access address\<close>

lemma drop_bit_1_minus_1: "(drop_bit 1 (- 1) :: u32) = 0x7fffffff"
proof -
  have "(drop_bit 1 (- 1) :: u32) = mask 31" by (rule bit_eqI) (auto simp: bit_simps)
  also have "(mask 31 :: u32) = 0x7fffffff" by (simp add: mask_eq_exp_minus_1)
  finally show ?thesis .
qed

lemma example_address: "data_access_address_is_valid 0x50656a75 False"
proof -
  have run: "aa_run_loop 0x50656a75 1 1 1" by (simp add: aa_run_loop.simps)
  have t32: "transition_count 0x50656a75 32 = count_ones (((0x50656a75::u32) XOR 0x2832b53a) AND 0x7fffffff)"
    by (simp only: transition_count_def Let_def refl if_True drop_bit_1_minus_1) simp
  have t6: "transition_count (drop_bit 26 0x50656a75) 6 = count_ones (((0x14::u32) XOR 0x0a) AND 0x1f)"
    by (simp add: transition_count_def Let_def)
  have c32: "count_ones (((0x50656a75::u32) XOR 0x2832b53a) AND 0x7fffffff) \<le> 24"
    by (simp add: count_ones_def upt_rec)
  have c6: "2 \<le> count_ones (((0x14::u32) XOR 0x0a) AND 0x1f)"
    by (simp add: count_ones_def upt_rec)
  have h: "count_ones ((0x50656a75::u32) XOR 0x8e89bed6) \<noteq> 1"
    by (simp add: count_ones_def upt_rec)
  show ?thesis
    unfolding data_access_address_is_valid_def Let_def t32 t6 ADV_ACCESS_ADDRESS_def
    using run c32 c6 h by (simp add: u32_to_le_def not_less)
qed

section \<open>Properties\<close>

text \<open>
  The receive-window widening is exactly the clock drift rounded up to a microsecond,
  for every elapsed time and every pair of clock accuracies: no saturation occurs and the
  drift is never underestimated.
\<close>

theorem window_widening_exact:
  "let drift = unat e * (unat (sleep_clock_accuracy_ppm sca) + unat ppm);
       w = unat (window_widening_us e sca ppm)
   in w = (drift + 999999) div 1000000 \<and> drift \<le> 1000000 * w \<and> 1000000 * w < drift + 1000000"
proof -
  have ceil: "d \<le> 1000000 * ((d + 999999) div 1000000) \<and> 1000000 * ((d + 999999) div 1000000) < d + 1000000"
    for d :: nat by linarith
  show ?thesis unfolding Let_def window_widening_exact_aux using ceil by blast
qed

text \<open>
  C34. An access address is accepted exactly when it satisfies the rules of the
  specification: it differs from the advertising address in at least two bits, its four
  octets are not all equal, it has no run of seven equal bits, at most 24 transitions, at
  least two transitions in its six most significant bits and, on the coded PHY, three ones
  in the low octet and at most eleven transitions in the low sixteen bits.
\<close>

theorem access_address_rules:
  "data_access_address_is_valid aa coded \<longleftrightarrow>
     aa \<noteq> ADV_ACCESS_ADDRESS \<and> card {n. bit aa n \<noteq> bit ADV_ACCESS_ADDRESS n} \<noteq> 1
     \<and> \<not> (\<exists>b. u32_to_le aa = [b, b, b, b])
     \<and> (\<forall>j\<le>25. \<exists>k\<le>6. bit aa (j + k) \<noteq> bit aa j)
     \<and> transitions aa 0 31 \<le> 24 \<and> 2 \<le> transitions aa 26 31
     \<and> (coded \<longrightarrow> 3 \<le> card {n. n < 8 \<and> bit aa n} \<and> transitions (aa AND 0xffff) 0 15 \<le> 11)"
proof -
  have ham: "count_ones (aa XOR ADV_ACCESS_ADDRESS) = card {n. bit aa n \<noteq> bit ADV_ACCESS_ADDRESS n}"
    by (simp add: count_ones_card bit_xor_iff)
  have low: "count_ones (aa AND 0xff) = card {n. n < 8 \<and> bit aa n}"
  proof -
    have m: "(0xff :: u32) = mask 8" by (simp add: mask_eq_exp_minus_1)
    have "{n. bit (aa AND 0xff) n} = {n. n < 8 \<and> bit aa n}" unfolding m by (auto simp: bit_simps)
    then show ?thesis by (simp add: count_ones_card)
  qed
  have t32: "transition_count aa 32 = transitions aa 0 31"
    and t6: "transition_count (drop_bit 26 aa) 6 = transitions aa 26 31"
    and t16: "transition_count (aa AND 0xffff) 16 = transitions (aa AND 0xffff) 0 15"
    using transition_count_shift [of 32 0 aa] transition_count_shift [of 6 26 aa]
      transition_count_shift [of 16 0 "aa AND 0xffff"] by simp_all
  have oct: "(\<exists>b. u32_to_le aa = [b, b, b, b]) \<longleftrightarrow>
      u32_to_le aa ! 0 = u32_to_le aa ! 1 \<and> u32_to_le aa ! 1 = u32_to_le aa ! 2 \<and> u32_to_le aa ! 2 = u32_to_le aa ! 3"
    by (auto simp: u32_to_le_def)
  define R where "R = (\<forall>j\<le>25. \<exists>k\<le>6. bit aa (j + k) \<noteq> bit aa j)"
  have run: "aa_run_loop aa (aa AND 1) 1 1 \<longleftrightarrow> R"
    unfolding aa_run_loop_start seven_equal_def R_def by auto
  show ?thesis
    unfolding data_access_address_is_valid_def Let_def ham low t32 t6 t16 oct run R_def [symmetric]
    by (auto simp: not_less not_le)
qed

theorem access_address_rules_witness:
  "\<not> data_access_address_is_valid 0x55555555 False \<and> \<not> data_access_address_is_valid ADV_ACCESS_ADDRESS True"
proof -
  have "u32_to_le 0x55555555 = [0x55, 0x55, 0x55, 0x55]" by (simp add: u32_to_le_def)
  then show ?thesis
    using access_address_rules [of "0x55555555" False] access_address_rules [of ADV_ACCESS_ADDRESS True] by blast
qed

text \<open>
  Connection timing is accepted exactly within the ranges of the specification, with the
  supervision timeout strictly above twice the longest latency span, where all products are
  those of the natural numbers: within the ranges no word arithmetic wraps.
\<close>

theorem connection_timing_spec:
  "connection_timing_is_valid ws wo i l t \<longleftrightarrow>
     unat ws \<in> {1..8} \<and> unat i \<in> {6..3200} \<and> unat wo \<le> unat i \<and> unat ws < unat i \<and> unat l \<le> 499
     \<and> unat t \<in> {10..3200} \<and> 2 * (unat l + 1) * unat i < 8 * unat t"
  by (rule connection_timing_iff)

text \<open>
  C35. Connection-parameter PDUs round trip: parsing what \<open>write\<close> produced gives the same
  parameters exactly when they are valid, and every PDU the parser accepts is the encoding
  of its result.
\<close>

theorem connection_param_roundtrip:
  assumes "length (cp_offsets p) = 6"
  shows "connection_param_parse (connection_param_write p op) op e =
      (if cp_parameters_are_valid p e then Inr p else Inl InvalidParameters)
    \<and> (connection_param_parse b op e = Inr q \<longrightarrow> connection_param_write q op = b)"
  using connection_param_parse_write [OF assms] connection_param_write_parse by simp

theorem connection_param_roundtrip_witness:
  "let p = \<lparr>cp_interval_min = 12, cp_interval_max = 24, cp_latency = 0, cp_supervision_timeout = 200,
        cp_preferred_periodicity = 6, cp_reference_event_count = 102, cp_offsets = [3, 7, - 1, - 1, - 1, - 1]\<rparr>
   in cp_parameters_are_valid p 100 \<and> connection_param_parse (connection_param_write p 0x0f) 0x0f 100 = Inr p"
  unfolding Let_def
  by (subst connection_param_roundtrip [THEN conjunct1])
     (simp_all add: cp_parameters_are_valid_def connection_parameter_range_is_valid_def
        classify_instant_def Let_def)

text \<open>
  The anchor preferences of a parameter request are accepted exactly when the timing range
  is valid, the preferred periodicity does not exceed the interval, the offsets are distinct
  values below the maximum interval followed only by 0xffff, and, if there is one, the
  reference event has not passed.
\<close>

theorem connection_param_validity:
  "cp_parameters_are_valid p e \<longleftrightarrow>
     connection_parameter_range_is_valid (cp_interval_min p) (cp_interval_max p) (cp_latency p) (cp_supervision_timeout p)
     \<and> unat (cp_preferred_periodicity p) \<le> unat (cp_interval_max p)
     \<and> offsets_ok (cp_interval_max p) (cp_offsets p)
     \<and> (anchor_offsets (cp_offsets p) = [] \<or> classify_instant e (cp_reference_event_count p) \<noteq> Passed)"
  by (auto simp: cp_parameters_are_valid_def offsets_loop_ok word_less_nat_alt unat_ucast_up not_less)

theorem connection_param_validity_witness:
  "let p = \<lparr>cp_interval_min = 12, cp_interval_max = 24, cp_latency = 0, cp_supervision_timeout = 200,
        cp_preferred_periodicity = 6, cp_reference_event_count = 99, cp_offsets = [3, 7, - 1, - 1, - 1, - 1]\<rparr>
   in \<not> cp_parameters_are_valid p 100"
  unfolding Let_def connection_param_validity
  by (simp add: classify_Passed anchor_offsets_def unat_max)

text \<open>
  An instant classified as \<open>d\<close> events ahead counts down event by event, across the wrap of
  the 16-bit counter, is current exactly \<open>d\<close> events later and passed at the event after that.
\<close>

theorem instant_countdown:
  assumes "classify_instant e i = Future d"
  shows "(\<forall>k<unat d. classify_instant (e + word_of_nat k) i = Future (d - word_of_nat k))
    \<and> classify_instant (e + d) i = Current \<and> classify_instant (e + d + 1) i = Passed"
proof -
  have "d = i - e" using assms by (simp add: classify_Future)
  then show ?thesis using classify_shift [OF assms] by (simp add: classify_Passed unat_max)
qed

theorem instant_countdown_witness:
  "classify_instant 0xfffe 1 = Future 3 \<and> classify_instant (0xfffe + word_of_nat 2) 1 = Future (3 - word_of_nat 2)
    \<and> classify_instant (0xfffe + 3) 1 = Current \<and> classify_instant (0xfffe + 3 + 1) 1 = Passed"
proof -
  have h: "classify_instant 0xfffe 1 = Future 3" by (simp add: classify_Future)
  have "2 < unat (3 :: u16)" by simp
  then show ?thesis using h instant_countdown [OF h] by blast
qed

end
