(* ===== verification/Channel_Selection.thy ===== *)
theory Channel_Selection
  imports Control_Pdu
begin

text \<open>
  Channel Selection Algorithm \#1 of \<^verbatim>\<open>crates/ble-controller/src/link_layer.rs\<close>
  (\<open>ChannelSelection1\<close>). The state keeps the map, the table of used channels and the last
  unmapped channel as the struct does; \<open>None\<close> is a panic (overflow, division by zero, index
  out of range, \<open>unwrap\<close> of an error). The locale \<open>hop_selector\<close> is the interface the
  connection relies on; it is interpreted on the struct's operations.
\<close>

record channel_selection1 =
  cs_map :: bytes
  cs_used :: bytes
  cs_used_len :: u8
  cs_hop :: u8
  cs_last_unmapped :: u8

text \<open>The test \<open>map[usize::from(c / 8)] & (1 << (c % 8)) != 0\<close>.\<close>

definition channel_in_map :: "bytes \<Rightarrow> u8 \<Rightarrow> bool" where
  "channel_in_map m c = (m ! unat (c div 8) AND push_bit (unat (c mod 8)) 1 \<noteq> 0)"

definition used_table :: "bytes \<Rightarrow> bytes \<times> nat" where
  "used_table m =
     foldl (\<lambda>(used, used_len) c. if channel_in_map m c then (used[used_len := c], used_len + 1) else (used, used_len))
       (replicate 37 0, 0) (map word_of_nat [0..<37])"

definition channel_selection1_new :: "bytes \<Rightarrow> u8 \<Rightarrow> radio_error + channel_selection1" where
  "channel_selection1_new m hop =
     (if \<not> (5 \<le> hop \<and> hop \<le> 16) \<or> \<not> data_channel_map_is_valid m then Inl Err_InvalidPacket
      else (let (used, used_len) = used_table m in
        Inr \<lparr>cs_map = m, cs_used = used, cs_used_len = word_of_nat used_len, cs_hop = hop,
             cs_last_unmapped = 0\<rparr>))"

definition next_channel :: "channel_selection1 \<Rightarrow> (channel \<times> channel_selection1) option" where
  "next_channel s =
     (if 256 \<le> unat (cs_last_unmapped s) + unat (cs_hop s) then None
      else (let unmapped = (cs_last_unmapped s + cs_hop s) mod 37;
                s' = s\<lparr>cs_last_unmapped := unmapped\<rparr>;
                mapped =
                  (if channel_in_map (cs_map s) unmapped then Some unmapped
                   else if cs_used_len s = 0 then None
                   else (let i = unat (unmapped mod cs_used_len s) in
                         if i < length (cs_used s) then Some (cs_used s ! i) else None))
            in case mapped of None \<Rightarrow> None
               | Some c \<Rightarrow> (case channel_new c of Inl _ \<Rightarrow> None | Inr ch \<Rightarrow> Some (ch, s'))))"

definition update_map :: "channel_selection1 \<Rightarrow> bytes \<Rightarrow> radio_error + channel_selection1" where
  "update_map s m =
     (if \<not> data_channel_map_is_valid m then Inl Err_InvalidPacket
      else (let (used, used_len) = used_table m in
        Inr (s\<lparr>cs_map := m, cs_used := used, cs_used_len := word_of_nat used_len\<rparr>)))"

section \<open>The algorithm of the specification\<close>

text \<open>
  The used channels in ascending order, and the remapping rule: an unused channel is
  replaced by the entry of that table at its index modulo the number of used channels.
\<close>

definition used_channels :: "bytes \<Rightarrow> nat list" where
  "used_channels m = filter (\<lambda>c. bit (m ! (c div 8)) (c mod 8)) [0..<37]"

definition remap :: "nat list \<Rightarrow> nat \<Rightarrow> nat" where
  "remap cs u = (if u \<in> set cs then u else cs ! (u mod length cs))"

text \<open>\<open>n\<close> consecutive connection events of a selector with operation \<open>nxt\<close>.\<close>

primrec hops :: "('s \<Rightarrow> (channel \<times> 's) option) \<Rightarrow> nat \<Rightarrow> 's \<Rightarrow> (channel list \<times> 's) option" where
  "hops nxt 0 s = Some ([], s)"
| "hops nxt (Suc n) s =
     (case hops nxt n s of None \<Rightarrow> None
      | Some (cs, s') \<Rightarrow> (case nxt s' of None \<Rightarrow> None | Some (c, s'') \<Rightarrow> Some (cs @ [c], s'')))"

section \<open>The selector interface\<close>

locale hop_selector =
  fixes nxt :: "'s \<Rightarrow> (channel \<times> 's) option"
    and upd :: "'s \<Rightarrow> bytes \<Rightarrow> 'e + 's"
    and ok :: "'s \<Rightarrow> bool"
    and table :: "'s \<Rightarrow> nat list"
    and phase :: "'s \<Rightarrow> nat"
    and hop :: "'s \<Rightarrow> nat"
  assumes nxt_step: "ok s \<Longrightarrow> \<exists>c s'. nxt s = Some (c, s') \<and> ok s' \<and> table s' = table s \<and> hop s' = hop s
      \<and> phase s' = (phase s + hop s) mod 37 \<and> unat (channel_index c) = remap (table s) (phase s')"
    and upd_step: "ok s \<Longrightarrow> upd s m = Inr s' \<Longrightarrow>
      length m = 5 \<Longrightarrow> ok s' \<and> table s' = used_channels m \<and> hop s' = hop s \<and> phase s' = phase s"
begin

lemma hops_spec:
  assumes "ok s" and "phase s < 37"
  shows "\<exists>cs s'. hops nxt n s = Some (cs, s') \<and> ok s' \<and> table s' = table s \<and> hop s' = hop s
    \<and> phase s' = (phase s + n * hop s) mod 37
    \<and> map (\<lambda>c. unat (channel_index c)) cs = map (\<lambda>k. remap (table s) ((phase s + Suc k * hop s) mod 37)) [0..<n]"
proof (induction n)
  case 0
  with assms show ?case by simp
next
  case (Suc n)
  then obtain cs s' where IH: "hops nxt n s = Some (cs, s')" "ok s'" "table s' = table s" "hop s' = hop s"
    "phase s' = (phase s + n * hop s) mod 37"
    "map (\<lambda>c. unat (channel_index c)) cs = map (\<lambda>k. remap (table s) ((phase s + Suc k * hop s) mod 37)) [0..<n]"
    by blast
  obtain c s'' where st: "nxt s' = Some (c, s'')" "ok s''" "table s'' = table s'" "hop s'' = hop s'"
    "phase s'' = (phase s' + hop s') mod 37" "unat (channel_index c) = remap (table s') (phase s'')"
    using nxt_step [OF IH(2)] by blast
  have "phase s'' = (phase s + Suc n * hop s) mod 37"
    unfolding st(5) IH(4,5) mod_add_left_eq by (simp add: algebra_simps)
  then have ph: "phase s'' = (phase s + (hop s + n * hop s)) mod 37" by simp
  have "map (\<lambda>c. unat (channel_index c)) (cs @ [c]) =
      map (\<lambda>k. remap (table s) ((phase s + Suc k * hop s) mod 37)) [0..<Suc n]"
    using IH(3,6) st(6) unfolding ph by simp
  with IH(1,3,4) st(1-4) ph show ?case by (intro exI [of _ "cs @ [c]"] exI [of _ s'']) simp
qed

end

section \<open>The struct implements the interface\<close>

lemma channel_in_map_bit:
  assumes "unat c < 37"
  shows "channel_in_map m c \<longleftrightarrow> unat c \<in> set (used_channels m)"
proof -
  have "channel_in_map m c \<longleftrightarrow> bit (m ! unat (c div 8)) (unat (c mod 8))"
    unfolding channel_in_map_def by (simp add: and_exp_eq_0_iff_not_bit push_bit_of_1)
  with assms show ?thesis by (simp add: used_channels_def unat_div unat_mod)
qed

lemma length_used_channels_le: "length (used_channels m) \<le> 37"
  unfolding used_channels_def by (rule order_trans [OF length_filter_le]) simp

text \<open>Filling a prefix of an array with the elements that pass a test.\<close>

lemma fill_loop:
  assumes "length (filter P xs) \<le> k"
  shows "foldl (\<lambda>(used, n) c. if P c then (used[n := c], n + 1) else (used, n)) (pre @ replicate k z, length pre) xs =
     (pre @ filter P xs @ replicate (k - length (filter P xs)) z, length pre + length (filter P xs))"
  using assms
proof (induction xs arbitrary: pre k)
  case (Cons x xs)
  show ?case
  proof (cases "P x")
    case True
    with Cons.prems obtain j where k: "k = Suc j" "length (filter P xs) \<le> j" by (cases k) auto
    show ?thesis using Cons.IH [OF k(2), of "pre @ [x]"] True by (simp add: k list_update_append)
  next
    case False
    then show ?thesis using Cons by simp
  qed
qed simp

lemma used_table_eq:
  "used_table m = (map word_of_nat (used_channels m) @ replicate (37 - length (used_channels m)) 0,
     length (used_channels m))"
proof -
  let ?ws = "map word_of_nat [0..<37] :: bytes"
  have u: "unat (word_of_nat c :: u8) = c" if "c < 37" for c
    using that by (simp add: unat_of_nat take_bit_nat_eq_self)
  have f: "filter (channel_in_map m) ?ws = map word_of_nat (used_channels m)"
    unfolding filter_map used_channels_def comp_def
    by (intro arg_cong [where f = "map word_of_nat"] filter_cong refl)
       (simp add: channel_in_map_bit u used_channels_def)
  have l: "length (filter (channel_in_map m) ?ws) \<le> 37"
    unfolding f using length_used_channels_le by simp
  show ?thesis using fill_loop [OF l, of "[]" 0] unfolding used_table_def f by simp
qed

definition selector_ok :: "channel_selection1 \<Rightarrow> bool" where
  "selector_ok s \<longleftrightarrow> used_table (cs_map s) = (cs_used s, unat (cs_used_len s)) \<and> cs_used_len s \<noteq> 0
     \<and> unat (cs_hop s) \<in> {5..16} \<and> unat (cs_last_unmapped s) < 37"


text \<open>The map as the number of used channels: validity is \<open>two or more\<close> of them.\<close>

lemma channel_new_ok: "unat c < 37 \<Longrightarrow> channel_new c = Inr (Channel c)"
  by (simp add: channel_new_def word_le_nat_alt)

lemma used_channels_lt: "c \<in> set (used_channels m) \<Longrightarrow> c < 37"
  by (simp add: used_channels_def)

lemma distinct_used_channels [simp]: "distinct (used_channels m)"
  by (simp add: used_channels_def)

lemma count_ones_u8: "count_ones (b :: u8) = length (filter (bit b) [0..<8])"
  by (simp add: count_ones_def)

lemma filter_octet:
  assumes "k \<le> 8"
  shows "filter (\<lambda>c. bit (m ! (c div 8)) (c mod 8)) [8 * q..<8 * q + k] =
    map ((+) (8 * q)) (filter (bit (m ! q)) [0..<k])"
proof -
  have e: "[8 * q..<8 * q + k] = map ((+) (8 * q)) [0..<k]"
    by (rule nth_equalityI) auto
  show ?thesis
    unfolding e filter_map comp_def
    by (intro arg_cong [where f = "map ((+) (8 * q))"] filter_cong refl)
       (use assms in auto)
qed

lemma length_filter_octet:
  "k \<le> 8 \<Longrightarrow> length (filter (\<lambda>c. bit (m ! (c div 8)) (c mod 8)) [8 * q..<8 * q + k]) = length (filter (bit (m ! q)) [0..<k])"
  by (simp add: filter_octet)

lemma top_octet_count:
  assumes "(b :: u8) AND 0xe0 = 0"
  shows "length (filter (bit b) [0..<8]) = length (filter (bit b) [0..<5])"
proof -
  have "\<not> bit b n" if "n \<in> {5, 6, 7}" for n
  proof -
    have "(0xe0 :: u8) = NOT (mask 5)" by (simp add: mask_eq_exp_minus_1)
    with that have "bit (0xe0 :: u8) n" by (auto simp: bit_simps)
    moreover have "\<not> bit (b AND 0xe0) n" using assms by simp
    ultimately show ?thesis by (simp add: bit_and_iff)
  qed
  moreover have "[0..<8] = [0..<5] @ [5, 6, 7 :: nat]" by (simp add: upt_rec)
  ultimately show ?thesis by simp
qed

lemma upt37: "[0..<37] = [8 * 0..<8 * 0 + 8] @ [8 * 1..<8 * 1 + 8] @ [8 * 2..<8 * 2 + 8] @ [8 * 3..<8 * 3 + 8] @ [8 * 4..<8 * 4 + (5::nat)]"
  by (simp add: upt_rec)

lemma valid_map_channels:
  assumes "length m = 5" and "data_channel_map_is_valid m"
  shows "2 \<le> length (used_channels m)"
proof -
  obtain a b c d e where m: "m = [a, b, c, d, e]"
    using assms(1) by (auto simp: length_Suc_conv numeral_eq_Suc)
  have "length (used_channels m) = count_ones a + count_ones b + count_ones c + count_ones d
      + length (filter (bit e) [0..<5])"
    unfolding used_channels_def upt37 filter_append length_append
    by (subst length_filter_octet, simp)+ (simp add: m count_ones_u8)
  moreover have "length (filter (bit e) [0..<5]) = count_ones e"
    using assms(2) top_octet_count [of e] by (simp add: data_channel_map_is_valid_def m count_ones_u8 split: if_splits)
  ultimately show ?thesis
    using assms(2) by (simp add: data_channel_map_is_valid_def m split: if_splits)
qed

lemma selector_ok_new:
  assumes "length m = 5" and "channel_selection1_new m hop = Inr s"
  shows "selector_ok s \<and> cs_map s = m \<and> cs_hop s = hop \<and> cs_last_unmapped s = 0"
proof -
  have v: "data_channel_map_is_valid m" and h: "5 \<le> hop" "hop \<le> 16"
    using assms(2) by (auto simp: channel_selection1_new_def split: if_splits)
  have n: "unat (word_of_nat (length (used_channels m)) :: u8) = length (used_channels m)"
    using length_used_channels_le [of m] by (simp add: unat_of_nat take_bit_nat_eq_self)
  have "(word_of_nat (length (used_channels m)) :: u8) \<noteq> 0"
    using n valid_map_channels [OF assms(1) v] by force
  with n assms(2) v h show ?thesis
    by (auto simp: channel_selection1_new_def selector_ok_def used_table_eq word_le_nat_alt)
qed

lemma selector_ok_update:
  assumes "selector_ok s" "length m = 5" and "update_map s m = Inr s'"
  shows "selector_ok s' \<and> cs_map s' = m \<and> cs_hop s' = cs_hop s \<and> cs_last_unmapped s' = cs_last_unmapped s"
proof -
  have v: "data_channel_map_is_valid m"
    using assms(3) by (auto simp: update_map_def split: if_splits)
  have n: "unat (word_of_nat (length (used_channels m)) :: u8) = length (used_channels m)"
    using length_used_channels_le [of m] by (simp add: unat_of_nat take_bit_nat_eq_self)
  have "(word_of_nat (length (used_channels m)) :: u8) \<noteq> 0"
    using n valid_map_channels [OF assms(2) v] by force
  with n assms v show ?thesis
    by (auto simp: update_map_def selector_ok_def used_table_eq)
qed

lemma next_channel_ok:
  assumes "selector_ok s"
  shows "\<exists>c s'. next_channel s = Some (c, s') \<and> selector_ok s' \<and> cs_map s' = cs_map s \<and> cs_hop s' = cs_hop s
    \<and> unat (cs_last_unmapped s') = (unat (cs_last_unmapped s) + unat (cs_hop s)) mod 37
    \<and> unat (channel_index c) = remap (used_channels (cs_map s)) (unat (cs_last_unmapped s'))"
proof -
  let ?cs = "used_channels (cs_map s)"
  have s: "cs_used s = map word_of_nat ?cs @ replicate (37 - length ?cs) 0" "unat (cs_used_len s) = length ?cs"
    "unat (cs_hop s) \<le> 16" "unat (cs_last_unmapped s) < 37" "cs_used_len s \<noteq> 0"
    using assms by (auto simp: selector_ok_def used_table_eq)
  define u where "u = (cs_last_unmapped s + cs_hop s) mod 37"
  have u: "unat u = (unat (cs_last_unmapped s) + unat (cs_hop s)) mod 37"
    using s(3,4) by (simp add: u_def unat_mod unat_add_small)
  have u37: "unat u < 37" by (simp add: u)
  have pos: "0 < length ?cs" using s(2,5) by (metis neq0_conv unat_eq_zero)
  define i where "i = unat (u mod cs_used_len s)"
  have i: "i = unat u mod length ?cs" by (simp add: i_def unat_mod s(2))
  have il: "i < length ?cs" using pos by (simp add: i)
  have used: "cs_used s ! i = word_of_nat (?cs ! i)" "unat (word_of_nat (?cs ! i) :: u8) = ?cs ! i" "?cs ! i < 37"
    using il used_channels_lt [OF nth_mem [OF il]]
    by (simp_all add: s(1) nth_append unat_of_nat take_bit_nat_eq_self)
  have len: "i < length (cs_used s)" using il by (simp add: s(1))
  have ok: "selector_ok (s\<lparr>cs_last_unmapped := u\<rparr>)" using assms u37 by (simp add: selector_ok_def)
  show ?thesis
  proof (cases "channel_in_map (cs_map s) u")
    case True
    then have "next_channel s = Some (Channel u, s\<lparr>cs_last_unmapped := u\<rparr>)"
      using s(3,4) u37 by (simp add: next_channel_def Let_def channel_new_ok flip: u_def)
    with True ok u channel_in_map_bit [OF u37] show ?thesis by (simp add: remap_def)
  next
    case False
    then have "next_channel s = Some (Channel (cs_used s ! i), s\<lparr>cs_last_unmapped := u\<rparr>)"
      using s(3-5) len used by (simp add: next_channel_def Let_def channel_new_ok flip: u_def i_def)
    with False ok u used i channel_in_map_bit [OF u37] show ?thesis by (simp add: remap_def)
  qed
qed

interpretation csa1: hop_selector next_channel update_map selector_ok
  "\<lambda>s. used_channels (cs_map s)" "\<lambda>s. unat (cs_last_unmapped s)" "\<lambda>s. unat (cs_hop s)"
proof (unfold_locales, goal_cases)
  case (1 s)
  from next_channel_ok [OF 1] show ?case by (elim exE conjE) (intro exI conjI, assumption+, simp_all)
next
  case (2 s m s')
  then show ?case using selector_ok_update [of s m s'] by simp
qed

section \<open>Properties\<close>

text \<open>The indices of a channel sequence.\<close>

abbreviation indices :: "channel list \<Rightarrow> nat list" where
  "indices cs \<equiv> map (\<lambda>c. unat (channel_index c)) cs"

text \<open>Every hop increment has an inverse modulo 37.\<close>

definition hop_inverse :: "nat \<Rightarrow> nat" where
  "hop_inverse h = [15, 31, 16, 14, 33, 26, 27, 34, 20, 8, 5, 7] ! (h - 5)"

lemma hop_inverse_mod: "h \<in> {5..16} \<Longrightarrow> h * hop_inverse h mod 37 = 1"
proof -
  have "list_all (\<lambda>h. h * hop_inverse h mod 37 = 1) [5..<17]"
    by (simp add: upt_rec hop_inverse_def)
  then show "h \<in> {5..16} \<Longrightarrow> ?thesis" by (simp only: list_all_iff set_upt) auto
qed

lemma hop_invertible:
  assumes "h \<in> {5..16}" and "37 dvd d * h"
  shows "37 dvd (d :: nat)"
proof -
  have "d mod 37 = d * (h * hop_inverse h mod 37) mod 37" using hop_inverse_mod [OF assms(1)] by simp
  also have "\<dots> = d * h * hop_inverse h mod 37" by (simp only: mod_mult_right_eq mult.assoc)
  also have "\<dots> = 0" using assms(2) by (simp add: dvd_eq_mod_eq_0 [symmetric])
  finally show ?thesis by (simp add: dvd_eq_mod_eq_0)
qed

lemma hop_permutes:
  assumes "h \<in> {5..16}"
  shows "(\<lambda>k. (p + Suc k * h) mod 37) ` {..<37} = {..<37 :: nat}"
proof -
  have "inj_on (\<lambda>k. (p + Suc k * h) mod 37) {..<37}"
  proof (rule linorder_inj_onI)
    fix x y :: nat
    assume xy: "x < y" "x \<in> {..<37}" "y \<in> {..<37}"
    show "(p + Suc x * h) mod 37 \<noteq> (p + Suc y * h) mod 37"
    proof
      assume "(p + Suc x * h) mod 37 = (p + Suc y * h) mod 37"
      then have "37 dvd (p + Suc y * h) - (p + Suc x * h)"
        using mod_eq_dvd_iff_nat [of "p + Suc x * h" "p + Suc y * h" 37] xy by simp
      also have "(p + Suc y * h) - (p + Suc x * h) = (y - x) * h" by (simp add: diff_mult_distrib)
      finally have "37 dvd y - x" by (rule hop_invertible [OF assms])
      then show False using xy by (auto dest: dvd_imp_le)
    qed
  qed auto
  moreover have "(\<lambda>k. (p + Suc k * h) mod 37) ` {..<37} \<subseteq> {..<37}" by auto
  ultimately show ?thesis by (intro endo_inj_surj) auto
qed

lemma selector_run:
  assumes "selector_ok s"
  shows "\<exists>cs s'. hops next_channel n s = Some (cs, s') \<and> selector_ok s'
    \<and> used_channels (cs_map s') = used_channels (cs_map s) \<and> unat (cs_hop s') = unat (cs_hop s)
    \<and> unat (cs_last_unmapped s') = (unat (cs_last_unmapped s) + n * unat (cs_hop s)) mod 37
    \<and> indices cs = map (\<lambda>k. remap (used_channels (cs_map s))
        ((unat (cs_last_unmapped s) + Suc k * unat (cs_hop s)) mod 37)) [0..<n]"
  using csa1.hops_spec [OF assms, of n] assms by (simp only: selector_ok_def)

text \<open>
  C23. The selector implements Channel Selection Algorithm 1: for an accepted map and hop the
  \<open>k\<close>-th event (for every \<open>k\<close>, without a panic) uses the remapping of \<open>k * hop mod 37\<close>, and a
  map update at any event changes the map only: the later events use the remapping by the new
  map of the same unmapped sequence.
\<close>

theorem csa1_sequence:
  assumes "length m = 5" "channel_selection1_new m hop = Inr s"
    and "length m' = 5" "data_channel_map_is_valid m'"
  shows "\<exists>cs s1 s2 cs' s3. hops next_channel n s = Some (cs, s1) \<and> update_map s1 m' = Inr s2
    \<and> hops next_channel n' s2 = Some (cs', s3)
    \<and> indices cs = map (\<lambda>k. remap (used_channels m) (k * unat hop mod 37)) [1..<Suc n]
    \<and> indices cs' = map (\<lambda>k. remap (used_channels m') (k * unat hop mod 37)) [Suc n..<Suc (n + n')]"
proof -
  have s: "selector_ok s" "cs_map s = m" "cs_hop s = hop" "cs_last_unmapped s = 0"
    using selector_ok_new [OF assms(1,2)] by auto
  obtain cs s1 where r1: "hops next_channel n s = Some (cs, s1)" "selector_ok s1"
      "unat (cs_hop s1) = unat hop" "unat (cs_last_unmapped s1) = n * unat hop mod 37"
      "indices cs = map (\<lambda>k. remap (used_channels m) (Suc k * unat hop mod 37)) [0..<n]"
    using selector_run [OF s(1), of n] by (auto simp: s(2-4))
  obtain s2 where u: "update_map s1 m' = Inr s2"
    using assms(4) by (auto simp: update_map_def used_table_eq)
  have s2: "selector_ok s2" "cs_map s2 = m'" "cs_hop s2 = cs_hop s1" "cs_last_unmapped s2 = cs_last_unmapped s1"
    using selector_ok_update [OF r1(2) assms(3) u] by auto
  obtain cs' s3 where r2: "hops next_channel n' s2 = Some (cs', s3)"
      "indices cs' = map (\<lambda>k. remap (used_channels m') ((n * unat hop mod 37 + Suc k * unat hop) mod 37)) [0..<n']"
    using selector_run [OF s2(1), of n'] by (auto simp: s2(2-4) r1(3,4))
  have m1: "indices cs = map (\<lambda>k. remap (used_channels m) (k * unat hop mod 37)) [1..<Suc n]"
    unfolding r1(5) by (rule nth_equalityI) (auto simp del: upt_Suc)
  have m2: "indices cs' = map (\<lambda>k. remap (used_channels m') (k * unat hop mod 37)) [Suc n..<Suc (n + n')]"
    unfolding r2(2) mod_add_left_eq by (rule nth_equalityI) (auto simp: algebra_simps simp del: upt_Suc)
  show ?thesis using r1(1) u r2(1) m1 m2 by blast
qed

lemma full_map: "channel_selection1_new [0xff, 0xff, 0xff, 0xff, 0x1f] 7 = Inr
    \<lparr>cs_map = [0xff, 0xff, 0xff, 0xff, 0x1f], cs_used = map word_of_nat [0..<37], cs_used_len = 37,
     cs_hop = 7, cs_last_unmapped = 0\<rparr>"
proof -
  have "used_channels [0xff, 0xff, 0xff, 0xff, 0x1f] = [0..<37]"
    by (simp add: used_channels_def upt_rec)
  moreover have "data_channel_map_is_valid [0xff, 0xff, 0xff, 0xff, 0x1f]"
    by (simp add: data_channel_map_is_valid_def count_ones_def upt_rec)
  ultimately show ?thesis by (simp add: channel_selection1_new_def used_table_eq)
qed

theorem csa1_sequence_witness:
  "\<exists>s cs s1 s2 cs' s3. channel_selection1_new [0xff, 0xff, 0xff, 0xff, 0x1f] 7 = Inr s
    \<and> hops next_channel 3 s = Some (cs, s1) \<and> update_map s1 [0x03, 0, 0, 0, 0] = Inr s2
    \<and> hops next_channel 2 s2 = Some (cs', s3) \<and> indices cs = [7, 14, 21] \<and> indices cs' = [0, 1]"
proof -
  have v: "data_channel_map_is_valid [0x03, 0, 0, 0, 0]"
    by (simp add: data_channel_map_is_valid_def count_ones_def upt_rec)
  have u: "used_channels [0xff, 0xff, 0xff, 0xff, 0x1f] = [0..<37]" "used_channels [0x03, 0, 0, 0, 0] = [0, 1]"
    by (simp_all add: used_channels_def upt_rec)
  have "\<exists>cs s1 s2 cs' s3. hops next_channel 3 s = Some (cs, s1) \<and> update_map s1 [0x03, 0, 0, 0, 0] = Inr s2
    \<and> hops next_channel 2 s2 = Some (cs', s3) \<and> indices cs = [7, 14, 21] \<and> indices cs' = [0, 1]"
    if "channel_selection1_new [0xff, 0xff, 0xff, 0xff, 0x1f] 7 = Inr s" for s
    using csa1_sequence [OF _ that _ v, of 3 2] by (simp add: u remap_def upt_rec numeral_2_eq_2 [symmetric])
  from this [OF full_map] show ?thesis
    by (elim exE, intro exI conjI) (rule full_map, (elim conjE, assumption)+)
qed

text \<open>
  C30. In any 37 consecutive events of a connection the selector visits exactly the channels of
  its map: every used channel is reached, and no other channel is.
\<close>

theorem csa1_covers_map:
  assumes "selector_ok s"
  shows "\<exists>cs s'. hops next_channel 37 s = Some (cs, s') \<and> selector_ok s' \<and> length cs = 37
    \<and> set (indices cs) = set (used_channels (cs_map s))"
proof -
  let ?U = "used_channels (cs_map s)"
  let ?f = "\<lambda>k. (unat (cs_last_unmapped s) + Suc k * unat (cs_hop s)) mod 37"
  obtain cs s' where r: "hops next_channel 37 s = Some (cs, s')" "selector_ok s'"
      "indices cs = map (\<lambda>k. remap ?U (?f k)) [0..<37]"
    using selector_run [OF assms, of 37] by blast
  have "set (indices cs) = remap ?U ` ?f ` {..<37}"
    unfolding r(3) by (simp only: set_map set_upt image_image atLeast0LessThan)
  also have "\<dots> = remap ?U ` {..<37}"
    using hop_permutes [of "unat (cs_hop s)"] assms by (simp only: selector_ok_def)
  also have "\<dots> = set ?U"
  proof -
    have "?U \<noteq> []" using assms by (auto simp: selector_ok_def used_table_eq unat_eq_zero)
    then have "remap ?U c \<in> set ?U" for c by (simp add: remap_def)
    moreover have "c \<in> remap ?U ` {..<37}" if "c \<in> set ?U" for c
      using that used_channels_lt [OF that] by (intro image_eqI [of _ _ c]) (simp_all add: remap_def)
    ultimately show ?thesis by blast
  qed
  finally have "set (indices cs) = set ?U" .
  moreover have "length cs = 37" using arg_cong [OF r(3), of length] by simp
  ultimately show ?thesis using r(1,2) by blast
qed

theorem csa1_covers_map_witness:
  "\<exists>s cs s'. channel_selection1_new [0xff, 0xff, 0xff, 0xff, 0x1f] 7 = Inr s
    \<and> hops next_channel 37 s = Some (cs, s') \<and> set (indices cs) = set (used_channels (cs_map s))"
proof -
  have "selector_ok s" if "channel_selection1_new [0xff, 0xff, 0xff, 0xff, 0x1f] 7 = Inr s" for s
    using selector_ok_new [OF _ that] by simp
  then show ?thesis using full_map csa1_covers_map by blast
qed

end
