(* ===== verification/Data_Sequence.thy ===== *)
theory Data_Sequence
  imports Control_Pdu
begin

text \<open>
  The acknowledgement protocol of \<^verbatim>\<open>crates/ble-controller/src/link_layer.rs\<close>:
  \<open>DataSequenceState\<close> with \<open>observe\<close> and \<open>response_header\<close>, the two acknowledgement tests, the
  decision that closes a connection event, and the trace record with its seven-word
  encoding. Two endpoints that run this code over a lossy link are composed into a machine
  whose invariant is exactly-once delivery in order.
\<close>

section \<open>Header bits\<close>

definition DATA_HEADER_NESN :: u8 where "DATA_HEADER_NESN = push_bit 2 1"
definition DATA_HEADER_SN :: u8 where "DATA_HEADER_SN = push_bit 3 1"
definition DATA_HEADER_MD :: u8 where "DATA_HEADER_MD = push_bit 4 1"
definition DATA_HEADER_SEQUENCE_MASK :: u8 where
  "DATA_HEADER_SEQUENCE_MASK = DATA_HEADER_NESN OR DATA_HEADER_SN"

definition acknowledges_outstanding_transmit :: "u8 \<Rightarrow> u8 \<Rightarrow> bool \<Rightarrow> bool" where
  "acknowledges_outstanding_transmit peer_header transmit_sn outstanding_at_event_entry =
     (outstanding_at_event_entry \<and> drop_bit 2 peer_header AND 1 \<noteq> transmit_sn)"

definition acknowledges_transmit_owner :: "u8 \<Rightarrow> u8 \<Rightarrow> bool \<Rightarrow> bool \<Rightarrow> bool" where
  "acknowledges_transmit_owner peer_header transmit_sn outstanding_at_event_entry received_after_primary_transmit =
     ((outstanding_at_event_entry \<or> received_after_primary_transmit)
      \<and> drop_bit 2 peer_header AND 1 \<noteq> transmit_sn)"

section \<open>Sequence state\<close>

record data_sequence_state =
  transmit_sn :: u8
  expected_sn :: u8

record data_sequence_observation =
  acknowledged_transmit :: bool
  accepted_receive :: bool
  peer_more_data :: bool

definition data_sequence_new :: "u8 \<Rightarrow> u8 \<Rightarrow> data_sequence_state" where
  "data_sequence_new t e = \<lparr>transmit_sn = t AND 1, expected_sn = e AND 1\<rparr>"

definition observe :: "data_sequence_state \<Rightarrow> u8 \<Rightarrow> data_sequence_observation \<times> data_sequence_state" where
  "observe s peer_header =
     (let peer_nesn = drop_bit 2 peer_header AND 1;
          peer_sn = drop_bit 3 peer_header AND 1;
          acknowledged = (peer_nesn \<noteq> transmit_sn s);
          accepted = (peer_sn = expected_sn s);
          s1 = (if acknowledged then s\<lparr>transmit_sn := transmit_sn s XOR 1\<rparr> else s);
          s2 = (if accepted then s1\<lparr>expected_sn := expected_sn s1 XOR 1\<rparr> else s1)
      in (\<lparr>acknowledged_transmit = acknowledged, accepted_receive = accepted,
           peer_more_data = (peer_header AND DATA_HEADER_MD \<noteq> 0)\<rparr>, s2))"

definition response_header :: "data_sequence_state \<Rightarrow> u8 \<Rightarrow> bool \<Rightarrow> u8" where
  "response_header s staged_header more_data =
     (let header = (staged_header AND NOT (DATA_HEADER_SEQUENCE_MASK OR DATA_HEADER_MD))
            OR push_bit 2 (expected_sn s) OR push_bit 3 (transmit_sn s)
      in if more_data then header OR DATA_HEADER_MD else header)"

section \<open>Closing a connection event\<close>

definition connection_event_may_continue :: "bool \<Rightarrow> bool \<Rightarrow> bool" where
  "connection_event_may_continue local_md peer_md = (local_md \<or> peer_md)"

datatype close_reason = Continue | BothMdClear | Deadline | RadioTimeout | InvalidCrc | InvalidMic
  | ResourceLimit | ProtocolError

record decision_input =
  di_crc_ok :: bool
  di_mic_ok :: bool
  di_local_more_data :: bool
  di_peer_more_data :: bool
  di_before_deadline :: bool
  di_resources_available :: bool

definition response_advertises_more_data :: "bool \<Rightarrow> bool \<Rightarrow> bool \<Rightarrow> bool \<Rightarrow> bool \<Rightarrow> bool" where
  "response_advertises_more_data more_payloads_after_response require_final_ack response_has_owner
       response_is_retry resources_available =
     (resources_available
      \<and> (more_payloads_after_response \<or> (require_final_ack \<and> response_has_owner \<and> \<not> response_is_retry)))"

definition connection_event_decision :: "decision_input \<Rightarrow> close_reason" where
  "connection_event_decision i =
     (if \<not> di_crc_ok i then InvalidCrc
      else if \<not> di_mic_ok i then InvalidMic
      else if \<not> di_before_deadline i then Deadline
      else if \<not> connection_event_may_continue (di_local_more_data i) (di_peer_more_data i) then BothMdClear
      else if \<not> di_resources_available i then ResourceLimit
      else Continue)"

definition committed_response_header :: "u8 \<Rightarrow> u8 \<Rightarrow> bool \<Rightarrow> u8" where
  "committed_response_header staged_header response transmitted =
     (if transmitted then response else staged_header)"

section \<open>Trace records\<close>

text \<open>The discriminants of the \<open>repr(u8)\<close> enum.\<close>

fun close_reason_code :: "close_reason \<Rightarrow> u32" where
  "close_reason_code Continue = 0"
| "close_reason_code BothMdClear = 1"
| "close_reason_code Deadline = 2"
| "close_reason_code RadioTimeout = 3"
| "close_reason_code InvalidCrc = 4"
| "close_reason_code InvalidMic = 5"
| "close_reason_code ResourceLimit = 6"
| "close_reason_code ProtocolError = 7"

record trace_record =
  tr_event_counter :: u16
  tr_channel :: u8
  tr_leg_index :: u8
  tr_timestamp_us :: u64
  tr_lle_status :: u32
  tr_bb_status :: u32
  tr_peer_header :: u8
  tr_response_header :: u8
  tr_received_len :: u8
  tr_response_slot :: u8
  tr_crc_ok :: bool
  tr_acknowledged_transmit :: bool
  tr_accepted_receive :: bool
  tr_peer_more_data :: bool
  tr_response_transmitted :: bool
  tr_close_reason :: close_reason

definition trace_encode :: "trace_record \<Rightarrow> u32 list" where
  "trace_encode r =
     (let flags = of_bool (tr_crc_ok r)
            OR push_bit 1 (of_bool (tr_acknowledged_transmit r))
            OR push_bit 2 (of_bool (tr_accepted_receive r))
            OR push_bit 3 (of_bool (tr_peer_more_data r))
            OR push_bit 4 (of_bool (tr_response_transmitted r))
            OR push_bit 8 (close_reason_code (tr_close_reason r))
      in [ucast (tr_event_counter r) OR push_bit 16 (ucast (tr_channel r)) OR push_bit 24 (ucast (tr_leg_index r)),
          ucast (tr_timestamp_us r), ucast (drop_bit 32 (tr_timestamp_us r)),
          tr_lle_status r, tr_bb_status r,
          ucast (tr_peer_header r) OR push_bit 8 (ucast (tr_response_header r))
            OR push_bit 16 (ucast (tr_received_len r)) OR push_bit 24 (ucast (tr_response_slot r)),
          flags])"

text \<open>\<open>None\<close> is the failed \<open>assert!\<close>.\<close>

definition connection_event_trace_slot :: "u32 \<Rightarrow> nat \<Rightarrow> nat option" where
  "connection_event_trace_slot sequence capacity =
     (if capacity = 0 then None else Some (unat sequence mod capacity))"

section \<open>Link Layer resource objects\<close>

datatype ll_state = Standby | Advertising_State | Scanning | Initiating | Connected

record advertising_config =
  ac_interval_us :: u32
  ac_channels :: "channel option list"
  ac_connectable :: bool
  ac_scannable :: bool

definition advertising_config_default :: advertising_config where
  "advertising_config_default =
     \<lparr>ac_interval_us = 100000, ac_channels = [Some ADV_37, Some ADV_38, Some ADV_39],
      ac_connectable = True, ac_scannable = True\<rparr>"

record connection_parameters =
  par_interval_us :: u32
  par_peripheral_latency :: u16
  par_supervision_timeout_us :: u32

record connection_handle =
  ch_handle :: u16
  ch_generation :: u16
  ch_parameters :: connection_parameters

section \<open>Two endpoints over a lossy link\<close>

text \<open>
  An endpoint runs the sequence state of the code. It offers the PDUs of \<open>ep_out\<close> in order,
  retransmitting number \<open>ep_idx\<close> until it is acknowledged, and collects what it accepts.
\<close>

record 'm endpoint =
  ep_seq :: data_sequence_state
  ep_out :: "nat \<Rightarrow> 'm"
  ep_idx :: nat
  ep_recv :: "'m list"

definition endpoint_start :: "(nat \<Rightarrow> 'm) \<Rightarrow> 'm endpoint" where
  "endpoint_start out = \<lparr>ep_seq = data_sequence_new 0 0, ep_out = out, ep_idx = 0, ep_recv = []\<rparr>"

definition endpoint_transmit :: "'m endpoint \<Rightarrow> u8 \<Rightarrow> bool \<Rightarrow> u8 \<times> 'm" where
  "endpoint_transmit e staged md = (response_header (ep_seq e) staged md, ep_out e (ep_idx e))"

definition endpoint_receive :: "'m endpoint \<Rightarrow> u8 \<times> 'm \<Rightarrow> 'm endpoint" where
  "endpoint_receive e f =
     (let (obs, seq') = observe (ep_seq e) (fst f) in
      e\<lparr>ep_seq := seq',
        ep_idx := (if acknowledged_transmit obs then ep_idx e + 1 else ep_idx e),
        ep_recv := (if accepted_receive obs then ep_recv e @ [snd f] else ep_recv e)\<rparr>)"

text \<open>One packet on the air, in either direction, received or lost (no CRC match, no sync).\<close>

datatype link_event = CentralSends u8 bool bool | PeripheralSends u8 bool bool

fun link_step :: "'m endpoint \<times> 'm endpoint \<Rightarrow> link_event \<Rightarrow> 'm endpoint \<times> 'm endpoint" where
  "link_step (c, p) (CentralSends staged md received) =
     (c, if received then endpoint_receive p (endpoint_transmit c staged md) else p)"
| "link_step (c, p) (PeripheralSends staged md received) =
     (if received then endpoint_receive c (endpoint_transmit p staged md) else c, p)"

definition sn_of :: "nat \<Rightarrow> u8" where
  "sn_of n = of_bool (odd n)"

text \<open>What one direction of the link promises: the receiver holds exactly the first PDUs of the
  sender, all those acknowledged and at most one more.\<close>

definition direction_ok :: "'m endpoint \<Rightarrow> 'm endpoint \<Rightarrow> bool" where
  "direction_ok s r \<longleftrightarrow>
     (length (ep_recv r) = ep_idx s \<or> length (ep_recv r) = Suc (ep_idx s))
     \<and> ep_recv r = map (ep_out s) [0..<length (ep_recv r)]
     \<and> transmit_sn (ep_seq s) = sn_of (ep_idx s)
     \<and> expected_sn (ep_seq r) = sn_of (length (ep_recv r))"

definition link_ok :: "(nat \<Rightarrow> 'm) \<Rightarrow> (nat \<Rightarrow> 'm) \<Rightarrow> 'm endpoint \<times> 'm endpoint \<Rightarrow> bool" where
  "link_ok co po l \<longleftrightarrow> ep_out (fst l) = co \<and> ep_out (snd l) = po
     \<and> direction_ok (fst l) (snd l) \<and> direction_ok (snd l) (fst l)"

text \<open>The reader of a trace ring: the inverse of \<open>encode\<close>.\<close>

definition close_reason_of :: "u32 \<Rightarrow> close_reason" where
  "close_reason_of c = [Continue, BothMdClear, Deadline, RadioTimeout, InvalidCrc, InvalidMic, ResourceLimit,
     ProtocolError] ! unat (c AND 7)"

definition trace_decode :: "u32 list \<Rightarrow> trace_record option" where
  "trace_decode ws =
     (case ws of [w0, w1, w2, w3, w4, w5, w6] \<Rightarrow> Some
        \<lparr>tr_event_counter = ucast w0, tr_channel = ucast (drop_bit 16 w0), tr_leg_index = ucast (drop_bit 24 w0),
         tr_timestamp_us = ucast w1 OR push_bit 32 (ucast w2), tr_lle_status = w3, tr_bb_status = w4,
         tr_peer_header = ucast w5, tr_response_header = ucast (drop_bit 8 w5),
         tr_received_len = ucast (drop_bit 16 w5), tr_response_slot = ucast (drop_bit 24 w5),
         tr_crc_ok = bit w6 0, tr_acknowledged_transmit = bit w6 1, tr_accepted_receive = bit w6 2,
         tr_peer_more_data = bit w6 3, tr_response_transmitted = bit w6 4,
         tr_close_reason = close_reason_of (drop_bit 8 w6)\<rparr>
      | _ \<Rightarrow> None)"

section \<open>Lemmas\<close>

lemma one_bit_field: "drop_bit n (w :: u8) AND 1 = of_bool (bit w n)"
  by (simp add: and_one_eq bit_iff_odd_drop_bit mod_2_eq_odd)

lemma sn_of_Suc: "sn_of (Suc n) = sn_of n XOR 1"
  by (simp add: sn_of_def)

lemma sn_of_eq: "sn_of m = sn_of n \<longleftrightarrow> even m = even n"
  by (auto simp: sn_of_def)

lemma bit_flag: "x \<in> {0, 1} \<Longrightarrow> k < 8 \<Longrightarrow> bit (push_bit k (x :: u8)) n \<longleftrightarrow> n = k \<and> x = 1"
  by (auto simp only: bit_push_bit_iff bit_1_iff bit_0_eq bot_apply insert_iff empty_iff)
     (simp_all add: bit_1_iff)

lemma header_bits [simp]:
  "bit DATA_HEADER_NESN n \<longleftrightarrow> n = 2" "bit DATA_HEADER_SN n \<longleftrightarrow> n = 3" "bit DATA_HEADER_MD n \<longleftrightarrow> n = 4"
  unfolding DATA_HEADER_NESN_def DATA_HEADER_SN_def DATA_HEADER_MD_def by (simp_all only: bit_flag insertI1 insertI2 refl) auto

lemma response_header_bits:
  assumes "transmit_sn s \<in> {0, 1}" and "expected_sn s \<in> {0, 1}"
  shows "drop_bit 2 (response_header s h md) AND 1 = expected_sn s"
    and "drop_bit 3 (response_header s h md) AND 1 = transmit_sn s"
    and "response_header s h md AND DATA_HEADER_MD \<noteq> 0 \<longleftrightarrow> md"
    and "n \<notin> {2, 3, 4} \<Longrightarrow> bit (response_header s h md) n = bit h n"
proof -
  have b: "bit (response_header s h md) n =
      (if n = 2 then expected_sn s = 1 else if n = 3 then transmit_sn s = 1 else if n = 4 then md else bit h n)" for n
    using assms
    by (auto simp: response_header_def Let_def bit_and_iff bit_or_iff bit_not_iff bit_flag
          DATA_HEADER_SEQUENCE_MASK_def dest: bit_imp_le_length)
  show "drop_bit 2 (response_header s h md) AND 1 = expected_sn s"
    "drop_bit 3 (response_header s h md) AND 1 = transmit_sn s"
    using assms by (auto simp: one_bit_field b)
  show "response_header s h md AND DATA_HEADER_MD \<noteq> 0 \<longleftrightarrow> md"
    unfolding DATA_HEADER_MD_def push_bit_of_1 and_exp_eq_0_iff_not_bit not_not b by simp
  show "n \<notin> {2, 3, 4} \<Longrightarrow> bit (response_header s h md) n = bit h n" by (simp add: b)
qed

text \<open>
  A packet that arrives brings the receiver exactly up to date: it then holds the sender's
  PDUs up to the current one, and its own index is the number the sender has accepted.
\<close>

lemma endpoint_receive_eq:
  assumes sr: "direction_ok s r" and rs: "direction_ok r s"
  shows "endpoint_receive r (endpoint_transmit s staged md) =
    r\<lparr>ep_seq := \<lparr>transmit_sn = sn_of (length (ep_recv s)), expected_sn = sn_of (Suc (ep_idx s))\<rparr>,
      ep_idx := length (ep_recv s), ep_recv := map (ep_out s) [0..<Suc (ep_idx s)]\<rparr>"
proof -
  have bits: "transmit_sn (ep_seq s) \<in> {0, 1}" "expected_sn (ep_seq s) \<in> {0, 1}"
    using sr rs by (auto simp: direction_ok_def sn_of_def)
  have sn: "transmit_sn (ep_seq s) = sn_of (ep_idx s)" "expected_sn (ep_seq s) = sn_of (length (ep_recv s))"
    "transmit_sn (ep_seq r) = sn_of (ep_idx r)" "expected_sn (ep_seq r) = sn_of (length (ep_recv r))"
    using sr rs by (auto simp: direction_ok_def)
  have idx: "length (ep_recv s) = ep_idx r \<or> length (ep_recv s) = Suc (ep_idx r)"
    and rcv: "length (ep_recv r) = ep_idx s \<or> length (ep_recv r) = Suc (ep_idx s)"
    using sr rs by (auto simp: direction_ok_def)
  have ack: "sn_of (length (ep_recv s)) \<noteq> sn_of (ep_idx r) \<longleftrightarrow> length (ep_recv s) = Suc (ep_idx r)"
    using idx by (auto simp: sn_of_eq)
  have acc: "sn_of (ep_idx s) = sn_of (length (ep_recv r)) \<longleftrightarrow> length (ep_recv r) = ep_idx s"
    using rcv by (auto simp: sn_of_eq)
  have pre: "ep_recv r = map (ep_out s) [0..<length (ep_recv r)]" using sr by (simp add: direction_ok_def)
  show ?thesis
    unfolding endpoint_receive_def endpoint_transmit_def observe_def Let_def fst_conv
      response_header_bits [OF bits] sn ack acc
    using idx rcv pre by (elim disjE) (simp_all add: sn sn_of_Suc)
qed

lemma direction_ok_receive:
  assumes "direction_ok s r" and "direction_ok r s"
  shows "direction_ok s (endpoint_receive r (endpoint_transmit s staged md))
    \<and> direction_ok (endpoint_receive r (endpoint_transmit s staged md)) s"
  using assms unfolding endpoint_receive_eq [OF assms] by (auto simp: direction_ok_def)

lemma endpoint_receive_out [simp]: "ep_out (endpoint_receive r f) = ep_out r"
  by (simp add: endpoint_receive_def Let_def split: prod.splits)

lemma link_ok_step: "link_ok co po l \<Longrightarrow> link_ok co po (link_step l e)"
  by (cases l; cases e) (auto simp: link_ok_def direction_ok_receive)

interpretation link: step_machine link_step "link_ok co po" for co po
  by unfold_locales (rule link_ok_step)

lemma link_ok_start: "link_ok co po (endpoint_start co, endpoint_start po)"
  by (simp add: link_ok_def direction_ok_def endpoint_start_def data_sequence_new_def sn_of_def)

lemma link_exchange:
  assumes "link_ok co po (c, p)" and "link_step (link_step (c, p) (CentralSends h md True)) (PeripheralSends h' md' True) = (c', p')"
  shows "ep_idx c' = Suc (ep_idx c) \<and> ep_recv p' = map co [0..<Suc (ep_idx c)]
    \<and> ep_recv c' = map po [0..<Suc (length (ep_recv c))]"
proof -
  have d: "direction_ok c p" "direction_ok p c" and o: "ep_out c = co" "ep_out p = po"
    using assms(1) by (auto simp: link_ok_def)
  let ?p = "endpoint_receive p (endpoint_transmit c h md)"
  have p: "?p = p\<lparr>ep_seq := \<lparr>transmit_sn = sn_of (length (ep_recv c)), expected_sn = sn_of (Suc (ep_idx c))\<rparr>,
      ep_idx := length (ep_recv c), ep_recv := map co [0..<Suc (ep_idx c)]\<rparr>"
    using endpoint_receive_eq [OF d] o by simp
  have d': "direction_ok ?p c" "direction_ok c ?p" using direction_ok_receive [OF d] by auto
  have "c' = endpoint_receive c (endpoint_transmit ?p h' md')" "p' = ?p" using assms(2) by auto
  then show ?thesis
    unfolding endpoint_receive_eq [OF d'] using o by (simp add: p)
qed

text \<open>Fields packed side by side into a word are read back unchanged.\<close>

lemma pack_16_8_8:
  fixes a :: u16 and b c :: u8
  defines "w \<equiv> (ucast a OR push_bit 16 (ucast b) OR push_bit 24 (ucast c) :: u32)"
  shows "ucast w = a" "ucast (drop_bit 16 w) = b" "ucast (drop_bit 24 w) = c"
  unfolding w_def by (auto intro!: bit_eqI simp: bit_simps dest: bit_imp_le_length)

lemma pack_8_8_8_8:
  fixes a b c d :: u8
  defines "w \<equiv> (ucast a OR push_bit 8 (ucast b) OR push_bit 16 (ucast c) OR push_bit 24 (ucast d) :: u32)"
  shows "ucast w = a" "ucast (drop_bit 8 w) = b" "ucast (drop_bit 16 w) = c" "ucast (drop_bit 24 w) = d"
  unfolding w_def by (auto intro!: bit_eqI simp: bit_simps dest: bit_imp_le_length)

lemma pack_32_32:
  fixes t :: u64
  shows "ucast (ucast t :: u32) OR push_bit 32 (ucast (ucast (drop_bit 32 t) :: u32)) = t"
proof (rule bit_eqI)
  fix n :: nat
  show "bit (ucast (ucast t :: u32) OR push_bit 32 (ucast (ucast (drop_bit 32 t) :: u32)) :: u64) n = bit t n"
    by (cases "n < 32") (auto simp: bit_simps dest: bit_imp_le_length)
qed

lemma bit_flag32: "k < 32 \<Longrightarrow> bit (push_bit k (of_bool b :: u32)) n \<longleftrightarrow> n = k \<and> b"
  by (cases b) (auto simp only: bit_push_bit_iff of_bool_eq bit_1_iff bit_0_eq bot_apply, simp_all add: bit_1_iff)

lemma close_reason_code_lt: "bit (close_reason_code r) n \<Longrightarrow> n < 3"
proof -
  have "take_bit 3 (close_reason_code r) = close_reason_code r"
    by (cases r) (simp_all add: take_bit_eq_mask mask_eq_exp_minus_1)
  then show "bit (close_reason_code r) n \<Longrightarrow> n < 3" by (metis bit_take_bit_iff)
qed

lemma pack_flags:
  fixes a b c d e :: bool and r :: close_reason
  defines "w \<equiv> (of_bool a OR push_bit 1 (of_bool b) OR push_bit 2 (of_bool c) OR push_bit 3 (of_bool d)
     OR push_bit 4 (of_bool e) OR push_bit 8 (close_reason_code r) :: u32)"
  shows "bit w 0 = a" "bit w 1 = b" "bit w 2 = c" "bit w 3 = d" "bit w 4 = e" "close_reason_of (drop_bit 8 w) = r"
proof -
  have f: "bit w n \<longleftrightarrow> (n = 0 \<and> a) \<or> (n = 1 \<and> b) \<or> (n = 2 \<and> c) \<or> (n = 3 \<and> d) \<or> (n = 4 \<and> e)
      \<or> bit (push_bit 8 (close_reason_code r)) n" for n
    unfolding w_def by (simp only: bit_or_iff bit_flag32) (simp add: bit_1_iff)
  show "bit w 0 = a" "bit w 1 = b" "bit w 2 = c" "bit w 3 = d" "bit w 4 = e"
    by (simp_all only: f bit_push_bit_iff) simp_all
  have "drop_bit 8 w AND 7 = close_reason_code r"
  proof (rule bit_eqI)
    fix n
    have m: "(7 :: u32) = mask 3" by (simp add: mask_eq_exp_minus_1)
    show "bit (drop_bit 8 w AND 7) n = bit (close_reason_code r) n"
      unfolding m using close_reason_code_lt [of r n]
      by (auto simp: bit_and_iff bit_drop_bit_eq f bit_push_bit_iff bit_mask_iff)
  qed
  then show "close_reason_of (drop_bit 8 w) = r"
    by (cases r) (simp_all add: close_reason_of_def)
qed

lemma trace_decode_encode: "trace_decode (trace_encode r) = Some r"
  unfolding trace_decode_def trace_encode_def Let_def
  by (simp only: list.case pack_16_8_8 pack_8_8_8_8 pack_32_32 pack_flags) (cases r, simp)

interpretation trace_codec: codec trace_encode trace_decode "\<lambda>_. True"
  by unfold_locales (rule trace_decode_encode)

lemma trace_encode_inj: "inj trace_encode"
  using trace_codec.enc_inj by simp

section \<open>Properties\<close>

text \<open>
  C5. Exactly-once, in-order delivery: two endpoints that run \<open>observe\<close> and \<open>response_header\<close>
  over a link that may lose any packet in either direction, for any staged headers and
  More Data bits, always hold exact prefixes of each other's PDU sequences, containing all the
  acknowledged PDUs and at most one more; and a packet followed by its response, both
  received, acknowledges exactly one further PDU.
\<close>

theorem arq_exactly_once:
  fixes co po :: "nat \<Rightarrow> 'm"
  assumes "foldl link_step (endpoint_start co, endpoint_start po) es = (c, p)"
  shows "ep_recv p = map co [0..<length (ep_recv p)] \<and> ep_recv c = map po [0..<length (ep_recv c)]
    \<and> ep_idx c \<le> length (ep_recv p) \<and> length (ep_recv p) \<le> Suc (ep_idx c)
    \<and> ep_idx p \<le> length (ep_recv c) \<and> length (ep_recv c) \<le> Suc (ep_idx p)
    \<and> (\<forall>h md h' md'. ep_idx (fst (foldl link_step (c, p) [CentralSends h md True, PeripheralSends h' md' True]))
         = Suc (ep_idx c))"
proof -
  have ok: "link_ok co po (c, p)"
    using link.inv_run [OF link_ok_start, of co po es] assms by simp
  then have d: "direction_ok c p" "direction_ok p c" "ep_out c = co" "ep_out p = po"
    by (auto simp: link_ok_def)
  have prog: "ep_idx (fst (foldl link_step (c, p) [CentralSends h md True, PeripheralSends h' md' True])) = Suc (ep_idx c)"
    for h md h' md'
    using link_exchange [OF ok, of h md h' md'] by (metis foldl_Cons foldl_Nil prod.collapse)
  have a: "ep_recv p = map co [0..<length (ep_recv p)]" "ep_recv c = map po [0..<length (ep_recv c)]"
    using d by (metis direction_ok_def)+
  show ?thesis using a d(1,2) prog unfolding direction_ok_def by auto
qed

theorem arq_exactly_once_witness:
  "\<exists>c p. foldl link_step (endpoint_start (\<lambda>n. n), endpoint_start (\<lambda>n. n + (100 :: nat)))
      [CentralSends 2 False True, PeripheralSends 1 False False] = (c, p)
    \<and> ep_recv p = map (\<lambda>n. n) [0..<length (ep_recv p)] \<and> ep_recv p = [0]
    \<and> ep_idx (fst (foldl link_step (c, p) [CentralSends 2 True True, PeripheralSends 1 False True])) = 1"
proof -
  let ?l = "foldl link_step (endpoint_start (\<lambda>n. n), endpoint_start (\<lambda>n. n + (100 :: nat)))
      [CentralSends 2 False True, PeripheralSends 1 False False]"
  obtain c p where l: "?l = (c, p)" by (cases ?l)
  have ok: "direction_ok (endpoint_start (\<lambda>n. n :: nat)) (endpoint_start (\<lambda>n. n + (100 :: nat)))"
    "direction_ok (endpoint_start (\<lambda>n. n + (100 :: nat))) (endpoint_start (\<lambda>n. n :: nat))"
    by (simp_all add: direction_ok_def endpoint_start_def data_sequence_new_def sn_of_def)
  have c: "ep_idx c = 0" "ep_recv p = [0]"
    using l endpoint_receive_eq [OF ok, of 2 False] by (auto simp: endpoint_start_def)
  show ?thesis using arq_exactly_once [OF l] l c by auto
qed

text \<open>
  The seven-word trace encoding loses nothing: the reader recovers every field of the
  record, so distinct records have distinct encodings.
\<close>

theorem trace_roundtrip: "trace_decode (trace_encode r) = Some r \<and> length (trace_encode r) = 7 \<and> inj trace_encode"
  using trace_decode_encode trace_encode_inj by (simp add: trace_encode_def Let_def)

end
