(* ===== verification/Tx_Ownership.thy ===== *)
theory Tx_Ownership
  imports Data_Sequence "HOL-Library.Sublist"
begin

text \<open>
  The rolling transmit ownership of \<^verbatim>\<open>crates/ble-controller/src/link_layer.rs\<close>
  (\<open>ConnectionEventTxState\<close>): two DMA slots carry up to eight payloads; a slot stays owned
  until its payload is acknowledged and is refilled only after the following response has
  completed. Two-element arrays are functions of the slot. Payload numbers and counts are at
  most 8 (an invariant below), so they are \<open>nat\<close>; generations wrap and are words.
\<close>

datatype tx_slot = Slot0 | Slot1

record tx_token =
  tk_payload_id :: nat
  tk_owner_token :: u32
  tk_generation :: u8

definition MAX_CONNECTION_EVENT_TX_PAYLOADS :: nat where "MAX_CONNECTION_EVENT_TX_PAYLOADS = 8"

record tx_refill =
  rf_slot :: tx_slot
  rf_token :: tx_token

record tx_decision =
  response_slot :: tx_slot
  response_token :: "tx_token option"
  response_is_retry :: bool
  acknowledged_response :: bool
  acknowledged_token :: "tx_token option"
  refill_after_transmit :: "tx_refill option"
  more_payloads_after_response :: bool

datatype tx_error = TooManyPayloads | AckWithoutOutstandingResponse | ResponsePlanAlreadyPending
  | CompletionDoesNotMatchDecision

record tx_outstanding =
  os_slot :: tx_slot
  os_token :: "tx_token option"

record tx_state =
  slots :: "tx_slot \<Rightarrow> tx_token option"
  generations :: "tx_slot \<Rightarrow> u8"
  outstanding :: "tx_outstanding option"
  planned :: "tx_decision option"
  payload_count :: nat
  next_payload_id :: nat
  owner_tokens :: "u32 list"
  last_released_slot :: tx_slot

section \<open>Construction\<close>

definition from_owner_tokens :: "u32 list \<Rightarrow> nat \<Rightarrow> tx_state" where
  "from_owner_tokens tokens count =
     (let token = (\<lambda>i. Some \<lparr>tk_payload_id = i, tk_owner_token = tokens ! i, tk_generation = 0\<rparr>);
          sl = (if count = 0 then (\<lambda>_. None)
                else if count = 1 then (\<lambda>s. case s of Slot0 \<Rightarrow> token 0 | Slot1 \<Rightarrow> None)
                else (\<lambda>s. case s of Slot0 \<Rightarrow> token 0 | Slot1 \<Rightarrow> token 1))
      in \<lparr>slots = sl, generations = (\<lambda>_. 0), outstanding = None, planned = None, payload_count = count,
          next_payload_id = (if count > 1 then 2 else count), owner_tokens = tokens,
          last_released_slot = Slot0\<rparr>)"

definition tx_state_new :: "u8 \<Rightarrow> tx_state" where
  "tx_state_new count =
     (let bounded_count = min (unat count) MAX_CONNECTION_EVENT_TX_PAYLOADS;
          tokens = foldl (\<lambda>ts i. ts[i := word_of_nat i]) (replicate MAX_CONNECTION_EVENT_TX_PAYLOADS 0) [0..<bounded_count]
      in from_owner_tokens tokens bounded_count)"

definition new_with_owner_tokens :: "u32 list \<Rightarrow> tx_error + tx_state" where
  "new_with_owner_tokens tokens =
     (if length tokens > MAX_CONNECTION_EVENT_TX_PAYLOADS then Inl TooManyPayloads
      else Inr (from_owner_tokens (splice (replicate MAX_CONNECTION_EVENT_TX_PAYLOADS 0) 0 tokens) (length tokens)))"

definition with_empty_retry :: "u32 list \<Rightarrow> tx_error + tx_state" where
  "with_empty_retry tokens =
     (case new_with_owner_tokens tokens of Inl e \<Rightarrow> Inl e
      | Inr state \<Rightarrow> Inr (state\<lparr>
          slots := (\<lambda>s. case s of Slot0 \<Rightarrow> None | Slot1 \<Rightarrow> slots state Slot0),
          next_payload_id := of_bool (tokens \<noteq> []),
          outstanding := Some \<lparr>os_slot = Slot0, os_token = None\<rparr>\<rparr>))"

section \<open>Selection and completion\<close>

fun slot_index :: "tx_slot \<Rightarrow> nat" where
  "slot_index Slot0 = 0"
| "slot_index Slot1 = 1"

definition staged_slot :: "(tx_slot \<Rightarrow> tx_token option) \<Rightarrow> tx_slot option" where
  "staged_slot sl =
     (case (sl Slot0, sl Slot1) of
        (Some left, Some right) \<Rightarrow> if tk_payload_id right < tk_payload_id left then Some Slot1 else Some Slot0
      | (Some _, None) \<Rightarrow> Some Slot0
      | (None, Some _) \<Rightarrow> Some Slot1
      | (None, None) \<Rightarrow> None)"

text \<open>The test \<open>slots.iter().enumerate().any(|(i, t)| i != index && t.is_some())\<close>.\<close>

definition other_staged :: "(tx_slot \<Rightarrow> tx_token option) \<Rightarrow> tx_slot \<Rightarrow> bool" where
  "other_staged sl s = (\<exists>t\<in>{Slot0, Slot1}. slot_index t \<noteq> slot_index s \<and> sl t \<noteq> None)"

fun other_slot :: "tx_slot \<Rightarrow> tx_slot" where
  "other_slot Slot0 = Slot1"
| "other_slot Slot1 = Slot0"

text \<open>The part of \<open>preview_select\<close> after the acknowledgement has been accounted for.\<close>

definition fresh_decision ::
    "tx_state \<Rightarrow> bool \<Rightarrow> tx_token option \<Rightarrow> tx_slot option \<Rightarrow> (tx_slot \<Rightarrow> tx_token option) \<Rightarrow> tx_slot \<Rightarrow> tx_decision" where
  "fresh_decision s acked acked_token released0 sl last_released =
     (let rslot = (case staged_slot sl of Some t \<Rightarrow> t | None \<Rightarrow> last_released);
          rtoken = sl rslot;
          released = (case released0 of Some t \<Rightarrow> Some t
                      | None \<Rightarrow> (if sl (other_slot rslot) = None then Some (other_slot rslot) else None));
          refill = (case released of None \<Rightarrow> None
                    | Some t \<Rightarrow>
                       if next_payload_id s < payload_count s then
                         Some \<lparr>rf_slot = t, rf_token = \<lparr>tk_payload_id = next_payload_id s,
                                 tk_owner_token = owner_tokens s ! next_payload_id s,
                                 tk_generation = generations s t + 1\<rparr>\<rparr>
                       else None);
          more = (other_staged sl rslot \<or> refill \<noteq> None \<or> next_payload_id s < payload_count s)
      in \<lparr>response_slot = rslot, response_token = rtoken, response_is_retry = False,
          acknowledged_response = acked, acknowledged_token = acked_token,
          refill_after_transmit = refill, more_payloads_after_response = more\<rparr>)"

definition preview_select :: "tx_state \<Rightarrow> bool \<Rightarrow> tx_error + tx_decision" where
  "preview_select s acknowledged =
     (if planned s \<noteq> None then Inl ResponsePlanAlreadyPending
      else (case outstanding s of
        Some os \<Rightarrow>
          if \<not> acknowledged then
            Inr \<lparr>response_slot = os_slot os, response_token = os_token os, response_is_retry = True,
                 acknowledged_response = False, acknowledged_token = None, refill_after_transmit = None,
                 more_payloads_after_response =
                   (other_staged (slots s) (os_slot os) \<or> next_payload_id s < payload_count s)\<rparr>
          else Inr (fresh_decision s True (os_token os) (Some (os_slot os))
                      ((slots s)(os_slot os := None)) (os_slot os))
      | None \<Rightarrow>
          if acknowledged then Inl AckWithoutOutstandingResponse
          else Inr (fresh_decision s False None None (slots s) (last_released_slot s))))"

definition select :: "tx_state \<Rightarrow> bool \<Rightarrow> tx_error + (tx_decision \<times> tx_state)" where
  "select s acknowledged =
     (case preview_select s acknowledged of Inl e \<Rightarrow> Inl e
      | Inr d \<Rightarrow>
          if acknowledged_response d then
            (case outstanding s of None \<Rightarrow> Inl AckWithoutOutstandingResponse
             | Some os \<Rightarrow> Inr (d, s\<lparr>outstanding := None, slots := (slots s)(os_slot os := None),
                                   last_released_slot := os_slot os, planned := Some d\<rparr>))
          else Inr (d, s\<lparr>planned := Some d\<rparr>))"

definition complete_transmit :: "tx_state \<Rightarrow> tx_decision \<Rightarrow> tx_error + tx_state" where
  "complete_transmit s d =
     (if planned s \<noteq> Some d then Inl CompletionDoesNotMatchDecision
      else if (case outstanding s of None \<Rightarrow> False
               | Some os \<Rightarrow> os_slot os \<noteq> response_slot d \<or> os_token os \<noteq> response_token d)
      then Inl CompletionDoesNotMatchDecision
      else if (case refill_after_transmit d of None \<Rightarrow> False
               | Some r \<Rightarrow> slots s (rf_slot r) \<noteq> None
                   \<or> tk_payload_id (rf_token r) \<noteq> next_payload_id s
                   \<or> tk_generation (rf_token r) \<noteq> generations s (rf_slot r) + 1
                   \<or> \<not> (tk_payload_id (rf_token r) < length (owner_tokens s)
                        \<and> owner_tokens s ! tk_payload_id (rf_token r) = tk_owner_token (rf_token r)))
      then Inl CompletionDoesNotMatchDecision
      else (let s1 = s\<lparr>planned := None,
                      outstanding := Some \<lparr>os_slot = response_slot d, os_token = response_token d\<rparr>\<rparr>
            in case refill_after_transmit d of None \<Rightarrow> Inr s1
               | Some r \<Rightarrow> Inr (s1\<lparr>generations := (generations s1)(rf_slot r := tk_generation (rf_token r)),
                                   slots := (slots s1)(rf_slot r := Some (rf_token r)),
                                   next_payload_id := next_payload_id s1 + 1\<rparr>)))"

definition abort_transmit :: "tx_state \<Rightarrow> tx_decision \<Rightarrow> tx_error + tx_state" where
  "abort_transmit s d =
     (if planned s \<noteq> Some d then Inl CompletionDoesNotMatchDecision else Inr (s\<lparr>planned := None\<rparr>))"

section \<open>The connection event as a machine\<close>

text \<open>
  What a radio backend does with the state: observe a peer packet (its NESN advanced or not),
  report TX completion of the planned response, or abort it. \<open>acked\<close> and \<open>sent\<close> record the
  owners whose acknowledgement was reported and whose first transmission completed.
\<close>

datatype tx_event = Serve bool | TxDone | TxAbort

record tx_run =
  tr_state :: tx_state
  tr_acked :: "u32 list"
  tr_sent :: "u32 list"

definition owner_list :: "tx_token option \<Rightarrow> u32 list" where
  "owner_list t = (case t of None \<Rightarrow> [] | Some k \<Rightarrow> [tk_owner_token k])"

fun tx_step :: "tx_run \<Rightarrow> tx_event \<Rightarrow> tx_run" where
  "tx_step g (Serve ack) =
     (case select (tr_state g) ack of Inl _ \<Rightarrow> g
      | Inr (d, s) \<Rightarrow> g\<lparr>tr_state := s, tr_acked := tr_acked g @ owner_list (acknowledged_token d)\<rparr>)"
| "tx_step g TxDone =
     (case planned (tr_state g) of None \<Rightarrow> g
      | Some d \<Rightarrow> (case complete_transmit (tr_state g) d of Inl _ \<Rightarrow> g
          | Inr s \<Rightarrow> g\<lparr>tr_state := s,
                       tr_sent := tr_sent g @ (if response_is_retry d then [] else owner_list (response_token d))\<rparr>))"
| "tx_step g TxAbort =
     (case planned (tr_state g) of None \<Rightarrow> g
      | Some d \<Rightarrow> (case abort_transmit (tr_state g) d of Inl _ \<Rightarrow> g | Inr s \<Rightarrow> g\<lparr>tr_state := s\<rparr>))"

definition tx_start :: "tx_state \<Rightarrow> tx_run" where
  "tx_start s = \<lparr>tr_state = s, tr_acked = [], tr_sent = []\<rparr>"

section \<open>Invariant\<close>

definition live :: "tx_state \<Rightarrow> nat" where
  "live s = of_bool (slots s Slot0 \<noteq> None) + of_bool (slots s Slot1 \<noteq> None)"

text \<open>The owners not yet acknowledged: staged payloads (consecutive, oldest first), then the rest.\<close>

definition pending :: "tx_state \<Rightarrow> u32 list" where
  "pending s = drop (next_payload_id s - live s) (take (payload_count s) (owner_tokens s))"

definition token_ok :: "tx_state \<Rightarrow> tx_slot \<Rightarrow> bool" where
  "token_ok s sl = (case slots s sl of None \<Rightarrow> True
     | Some t \<Rightarrow> next_payload_id s - live s \<le> tk_payload_id t \<and> tk_payload_id t < next_payload_id s
         \<and> tk_owner_token t = owner_tokens s ! tk_payload_id t \<and> tk_generation t = generations s sl)"

definition slots_ok :: "tx_state \<Rightarrow> bool" where
  "slots_ok s \<longleftrightarrow> length (owner_tokens s) = 8 \<and> next_payload_id s \<le> payload_count s \<and> payload_count s \<le> 8
     \<and> live s \<le> next_payload_id s \<and> token_ok s Slot0 \<and> token_ok s Slot1
     \<and> (case (slots s Slot0, slots s Slot1) of
          (Some a, Some b) \<Rightarrow> tk_payload_id a \<noteq> tk_payload_id b | _ \<Rightarrow> True)"

definition air_ok :: "tx_state \<Rightarrow> bool" where
  "air_ok s \<longleftrightarrow> (case outstanding s of
       None \<Rightarrow> live s = 0 \<longrightarrow> next_payload_id s = payload_count s
     | Some os \<Rightarrow> os_token os = slots s (os_slot os)
         \<and> (slots s (other_slot (os_slot os)) = None \<longrightarrow> next_payload_id s = payload_count s)
         \<and> (case os_token os of None \<Rightarrow> True | Some t \<Rightarrow> tk_payload_id t = next_payload_id s - live s))"

definition clear_ack :: "tx_decision \<Rightarrow> tx_decision" where
  "clear_ack d = d\<lparr>acknowledged_response := False, acknowledged_token := None\<rparr>"

definition plan_ok :: "tx_state \<Rightarrow> bool" where
  "plan_ok s \<longleftrightarrow> (case planned s of None \<Rightarrow> True
     | Some d \<Rightarrow> preview_select (s\<lparr>planned := None\<rparr>) False = Inr (clear_ack d))"

definition tx_inv :: "tx_state \<Rightarrow> bool" where
  "tx_inv s \<longleftrightarrow> slots_ok s \<and> air_ok s \<and> plan_ok s"

section \<open>Lemmas\<close>

lemma other_staged_iff [simp]: "other_staged sl s \<longleftrightarrow> sl (other_slot s) \<noteq> None"
  by (cases s) (auto simp: other_staged_def)

lemma other_slot_neq [simp]: "other_slot s \<noteq> s" "s \<noteq> other_slot s"
  by (cases s; simp)+

lemma other_other [simp]: "other_slot (other_slot s) = s"
  by (cases s) simp_all

lemma slot_cases: "t = s \<or> t = other_slot s"
  by (cases s; cases t) simp_all

lemma planned_irrelevant [simp]:
  "slots_ok (s\<lparr>planned := x\<rparr>) = slots_ok s" "air_ok (s\<lparr>planned := x\<rparr>) = air_ok s"
  "pending (s\<lparr>planned := x\<rparr>) = pending s"
  by (simp_all add: slots_ok_def air_ok_def token_ok_def live_def pending_def cong: option.case_cong)

lemma fresh_decision_planned [simp]: "fresh_decision (s\<lparr>planned := x\<rparr>) a at r sl l = fresh_decision s a at r sl l"
  by (auto simp: fresh_decision_def Let_def split: option.splits)

text \<open>The invariant seen from one slot and its partner, whichever slot that is.\<close>

lemma live_split: "live s = of_bool (slots s r \<noteq> None) + of_bool (slots s (other_slot r) \<noteq> None)"
  by (cases r) (auto simp: live_def)

lemma slots_ok_split:
  "slots_ok s \<longleftrightarrow> length (owner_tokens s) = 8 \<and> next_payload_id s \<le> payload_count s \<and> payload_count s \<le> 8
     \<and> live s \<le> next_payload_id s \<and> token_ok s r \<and> token_ok s (other_slot r)
     \<and> (case (slots s r, slots s (other_slot r)) of
          (Some a, Some b) \<Rightarrow> tk_payload_id a \<noteq> tk_payload_id b | _ \<Rightarrow> True)"
  by (cases r) (auto simp: slots_ok_def split: option.splits)

lemma staged_slot_None: "staged_slot sl = None \<longleftrightarrow> sl r = None \<and> sl (other_slot r) = None"
  by (cases r) (auto simp: staged_slot_def split: option.splits)

lemma staged_slot_Some:
  "staged_slot sl = Some r \<Longrightarrow> \<exists>t. sl r = Some t \<and>
     (case sl (other_slot r) of None \<Rightarrow> True | Some u \<Rightarrow> tk_payload_id t \<le> tk_payload_id u)"
  by (cases r) (auto simp: staged_slot_def split: option.splits if_splits)

lemma staged_slot_single: "sl r = Some t \<Longrightarrow> sl (other_slot r) = None \<Longrightarrow> staged_slot sl = Some r"
  by (cases r) (auto simp: staged_slot_def)

text \<open>Releasing the acknowledged slot takes exactly its owner off the pending list.\<close>

definition release :: "tx_state \<Rightarrow> tx_outstanding \<Rightarrow> tx_state" where
  "release s os = s\<lparr>outstanding := None, slots := (slots s)(os_slot os := None), last_released_slot := os_slot os\<rparr>"

lemma pending_Cons:
  "k < payload_count s \<Longrightarrow> payload_count s \<le> length (owner_tokens s) \<Longrightarrow>
   drop k (take (payload_count s) (owner_tokens s)) =
     owner_tokens s ! k # drop (Suc k) (take (payload_count s) (owner_tokens s))"
  by (subst Cons_nth_drop_Suc [symmetric]) auto

lemma release_ok:
  assumes "slots_ok s" "air_ok s" "outstanding s = Some os"
  shows "slots_ok (release s os) \<and> air_ok (release s os) \<and> owner_list (os_token os) @ pending (release s os) = pending s"
proof (cases "slots s (os_slot os)")
  case None
  then have "slots (release s os) = slots s" by (simp add: release_def fun_upd_idem)
  moreover have "os_token os = None" using assms None by (simp add: air_ok_def)
  ultimately show ?thesis
    using assms None unfolding slots_ok_split [of _ "os_slot os"]
    by (auto simp: air_ok_def token_ok_def pending_def live_split [where r = "os_slot os"] release_def owner_list_def split: option.splits)
next
  case (Some t)
  let ?r = "os_slot os"
  have t: "os_token os = Some t" "tk_payload_id t = next_payload_id s - live s"
    "tk_owner_token t = owner_tokens s ! tk_payload_id t" "live s \<le> next_payload_id s"
    "next_payload_id s \<le> payload_count s" "payload_count s \<le> length (owner_tokens s)"
    using assms Some unfolding slots_ok_split [of _ ?r] by (auto simp: air_ok_def token_ok_def)
  have l: "live s = Suc (live (release s os))"
    using Some by (simp add: live_split [of _ ?r] release_def)
  have "pending s = tk_owner_token t # pending (release s os)"
    using t l pending_Cons [of "next_payload_id s - live s" s]
    by (simp add: pending_def release_def Suc_diff_Suc)
  moreover have "slots_ok (release s os) \<and> air_ok (release s os)"
    using assms Some t unfolding slots_ok_split [of _ ?r]
    by (auto simp: air_ok_def token_ok_def live_split [where r = ?r] release_def split: option.splits)
  ultimately show ?thesis by (simp add: t owner_list_def)
qed

text \<open>The fresh selection takes the oldest staged payload, and refills the free slot if it can.\<close>

lemma fresh_decision_staged:
  assumes "slots_ok s" "slots s r = Some t" "tk_payload_id t = next_payload_id s - live s"
  shows "staged_slot (slots s) = Some r"
proof -
  have "r' = r" if "staged_slot (slots s) = Some r'" for r'
    using staged_slot_Some [OF that] assms slot_cases [of r' r] unfolding slots_ok_split [of _ r]
    by (auto simp: token_ok_def split: option.splits)
  moreover have "staged_slot (slots s) \<noteq> None" using assms(2) by (simp add: staged_slot_None [of _ r])
  ultimately show ?thesis by auto
qed

lemma staged_oldest:
  assumes "slots_ok s" "staged_slot (slots s) = Some r"
  shows "\<exists>t. slots s r = Some t \<and> tk_payload_id t = next_payload_id s - live s"
proof -
  obtain t where t: "slots s r = Some t"
    "case slots s (other_slot r) of None \<Rightarrow> True | Some u \<Rightarrow> tk_payload_id t \<le> tk_payload_id u"
    using staged_slot_Some [OF assms(2)] by blast
  have "tk_payload_id t = next_payload_id s - live s"
    using assms(1) t unfolding slots_ok_split [of _ r]
    by (auto simp: token_ok_def live_split [of _ r] split: option.splits)
  with t(1) show ?thesis by blast
qed

definition commit :: "tx_state \<Rightarrow> tx_decision \<Rightarrow> tx_state" where
  "commit s d =
     (let s1 = s\<lparr>planned := None, outstanding := Some \<lparr>os_slot = response_slot d, os_token = response_token d\<rparr>\<rparr>
      in case refill_after_transmit d of None \<Rightarrow> s1
         | Some r \<Rightarrow> s1\<lparr>generations := (generations s1)(rf_slot r := tk_generation (rf_token r)),
                        slots := (slots s1)(rf_slot r := Some (rf_token r)),
                        next_payload_id := next_payload_id s1 + 1\<rparr>)"

lemma commit_fresh:
  assumes "slots_ok s" "air_ok s" "outstanding s = None"
    and "d = fresh_decision s a at None (slots s) (last_released_slot s)"
  shows "complete_transmit (s\<lparr>planned := Some d\<rparr>) d = Inr (commit s d)
    \<and> slots_ok (commit s d) \<and> air_ok (commit s d) \<and> pending (commit s d) = pending s
    \<and> owner_list (response_token d) = take 1 (pending s)
    \<and> (more_payloads_after_response d \<longleftrightarrow> 1 < length (pending s))"
proof (cases "staged_slot (slots s)")
  case None
  let ?l = "last_released_slot s"
  have n: "slots s ?l = None" "slots s (other_slot ?l) = None" using None by (auto simp: staged_slot_None [of _ ?l])
  then have c: "next_payload_id s = payload_count s" "live s = 0"
    using assms(2,3) by (auto simp: air_ok_def live_split [of _ ?l])
  have d: "response_slot d = ?l" "response_token d = None" "refill_after_transmit d = None"
    "more_payloads_after_response d = False"
    using n c None by (simp_all add: assms(4) fresh_decision_def Let_def)
  show ?thesis
    using assms(1-3) n c unfolding slots_ok_split [of _ ?l]
    by (auto simp: complete_transmit_def commit_def Let_def d air_ok_def token_ok_def pending_def owner_list_def
        live_split [of _ ?l])
next
  case (Some r)
  obtain t where t: "slots s r = Some t" "tk_payload_id t = next_payload_id s - live s"
    using staged_oldest [OF assms(1) Some] by blast
  have ok: "length (owner_tokens s) = 8" "next_payload_id s \<le> payload_count s" "payload_count s \<le> 8"
    "live s \<le> next_payload_id s" "tk_owner_token t = owner_tokens s ! (next_payload_id s - live s)"
    using assms(1) t unfolding slots_ok_split [of _ r] by (auto simp: token_ok_def)
  have live: "live s = Suc (of_bool (slots s (other_slot r) \<noteq> None))" using t(1) by (simp add: live_split [of _ r])
  have p: "pending s = tk_owner_token t # drop (Suc (next_payload_id s - live s)) (take (payload_count s) (owner_tokens s))"
    using ok live by (simp add: pending_def pending_Cons)
  have d: "response_slot d = r" "response_token d = Some t"
    "more_payloads_after_response d \<longleftrightarrow> slots s (other_slot r) \<noteq> None \<or> next_payload_id s < payload_count s"
    "refill_after_transmit d =
       (if slots s (other_slot r) = None \<and> next_payload_id s < payload_count s then
          Some \<lparr>rf_slot = other_slot r, rf_token = \<lparr>tk_payload_id = next_payload_id s,
            tk_owner_token = owner_tokens s ! next_payload_id s, tk_generation = generations s (other_slot r) + 1\<rparr>\<rparr>
        else None)"
    using Some t by (auto simp: assms(4) fresh_decision_def Let_def)
  have more: "more_payloads_after_response d \<longleftrightarrow> 1 < length (pending s)"
    using ok live unfolding d(3) p by (cases "slots s (other_slot r)") auto
  have commit: "complete_transmit (s\<lparr>planned := Some d\<rparr>) d = Inr (commit s d)"
    using assms(3) ok by (simp add: complete_transmit_def commit_def Let_def d)
  have "slots_ok (commit s d) \<and> air_ok (commit s d) \<and> pending (commit s d) = pending s"
    using assms(1,3) t ok unfolding slots_ok_split [of _ r]
    by (auto simp: commit_def Let_def d air_ok_def token_ok_def pending_def live_split [of _ r] split: option.splits)
  with more commit p show ?thesis by (simp add: d owner_list_def)
qed

text \<open>Selection and completion under the invariant.\<close>

lemma select_ack:
  assumes "tx_inv s" "planned s = None" "outstanding s = Some os"
  shows "\<exists>d s'. select s True = Inr (d, s') \<and> tx_inv s' \<and> planned s' = Some d \<and> outstanding s' = None
    \<and> acknowledged_token d = os_token os \<and> owner_list (os_token os) @ pending s' = pending s"
proof -
  let ?s = "release s os"
  let ?d = "fresh_decision s True (os_token os) (Some (os_slot os)) (slots ?s) (os_slot os)"
  have r: "slots_ok ?s" "air_ok ?s" "owner_list (os_token os) @ pending ?s = pending s"
    using release_ok assms unfolding tx_inv_def by blast+
  have sel: "select s True = Inr (?d, ?s\<lparr>planned := Some ?d\<rparr>)"
    using assms(2,3) by (simp add: select_def preview_select_def release_def fresh_decision_def Let_def)
  have free: "slots ?s (os_slot os) = None" by (simp add: release_def)
  have eq: "clear_ack ?d = fresh_decision ?s False None None (slots ?s) (os_slot os)"
  proof (cases "slots ?s (other_slot (os_slot os))")
    case None
    then have "staged_slot (slots ?s) = None" using free by (simp add: staged_slot_None [of _ "os_slot os"])
    moreover have "next_payload_id s = payload_count s"
      using None r(2) free by (simp add: air_ok_def live_split [of _ "os_slot os"] release_def)
    ultimately show ?thesis
      using None by (auto simp: fresh_decision_def Let_def clear_ack_def release_def)
  next
    case (Some t)
    then have "staged_slot (slots ?s) = Some (other_slot (os_slot os))"
      using free by (intro staged_slot_single) auto
    then show ?thesis
      using Some free by (simp add: fresh_decision_def Let_def clear_ack_def) (simp add: release_def)
  qed
  have "plan_ok (?s\<lparr>planned := Some ?d\<rparr>)"
    unfolding plan_ok_def by (simp add: preview_select_def eq) (simp add: release_def fresh_decision_def Let_def)
  then have "tx_inv (?s\<lparr>planned := Some ?d\<rparr>)" using r by (simp add: tx_inv_def)
  moreover have "acknowledged_token ?d = os_token os" by (simp add: fresh_decision_def Let_def)
  moreover have "outstanding (?s\<lparr>planned := Some ?d\<rparr>) = None" by (simp add: release_def)
  moreover have "planned (?s\<lparr>planned := Some ?d\<rparr>) = Some ?d" by simp
  moreover have "owner_list (os_token os) @ pending (?s\<lparr>planned := Some ?d\<rparr>) = pending s" using r(3) by simp
  ultimately show ?thesis using sel by blast
qed

lemma select_no_ack:
  assumes "tx_inv s" "planned s = None"
  shows "\<exists>d s'. select s False = Inr (d, s') \<and> tx_inv s' \<and> planned s' = Some d \<and> outstanding s' = outstanding s
    \<and> acknowledged_token d = None \<and> pending s' = pending s"
proof -
  obtain d where d: "preview_select s False = Inr d" "acknowledged_response d = False" "acknowledged_token d = None"
    using assms(2) by (cases "outstanding s") (auto simp: preview_select_def fresh_decision_def Let_def)
  have "s\<lparr>planned := None\<rparr> = s" using assms(2) by simp
  then have "plan_ok (s\<lparr>planned := Some d\<rparr>)"
    using d by (simp add: plan_ok_def clear_ack_def)
  then have "tx_inv (s\<lparr>planned := Some d\<rparr>)" using assms(1) by (simp add: tx_inv_def)
  moreover have "select s False = Inr (d, s\<lparr>planned := Some d\<rparr>)" using d by (simp add: select_def)
  ultimately show ?thesis using d(3) by fastforce
qed

lemma complete_ok:
  assumes "tx_inv s" "planned s = Some d"
  shows "\<exists>s'. complete_transmit s d = Inr s' \<and> tx_inv s' \<and> planned s' = None \<and> pending s' = pending s
    \<and> outstanding s' = Some \<lparr>os_slot = response_slot d, os_token = response_token d\<rparr>
    \<and> owner_list (response_token d) = (case outstanding s of None \<Rightarrow> take 1 (pending s) | Some os \<Rightarrow> owner_list (os_token os))
    \<and> (response_is_retry d \<longleftrightarrow> outstanding s \<noteq> None)
    \<and> (more_payloads_after_response d \<longleftrightarrow> length (owner_list (response_token d)) < length (pending s))"
proof (cases "outstanding s")
  case None
  let ?s = "s\<lparr>planned := None\<rparr>"
  have inv: "slots_ok ?s" "air_ok ?s" and pl: "preview_select ?s False = Inr (clear_ack d)"
    using assms by (auto simp: tx_inv_def plan_ok_def)
  have "clear_ack d = fresh_decision ?s False None None (slots ?s) (last_released_slot ?s)"
    using pl None by (simp add: preview_select_def)
  then have d: "d = fresh_decision ?s (acknowledged_response d) (acknowledged_token d) None (slots ?s) (last_released_slot ?s)"
    by (cases d) (simp add: clear_ack_def fresh_decision_def Let_def)
  have s: "?s\<lparr>planned := Some d\<rparr> = s" using assms(2) by simp
  have c: "complete_transmit s d = Inr (commit ?s d)" "slots_ok (commit ?s d)" "air_ok (commit ?s d)"
    "pending (commit ?s d) = pending s" "owner_list (response_token d) = take 1 (pending s)"
    "more_payloads_after_response d \<longleftrightarrow> 1 < length (pending s)"
    using commit_fresh [OF inv _ d] None s by auto
  have p: "planned (commit ?s d) = None" "outstanding (commit ?s d) = Some \<lparr>os_slot = response_slot d, os_token = response_token d\<rparr>"
    by (auto simp: commit_def Let_def split: option.splits)
  have "\<not> response_is_retry d" by (subst d) (simp add: fresh_decision_def Let_def)
  with c p None show ?thesis by (auto simp: tx_inv_def plan_ok_def)
next
  case (Some os)
  have d: "response_slot d = os_slot os" "response_token d = os_token os" "refill_after_transmit d = None" "response_is_retry d"
    "more_payloads_after_response d \<longleftrightarrow> slots s (other_slot (os_slot os)) \<noteq> None \<or> next_payload_id s < payload_count s"
    using assms Some by (cases d; auto simp: tx_inv_def plan_ok_def preview_select_def clear_ack_def)+
  have "complete_transmit s d = Inr (s\<lparr>planned := None\<rparr>)"
    using assms(2) Some d by (simp add: complete_transmit_def Let_def)
  moreover have "tx_inv (s\<lparr>planned := None\<rparr>)" using assms(1) by (simp add: tx_inv_def plan_ok_def)
  moreover have "more_payloads_after_response d \<longleftrightarrow> length (owner_list (response_token d)) < length (pending s)"
    using assms(1) Some unfolding d(2,5) tx_inv_def slots_ok_split [of _ "os_slot os"]
    by (cases "slots s (os_slot os)"; cases "slots s (other_slot (os_slot os))")
       (auto simp: pending_def owner_list_def air_ok_def live_split [of _ "os_slot os"])
  ultimately show ?thesis using Some d by simp
qed

section \<open>Runs\<close>

definition on_air :: "tx_state \<Rightarrow> u32 list" where
  "on_air s = (case outstanding s of None \<Rightarrow> [] | Some os \<Rightarrow> owner_list (os_token os))"

definition run_inv :: "u32 list \<Rightarrow> tx_run \<Rightarrow> bool" where
  "run_inv owners g \<longleftrightarrow> tx_inv (tr_state g) \<and> tr_acked g @ pending (tr_state g) = owners
     \<and> tr_sent g = tr_acked g @ on_air (tr_state g)"

lemma on_air_prefix: "tx_inv s \<Longrightarrow> prefix (on_air s) (pending s)"
  using release_ok [of s] by (cases "outstanding s") (auto simp: on_air_def tx_inv_def intro: prefixI [OF sym])

lemma select_cases:
  assumes "tx_inv s"
  shows "(\<exists>e. select s ack = Inl e) \<or>
    (\<exists>d s'. select s ack = Inr (d, s') \<and> tx_inv s' \<and> owner_list (acknowledged_token d) @ pending s' = pending s
       \<and> owner_list (acknowledged_token d) @ on_air s' = on_air s)"
proof (cases "planned s = None \<and> (ack \<longrightarrow> outstanding s \<noteq> None)")
  case True
  show ?thesis
  proof (cases ack)
    case True': True
    then obtain os where os: "outstanding s = Some os" using True by blast
    show ?thesis using select_ack [OF assms _ os] True True' os by (force simp: on_air_def)
  next
    case False
    show ?thesis using select_no_ack [OF assms] True False by (force simp: on_air_def owner_list_def)
  qed
next
  case False
  then show ?thesis by (auto simp: select_def preview_select_def)
qed

lemma run_inv_step: "run_inv owners g \<Longrightarrow> run_inv owners (tx_step g e)"
proof (cases e)
  case (Serve ack)
  assume g: "run_inv owners g"
  then show ?thesis
    using select_cases [of "tr_state g" ack] Serve by (auto simp: run_inv_def)
next
  case TxDone
  assume g: "run_inv owners g"
  show ?thesis
  proof (cases "planned (tr_state g)")
    case (Some d)
    then show ?thesis
      using g complete_ok [of "tr_state g" d] on_air_prefix [of "tr_state g"] TxDone
      by (auto simp: run_inv_def on_air_def split: option.splits)
  qed (use g TxDone in simp)
next
  case TxAbort
  assume "run_inv owners g"
  then show ?thesis
    using TxAbort
    by (cases "planned (tr_state g)") (auto simp: run_inv_def abort_transmit_def tx_inv_def plan_ok_def on_air_def)
qed

interpretation event_run: step_machine tx_step "run_inv owners" for owners
  by unfold_locales (rule run_inv_step)

text \<open>Both ways an event starts establish the invariant with every owner pending.\<close>

lemma copied_tokens:
  assumes "length owners \<le> 8"
  shows "length (splice (replicate 8 0) 0 owners) = 8" "take (length owners) (splice (replicate 8 0) 0 owners) = owners"
  using assms by (simp_all add: splice_def)

lemma from_owner_tokens_ok:
  assumes "length tokens = 8" "count \<le> 8"
  shows "tx_inv (from_owner_tokens tokens count) \<and> pending (from_owner_tokens tokens count) = take count tokens"
proof -
  consider "count = 0" | "count = 1" | "2 \<le> count" by linarith
  then show ?thesis
    using assms
    by cases (auto simp: tx_inv_def slots_ok_def air_ok_def plan_ok_def token_ok_def live_def pending_def
        from_owner_tokens_def Let_def)
qed

lemma start_fresh:
  assumes "new_with_owner_tokens owners = Inr s"
  shows "run_inv owners (tx_start s) \<and> planned s = None \<and> outstanding s = None"
proof -
  have l: "length owners \<le> 8" and s: "s = from_owner_tokens (splice (replicate 8 0) 0 owners) (length owners)"
    using assms by (auto simp: new_with_owner_tokens_def MAX_CONNECTION_EVENT_TX_PAYLOADS_def split: if_splits)
  have "planned s = None \<and> outstanding s = None" by (simp add: s from_owner_tokens_def Let_def)
  with from_owner_tokens_ok [OF copied_tokens(1) [OF l] l] copied_tokens(2) [OF l] show ?thesis
    by (simp add: run_inv_def tx_start_def on_air_def s)
qed

lemma start_empty_retry:
  assumes "with_empty_retry owners = Inr s"
  shows "run_inv owners (tx_start s) \<and> planned s = None \<and> outstanding s = Some \<lparr>os_slot = Slot0, os_token = None\<rparr>"
proof -
  have l: "length owners \<le> 8"
    using assms by (auto simp: with_empty_retry_def new_with_owner_tokens_def MAX_CONNECTION_EVENT_TX_PAYLOADS_def split: if_splits)
  define ts where "ts = splice (replicate 8 (0 :: u32)) 0 owners"
  have ts: "length ts = 8" "take (length owners) ts = owners" using copied_tokens [OF l] by (auto simp: ts_def)
  have s: "s = (from_owner_tokens ts (length owners))\<lparr>
          slots := (\<lambda>s. case s of Slot0 \<Rightarrow> None | Slot1 \<Rightarrow> slots (from_owner_tokens ts (length owners)) Slot0),
          next_payload_id := of_bool (owners \<noteq> []),
          outstanding := Some \<lparr>os_slot = Slot0, os_token = None\<rparr>\<rparr>"
    using assms l by (simp add: with_empty_retry_def new_with_owner_tokens_def MAX_CONNECTION_EVENT_TX_PAYLOADS_def ts_def)
  have "tx_inv s \<and> pending s = owners"
    using ts l by (cases owners)
      (auto simp: s from_owner_tokens_def Let_def tx_inv_def slots_ok_def air_ok_def plan_ok_def token_ok_def live_def pending_def)
  then show ?thesis
    by (simp add: run_inv_def tx_start_def) (simp add: s on_air_def owner_list_def from_owner_tokens_def Let_def)
qed

text \<open>One served packet that acknowledges, with its completed response.\<close>

definition ready :: "tx_run \<Rightarrow> bool" where
  "ready g \<longleftrightarrow> planned (tr_state g) = None \<and> outstanding (tr_state g) \<noteq> None
     \<and> on_air (tr_state g) = take 1 (pending (tr_state g))"

lemma done_ready:
  assumes "run_inv owners g" "planned (tr_state g) = Some d" "outstanding (tr_state g) = None"
  shows "ready (tx_step g TxDone) \<and> tr_acked (tx_step g TxDone) = tr_acked g"
  using complete_ok [of "tr_state g" d] assms by (auto simp: run_inv_def ready_def on_air_def)

lemma serve_ready:
  assumes "run_inv owners g" "ready g"
  shows "\<exists>d. planned (tr_state (tx_step g (Serve True))) = Some d \<and> outstanding (tr_state (tx_step g (Serve True))) = None
    \<and> tr_acked (tx_step g (Serve True)) = tr_acked g @ take 1 (pending (tr_state g))"
proof -
  obtain os where os: "outstanding (tr_state g) = Some os" using assms(2) by (auto simp: ready_def)
  with assms(2) have "owner_list (os_token os) = take 1 (pending (tr_state g))" by (simp add: ready_def on_air_def)
  then show ?thesis
    using select_ack [of "tr_state g" os] assms os by (auto simp: run_inv_def ready_def)
qed

lemma ready_rounds:
  assumes "run_inv owners g" "ready g" "tr_acked g = take k owners"
  shows "tr_acked (foldl tx_step g (concat (replicate n [Serve True, TxDone]))) = take (k + n) owners"
  using assms
proof (induction n arbitrary: g k)
  case (Suc n)
  let ?g = "tx_step (tx_step g (Serve True)) TxDone"
  obtain d where d: "planned (tr_state (tx_step g (Serve True))) = Some d"
    "outstanding (tr_state (tx_step g (Serve True))) = None"
    "tr_acked (tx_step g (Serve True)) = tr_acked g @ take 1 (pending (tr_state g))"
    using serve_ready [OF Suc.prems(1,2)] by blast
  have i: "run_inv owners ?g" using Suc.prems(1) by (intro run_inv_step)
  have r: "ready ?g" "tr_acked ?g = tr_acked g @ take 1 (pending (tr_state g))"
    using done_ready [OF run_inv_step [OF Suc.prems(1)] d(1,2)] d(3) by auto
  have "take k owners @ pending (tr_state g) = owners" using Suc.prems(1,3) by (simp add: run_inv_def)
  then have "pending (tr_state g) = drop k owners" by (metis append_take_drop_id same_append_eq)
  then have "tr_acked ?g = take (Suc k) owners" using r(2) Suc.prems(3) by (simp add: take_add [symmetric])
  from Suc.IH [OF i r(1) this] show ?case by simp
qed simp

section \<open>Properties\<close>

text \<open>
  C7. Over any sequence of served packets, completions and aborts, whichever peer headers
  arrive, the acknowledged owners are the first owners in order, each once; the owners whose
  first transmission completed are the acknowledged ones and at most the next; and a retry
  never counts as a first transmission. This holds for a fresh event and for one that resumes
  an outstanding empty PDU.
\<close>

theorem tx_owner_fifo:
  assumes "new_with_owner_tokens owners = Inr s \<or> with_empty_retry owners = Inr s"
  shows "let g = foldl tx_step (tx_start s) es in
    prefix (tr_acked g) owners \<and> prefix (tr_sent g) owners \<and> prefix (tr_acked g) (tr_sent g)
    \<and> length (tr_sent g) \<le> Suc (length (tr_acked g))"
proof -
  define g where "g = foldl tx_step (tx_start s) es"
  have "run_inv owners (tx_start s)" using assms start_fresh start_empty_retry by blast
  then have inv: "run_inv owners g" unfolding g_def by (rule event_run.inv_run)
  have "prefix (on_air (tr_state g)) (pending (tr_state g))" using inv on_air_prefix by (simp add: run_inv_def)
  moreover have "length (on_air (tr_state g)) \<le> 1" by (simp add: on_air_def owner_list_def split: option.splits)
  ultimately show ?thesis
    using inv unfolding g_def [symmetric] Let_def by (auto simp: run_inv_def prefix_def)
qed

theorem tx_owner_fifo_witness:
  "\<exists>s. new_with_owner_tokens [11, 22, 33] = Inr s \<and>
    (let g = foldl tx_step (tx_start s) [Serve False, TxDone, Serve False, TxDone, Serve True, TxAbort] in
      prefix (tr_acked g) [11, 22, 33] \<and> prefix (tr_sent g) [11, 22, 33] \<and> prefix (tr_acked g) (tr_sent g)
      \<and> length (tr_sent g) \<le> Suc (length (tr_acked g)))"
proof -
  obtain s where s: "new_with_owner_tokens [11, 22, 33] = Inr s"
    by (simp add: new_with_owner_tokens_def MAX_CONNECTION_EVENT_TX_PAYLOADS_def)
  show ?thesis using s tx_owner_fifo [OF disjI1 [OF s]] by blast
qed

text \<open>
  C9. The ownership machine never gets stuck and never accepts a stale event: in every
  reachable state without a plan a packet that does not acknowledge is served and an
  acknowledgement is served exactly when something is outstanding; with a plan a further
  selection is refused, the planned completion succeeds, any other decision is refused, and
  its More Data flag holds exactly when an unacknowledged owner other than the response
  remains.
\<close>

theorem tx_never_stuck:
  fixes es :: "tx_event list"
  assumes "new_with_owner_tokens owners = Inr s0 \<or> with_empty_retry owners = Inr s0"
  defines "s \<equiv> tr_state (foldl tx_step (tx_start s0) es)"
  shows "case planned s of
      None \<Rightarrow> (\<exists>r. select s False = Inr r) \<and> ((\<exists>r. select s True = Inr r) \<longleftrightarrow> outstanding s \<noteq> None)
    | Some d \<Rightarrow> select s ack = Inl ResponsePlanAlreadyPending \<and> (\<exists>s'. complete_transmit s d = Inr s')
        \<and> ((\<exists>s'. complete_transmit s d' = Inr s') \<longleftrightarrow> d' = d) \<and> ((\<exists>s'. abort_transmit s d' = Inr s') \<longleftrightarrow> d' = d)
        \<and> (more_payloads_after_response d \<longleftrightarrow> length (owner_list (response_token d)) < length (pending s))"
proof -
  have "run_inv owners (tx_start s0)" using assms(1) start_fresh start_empty_retry by blast
  from event_run.inv_run [OF this, of es] have inv: "tx_inv s" by (simp add: run_inv_def s_def)
  show ?thesis
  proof (cases "planned s")
    case None
    have "\<exists>r. select s False = Inr r" using select_no_ack [OF inv None] by blast
    moreover have "(\<exists>r. select s True = Inr r) \<longleftrightarrow> outstanding s \<noteq> None"
    proof (cases "outstanding s")
      case (Some os)
      show ?thesis using select_ack [OF inv None Some] Some by blast
    qed (simp add: select_def preview_select_def None)
    ultimately show ?thesis using None by simp
  next
    case (Some d)
    have n: "planned s \<noteq> Some d' \<longleftrightarrow> d' \<noteq> d" using Some by auto
    have "(\<exists>s'. complete_transmit s d' = Inr s') \<longleftrightarrow> d' = d"
    proof (cases "d' = d")
      case True
      then show ?thesis using complete_ok [OF inv Some] by blast
    next
      case False
      then show ?thesis using n by (simp add: complete_transmit_def)
    qed
    moreover have "(\<exists>s'. abort_transmit s d' = Inr s') \<longleftrightarrow> d' = d" using n by (auto simp: abort_transmit_def)
    ultimately show ?thesis
      using complete_ok [OF inv Some] Some by (auto simp: select_def preview_select_def)
  qed
qed

theorem tx_never_stuck_witness:
  "\<exists>s0. with_empty_retry [11, 22, 33] = Inr s0 \<and>
    (let s = tr_state (foldl tx_step (tx_start s0) []) in
     case planned s of
      None \<Rightarrow> (\<exists>r. select s False = Inr r) \<and> ((\<exists>r. select s True = Inr r) \<longleftrightarrow> outstanding s \<noteq> None)
    | Some d \<Rightarrow> False)"
proof -
  obtain s0 where s0: "with_empty_retry [11, 22, 33] = Inr s0"
    by (simp add: with_empty_retry_def new_with_owner_tokens_def MAX_CONNECTION_EVENT_TX_PAYLOADS_def)
  have "planned s0 = None" using start_empty_retry [OF s0] by blast
  with s0 tx_never_stuck [OF disjI2 [OF s0], of "[]"] show ?thesis by (simp add: tx_start_def)
qed

text \<open>
  C31. A peer that acknowledges every response drains the event: one served packet and then
  one acknowledging packet per payload complete all owners, in order.
\<close>

theorem tx_drains:
  assumes "new_with_owner_tokens owners = Inr s"
  shows "tr_acked (foldl tx_step (tx_start s) ([Serve False, TxDone] @ concat (replicate n [Serve True, TxDone])))
    = take n owners"
proof -
  let ?g = "tx_start s"
  have i: "run_inv owners ?g" and n: "planned s = None" "outstanding s = None" using start_fresh [OF assms] by auto
  obtain d where d: "planned (tr_state (tx_step ?g (Serve False))) = Some d"
    "outstanding (tr_state (tx_step ?g (Serve False))) = None" "tr_acked (tx_step ?g (Serve False)) = []"
    using select_no_ack [of s] i n by (auto simp: run_inv_def tx_start_def owner_list_def)
  note i' = run_inv_step [OF i, of "Serve False"]
  have "ready (tx_step (tx_step ?g (Serve False)) TxDone)" "tr_acked (tx_step (tx_step ?g (Serve False)) TxDone) = take 0 owners"
    using done_ready [OF i' d(1,2)] d(3) by auto
  from ready_rounds [OF run_inv_step [OF i', of TxDone] this, of n] show ?thesis by simp
qed

theorem tx_drains_witness:
  "\<exists>s. new_with_owner_tokens [11, 22, 33] = Inr s \<and>
    tr_acked (foldl tx_step (tx_start s) ([Serve False, TxDone] @ concat (replicate 3 [Serve True, TxDone]))) = [11, 22, 33]"
proof -
  obtain s where s: "new_with_owner_tokens [11, 22, 33] = Inr s"
    by (simp add: new_with_owner_tokens_def MAX_CONNECTION_EVENT_TX_PAYLOADS_def)
  show ?thesis using s tx_drains [OF s, of 3] by (simp del: foldl_append)
qed

end
