(* ===== verification/Llcp.thy ===== *)
theory Llcp
  imports Control_Pdu "HOL-Library.Sublist"
begin

text \<open>
  Ownership of Link Layer control procedures, \<^verbatim>\<open>crates/ble-controller/src/llcp.rs\<close>:
  \<open>ProcedureContext\<close> and \<open>ProcedureManager\<close> with every operation. An operation that returns
  an error leaves the manager as it was (each returns before it mutates), so operations return
  \<open>error + manager\<close>. The last part runs the manager on arbitrary sequences of calls.
\<close>

datatype procedure_kind = Termination | FeatureExchange | VersionExchange | ConnectionParameters
  | ConnectionUpdate | ChannelMapUpdate | Ping

fun kind_instant_procedure :: "procedure_kind \<Rightarrow> instant_procedure option" where
  "kind_instant_procedure ConnectionParameters = Some IP_ConnectionParametersRequest"
| "kind_instant_procedure ConnectionUpdate = Some IP_ConnectionUpdate"
| "kind_instant_procedure ChannelMapUpdate = Some IP_ChannelMapUpdate"
| "kind_instant_procedure _ = None"

datatype initiator = Local | Remote

datatype procedure_phase = Queued | AwaitingTxAck | AwaitingResponse | ResponseQueued | AwaitingInstant
  | Complete | Failed

record procedure_token =
  pt_owner_token :: u32
  pt_generation :: u8

record procedure_context =
  pc_kind :: procedure_kind
  pc_initiator :: initiator
  pc_phase :: procedure_phase
  pc_token :: procedure_token
  pc_tx_opcode :: u8
  pc_expected_response_opcode :: "u8 option"
  pc_instant :: "u16 option"
  pc_response_timeout_us :: u32
  pc_response_deadline_us :: u64
  pc_pending_response :: bool
  pc_error :: "u8 option"

definition context_new ::
    "procedure_kind \<Rightarrow> initiator \<Rightarrow> procedure_token \<Rightarrow> u8 \<Rightarrow> u8 option \<Rightarrow> u16 option \<Rightarrow> u32 option \<Rightarrow> procedure_context" where
  "context_new kind who token tx_opcode expected instant timeout =
     \<lparr>pc_kind = kind, pc_initiator = who, pc_phase = Queued, pc_token = token, pc_tx_opcode = tx_opcode,
      pc_expected_response_opcode = expected, pc_instant = instant,
      pc_response_timeout_us = (case timeout of Some t \<Rightarrow> t | None \<Rightarrow> 0),
      pc_response_deadline_us = 0, pc_pending_response = False, pc_error = None\<rparr>"

definition pc_active :: "procedure_context \<Rightarrow> bool" where
  "pc_active c = (pc_phase c \<noteq> Complete \<and> pc_phase c \<noteq> Failed)"

definition response_deadline_us :: "procedure_context \<Rightarrow> u64 option" where
  "response_deadline_us c = (if pc_response_deadline_us c = 0 then None else Some (pc_response_deadline_us c))"

datatype procedure_error = Busy | Collision u8 | MissingContext | StaleToken | InvalidPhase | WrongOpcode

record procedure_manager =
  pm_local :: "procedure_context option"
  pm_remote :: "procedure_context option"

definition manager_new :: procedure_manager where
  "manager_new = \<lparr>pm_local = None, pm_remote = None\<rparr>"

section \<open>Starting a procedure\<close>

definition start_local :: "procedure_manager \<Rightarrow> procedure_context \<Rightarrow> procedure_error + procedure_manager" where
  "start_local m c =
     (if pc_initiator c \<noteq> Local then Inl InvalidPhase
      else if (case pm_local m of Some l \<Rightarrow> pc_active l | None \<Rightarrow> False) then Inl Busy
      else Inr (m\<lparr>pm_local := Some c\<rparr>))"

definition collision :: "procedure_kind \<Rightarrow> procedure_kind \<Rightarrow> procedure_error" where
  "collision l r =
     (case (kind_instant_procedure l, kind_instant_procedure r) of
        (Some a, Some b) \<Rightarrow> Collision (procedure_collision_error a b)
      | _ \<Rightarrow> Busy)"

definition active_context :: "procedure_context option \<Rightarrow> procedure_context option" where
  "active_context c = (case c of Some x \<Rightarrow> if pc_active x then Some x else None | None \<Rightarrow> None)"

definition start_remote :: "procedure_manager \<Rightarrow> procedure_context \<Rightarrow> procedure_error + procedure_manager" where
  "start_remote m c =
     (if pc_initiator c \<noteq> Remote then Inl InvalidPhase
      else case active_context (pm_remote m) of
        Some r \<Rightarrow> Inl (collision (pc_kind r) (pc_kind c))
      | None \<Rightarrow>
          (let accept = Inr (m\<lparr>pm_remote := Some (if pc_instant c \<noteq> None then c\<lparr>pc_phase := AwaitingInstant\<rparr> else c)\<rparr>)
           in case active_context (pm_local m) of
                Some l \<Rightarrow>
                  if kind_instant_procedure (pc_kind l) \<noteq> None \<and> kind_instant_procedure (pc_kind c) \<noteq> None
                  then Inl (collision (pc_kind l) (pc_kind c)) else accept
              | None \<Rightarrow> accept))"

section \<open>Operations on one context\<close>

text \<open>\<open>context_mut\<close> with the mutation of its borrower: \<open>f\<close> is the body after the \<open>?\<close>.\<close>

definition with_context ::
    "procedure_manager \<Rightarrow> initiator \<Rightarrow> (procedure_context \<Rightarrow> procedure_error + procedure_context)
     \<Rightarrow> procedure_error + procedure_manager" where
  "with_context m who f =
     (case (case who of Local \<Rightarrow> pm_local m | Remote \<Rightarrow> pm_remote m) of
        None \<Rightarrow> Inl MissingContext
      | Some c \<Rightarrow> (case f c of Inl e \<Rightarrow> Inl e
          | Inr c' \<Rightarrow> Inr (case who of Local \<Rightarrow> m\<lparr>pm_local := Some c'\<rparr> | Remote \<Rightarrow> m\<lparr>pm_remote := Some c'\<rparr>)))"

definition tx_planned :: "procedure_manager \<Rightarrow> initiator \<Rightarrow> procedure_token \<Rightarrow> procedure_error + procedure_manager" where
  "tx_planned m who token = with_context m who (\<lambda>c.
     if pc_token c \<noteq> token then Inl StaleToken
     else if \<not> (pc_phase c = Queued \<or> pc_phase c = ResponseQueued) then Inl InvalidPhase
     else Inr c)"

definition tx_done_context :: "procedure_token \<Rightarrow> procedure_context \<Rightarrow> procedure_error + procedure_context" where
  "tx_done_context token c =
     (if pc_token c \<noteq> token then Inl StaleToken
      else if \<not> (pc_phase c = Queued \<or> pc_phase c = ResponseQueued) then Inl InvalidPhase
      else Inr (c\<lparr>pc_phase := AwaitingTxAck\<rparr>))"

definition tx_done :: "procedure_manager \<Rightarrow> initiator \<Rightarrow> procedure_token \<Rightarrow> procedure_error + procedure_manager" where
  "tx_done m who token = with_context m who (tx_done_context token)"

definition armed_deadline :: "procedure_context \<Rightarrow> u64 \<Rightarrow> u64" where
  "armed_deadline c now_us =
     (if pc_response_timeout_us c = 0 then 0 else saturating_add now_us (ucast (pc_response_timeout_us c)))"

definition nesn_ack_context :: "procedure_token \<Rightarrow> u64 \<Rightarrow> procedure_context \<Rightarrow> procedure_error + procedure_context" where
  "nesn_ack_context token now_us c =
     (if pc_token c \<noteq> token then Inl StaleToken
      else if pc_phase c \<noteq> AwaitingTxAck then Inl InvalidPhase
      else if pc_pending_response c then
        Inr ((if pc_instant c \<noteq> None then c\<lparr>pc_phase := AwaitingInstant\<rparr>
              else if pc_expected_response_opcode c \<noteq> None
              then c\<lparr>pc_response_deadline_us := armed_deadline c now_us, pc_phase := AwaitingResponse\<rparr>
              else c\<lparr>pc_phase := Complete\<rparr>)\<lparr>pc_pending_response := False\<rparr>)
      else if pc_expected_response_opcode c \<noteq> None then
        Inr (c\<lparr>pc_phase := AwaitingResponse, pc_response_deadline_us := armed_deadline c now_us\<rparr>)
      else if pc_instant c \<noteq> None then Inr (c\<lparr>pc_phase := AwaitingInstant\<rparr>)
      else Inr (c\<lparr>pc_phase := Complete\<rparr>))"

definition nesn_ack :: "procedure_manager \<Rightarrow> initiator \<Rightarrow> procedure_token \<Rightarrow> u64 \<Rightarrow> procedure_error + procedure_manager" where
  "nesn_ack m who token now_us = with_context m who (nesn_ack_context token now_us)"

definition expected_response_context :: "u8 \<Rightarrow> procedure_context \<Rightarrow> procedure_error + procedure_context" where
  "expected_response_context opcode c =
     (if pc_phase c \<noteq> AwaitingResponse then Inl InvalidPhase
      else if pc_expected_response_opcode c \<noteq> Some opcode then Inl WrongOpcode
      else Inr (c\<lparr>pc_response_deadline_us := 0,
                  pc_phase := (if pc_instant c \<noteq> None then AwaitingInstant else Complete)\<rparr>))"

definition expected_response :: "procedure_manager \<Rightarrow> initiator \<Rightarrow> u8 \<Rightarrow> procedure_error + procedure_manager" where
  "expected_response m who opcode = with_context m who (expected_response_context opcode)"

definition expected_response_with_instant ::
    "procedure_manager \<Rightarrow> initiator \<Rightarrow> u8 \<Rightarrow> u16 \<Rightarrow> procedure_error + procedure_manager" where
  "expected_response_with_instant m who opcode instant = with_context m who (\<lambda>c.
     if pc_phase c \<noteq> AwaitingResponse then Inl InvalidPhase
     else if pc_expected_response_opcode c \<noteq> Some opcode then Inl WrongOpcode
     else Inr (c\<lparr>pc_instant := Some instant, pc_phase := AwaitingInstant\<rparr>))"

definition response_queued :: "procedure_manager \<Rightarrow> procedure_token \<Rightarrow> u8 \<Rightarrow> procedure_error + procedure_manager" where
  "response_queued m token tx_opcode = with_context m Remote (\<lambda>c.
     if \<not> (pc_phase c = Queued \<or> pc_phase c = AwaitingResponse) then Inl InvalidPhase
     else Inr (c\<lparr>pc_token := token, pc_tx_opcode := tx_opcode, pc_pending_response := True,
                 pc_phase := ResponseQueued\<rparr>))"

section \<open>Timers and instants\<close>

definition timed_out :: "u64 \<Rightarrow> procedure_context \<Rightarrow> bool" where
  "timed_out now_us c =
     ((pc_phase c = AwaitingResponse \<or> pc_phase c = AwaitingInstant)
      \<and> pc_response_deadline_us c \<noteq> 0 \<and> now_us \<ge> pc_response_deadline_us c)"

definition timeout_context :: "u64 \<Rightarrow> u8 \<Rightarrow> procedure_context \<Rightarrow> procedure_context" where
  "timeout_context now_us error c =
     (if timed_out now_us c
      then c\<lparr>pc_phase := Failed, pc_error := Some error, pc_response_deadline_us := 0\<rparr> else c)"

definition check_timeouts :: "procedure_manager \<Rightarrow> u64 \<Rightarrow> u8 \<Rightarrow> bool \<times> procedure_manager" where
  "check_timeouts m now_us error =
     ((case pm_local m of Some c \<Rightarrow> timed_out now_us c | None \<Rightarrow> False)
      \<or> (case pm_remote m of Some c \<Rightarrow> timed_out now_us c | None \<Rightarrow> False),
      m\<lparr>pm_local := map_option (timeout_context now_us error) (pm_local m),
        pm_remote := map_option (timeout_context now_us error) (pm_remote m)\<rparr>)"

definition fail_context :: "u8 \<Rightarrow> procedure_context \<Rightarrow> procedure_context" where
  "fail_context error c = c\<lparr>pc_phase := Failed, pc_error := Some error, pc_response_deadline_us := 0,
     pc_pending_response := False\<rparr>"

definition fail :: "procedure_manager \<Rightarrow> initiator \<Rightarrow> u8 \<Rightarrow> procedure_error + procedure_manager" where
  "fail m who error = with_context m who (\<lambda>c. Inr (fail_context error c))"

definition instant_context :: "u16 \<Rightarrow> u8 \<Rightarrow> procedure_context \<Rightarrow> procedure_context" where
  "instant_context event_counter passed_error c =
     (if pc_phase c \<noteq> AwaitingInstant then c
      else case pc_instant c of None \<Rightarrow> c
      | Some instant \<Rightarrow>
          (case classify_instant event_counter instant of
             Current \<Rightarrow> c\<lparr>pc_phase := Complete, pc_response_deadline_us := 0\<rparr>
           | Future _ \<Rightarrow> c
           | Passed \<Rightarrow> c\<lparr>pc_phase := Failed, pc_error := Some passed_error, pc_response_deadline_us := 0\<rparr>))"

definition on_connection_event :: "procedure_manager \<Rightarrow> u16 \<Rightarrow> u8 \<Rightarrow> procedure_manager" where
  "on_connection_event m event_counter passed_error =
     m\<lparr>pm_local := map_option (instant_context event_counter passed_error) (pm_local m),
       pm_remote := map_option (instant_context event_counter passed_error) (pm_remote m)\<rparr>"

section \<open>Sequences of calls\<close>

datatype procedure_event =
    StartLocal procedure_kind procedure_token u8 "u8 option" "u16 option" "u32 option"
  | StartRemote procedure_kind procedure_token u8 "u8 option" "u16 option" "u32 option"
  | TxPlannedEv initiator procedure_token
  | TxDoneEv initiator procedure_token
  | NesnAckEv initiator procedure_token u64
  | ExpectedResponseEv initiator u8
  | ExpectedInstantEv initiator u8 u16
  | ResponseQueuedEv procedure_token u8
  | CheckTimeoutsEv u64 u8
  | FailEv initiator u8
  | ConnectionEventEv u16 u8

fun procedure_call :: "procedure_manager \<Rightarrow> procedure_event \<Rightarrow> procedure_error + procedure_manager" where
  "procedure_call m (StartLocal k t op ex i to) = start_local m (context_new k Local t op ex i to)"
| "procedure_call m (StartRemote k t op ex i to) = start_remote m (context_new k Remote t op ex i to)"
| "procedure_call m (TxPlannedEv who t) = tx_planned m who t"
| "procedure_call m (TxDoneEv who t) = tx_done m who t"
| "procedure_call m (NesnAckEv who t now) = nesn_ack m who t now"
| "procedure_call m (ExpectedResponseEv who op) = expected_response m who op"
| "procedure_call m (ExpectedInstantEv who op i) = expected_response_with_instant m who op i"
| "procedure_call m (ResponseQueuedEv t op) = response_queued m t op"
| "procedure_call m (CheckTimeoutsEv now er) = Inr (snd (check_timeouts m now er))"
| "procedure_call m (FailEv who er) = fail m who er"
| "procedure_call m (ConnectionEventEv e er) = Inr (on_connection_event m e er)"

definition procedure_step :: "procedure_manager \<Rightarrow> procedure_event \<Rightarrow> procedure_manager" where
  "procedure_step m e = (case procedure_call m e of Inl _ \<Rightarrow> m | Inr m' \<Rightarrow> m')"

section \<open>Invariant\<close>

definition context_ok :: "initiator \<Rightarrow> procedure_context \<Rightarrow> bool" where
  "context_ok who c \<longleftrightarrow> pc_initiator c = who
     \<and> (pc_phase c = Failed \<longleftrightarrow> pc_error c \<noteq> None)
     \<and> (pc_phase c = AwaitingInstant \<longrightarrow> pc_instant c \<noteq> None)
     \<and> (pc_phase c = AwaitingResponse \<longrightarrow> pc_expected_response_opcode c \<noteq> None
          \<and> (pc_response_deadline_us c = 0 \<longleftrightarrow> pc_response_timeout_us c = 0))
     \<and> (pc_phase c = ResponseQueued \<longrightarrow> pc_pending_response c)
     \<and> (pc_pending_response c \<longrightarrow> who = Remote \<and> pc_phase c \<in> {ResponseQueued, AwaitingTxAck})
     \<and> (pc_response_deadline_us c \<noteq> 0 \<longrightarrow> pc_expected_response_opcode c \<noteq> None \<and> pc_active c)"

definition manager_ok :: "procedure_manager \<Rightarrow> bool" where
  "manager_ok m \<longleftrightarrow> pred_option (context_ok Local) (pm_local m) \<and> pred_option (context_ok Remote) (pm_remote m)"

section \<open>Every call keeps the invariant\<close>

lemma with_context_ok:
  assumes "manager_ok m" "with_context m who f = Inr m'"
    and "\<And>c c'. context_ok who c \<Longrightarrow> f c = Inr c' \<Longrightarrow> context_ok who c'"
  shows "manager_ok m'"
  using assms by (auto simp: with_context_def manager_ok_def split: option.splits sum.splits initiator.splits)

lemma armed_deadline_0: "armed_deadline c now = 0 \<longleftrightarrow> pc_response_timeout_us c = 0"
proof (cases "pc_response_timeout_us c = 0")
  case False
  then have "unat (armed_deadline c now) \<noteq> 0"
    by (simp add: armed_deadline_def unat_saturating_add unat_ucast_up unat_gt_0)
  with False show ?thesis by auto
qed (simp add: armed_deadline_def)

lemma context_new_ok: "context_ok who (context_new k who t op ex i to)"
  by (simp add: context_ok_def context_new_def)

lemma tx_done_context_ok:
  assumes "context_ok who c" "tx_done_context t c = Inr c'"
  shows "context_ok who c'"
proof -
  have "c' = c\<lparr>pc_phase := AwaitingTxAck\<rparr>" "pc_phase c = Queued \<or> pc_phase c = ResponseQueued"
    using assms(2) by (simp_all add: tx_done_context_def split: if_split_asm)
  with assms(1) show ?thesis by (elim disjE) (simp_all add: context_ok_def pc_active_def)
qed

lemma no_pending:
  "\<not> pc_pending_response c \<Longrightarrow> c\<lparr>pc_phase := p, pc_pending_response := False\<rparr> = c\<lparr>pc_phase := p\<rparr>"
  "\<not> pc_pending_response c \<Longrightarrow> c\<lparr>pc_phase := p, pc_response_deadline_us := d, pc_pending_response := False\<rparr>
     = c\<lparr>pc_phase := p, pc_response_deadline_us := d\<rparr>"
  by (cases c; simp)+

lemma nesn_ack_context_Inr:
  assumes "nesn_ack_context t now c = Inr c'"
  shows "pc_token c = t" "pc_phase c = AwaitingTxAck"
    "c' = (if pc_pending_response c \<and> pc_instant c \<noteq> None \<or> pc_expected_response_opcode c = None \<and> pc_instant c \<noteq> None
           then c\<lparr>pc_phase := AwaitingInstant, pc_pending_response := False\<rparr>
           else if pc_expected_response_opcode c \<noteq> None
           then c\<lparr>pc_phase := AwaitingResponse, pc_response_deadline_us := armed_deadline c now, pc_pending_response := False\<rparr>
           else c\<lparr>pc_phase := Complete, pc_pending_response := False\<rparr>)"
proof -
  show t: "pc_token c = t" and p: "pc_phase c = AwaitingTxAck"
    using assms by (simp_all add: nesn_ack_context_def split: if_split_asm)
  show "c' = (if pc_pending_response c \<and> pc_instant c \<noteq> None \<or> pc_expected_response_opcode c = None \<and> pc_instant c \<noteq> None
           then c\<lparr>pc_phase := AwaitingInstant, pc_pending_response := False\<rparr>
           else if pc_expected_response_opcode c \<noteq> None
           then c\<lparr>pc_phase := AwaitingResponse, pc_response_deadline_us := armed_deadline c now, pc_pending_response := False\<rparr>
           else c\<lparr>pc_phase := Complete, pc_pending_response := False\<rparr>)"
    using assms [symmetric] unfolding nesn_ack_context_def t p
    by (cases "pc_pending_response c"; cases "pc_instant c"; cases "pc_expected_response_opcode c")
       (simp_all add: no_pending)
qed

lemma nesn_ack_context_ok:
  assumes "context_ok who c" "nesn_ack_context t now c = Inr c'"
  shows "context_ok who c'"
proof -
  note c' = nesn_ack_context_Inr [OF assms(2)]
  show ?thesis
    using assms(1) c'(2) unfolding c'(3)
    by (cases "pc_pending_response c"; cases "pc_instant c"; cases "pc_expected_response_opcode c")
       (simp_all add: context_ok_def armed_deadline_0 pc_active_def)
qed

lemma expected_response_context_ok:
  "context_ok who c \<Longrightarrow> expected_response_context op c = Inr c' \<Longrightarrow> context_ok who c'"
  by (auto simp: context_ok_def expected_response_context_def pc_active_def split: if_splits)

lemma timeout_context_ok: "context_ok who c \<Longrightarrow> context_ok who (timeout_context now er c)"
  by (auto simp: context_ok_def timeout_context_def timed_out_def pc_active_def)

lemma fail_context_ok: "context_ok who c \<Longrightarrow> context_ok who (fail_context er c)"
  by (auto simp: context_ok_def fail_context_def pc_active_def)

lemma instant_context_ok: "context_ok who c \<Longrightarrow> context_ok who (instant_context e er c)"
  by (auto simp: context_ok_def instant_context_def pc_active_def split: option.splits instant_relation.splits)

lemma start_ok:
  assumes "manager_ok m"
  shows "start_local m (context_new k Local t op ex i to) = Inr m' \<Longrightarrow> manager_ok m'"
    and "start_remote m (context_new k Remote t op ex i to) = Inr m' \<Longrightarrow> manager_ok m'"
  using assms context_new_ok
  by (auto simp: start_local_def start_remote_def manager_ok_def Let_def context_ok_def context_new_def
      pc_active_def split: option.splits if_splits)

lemma procedure_call_ok: "manager_ok m \<Longrightarrow> procedure_call m e = Inr m' \<Longrightarrow> manager_ok m'"
proof (cases e)
  case (TxPlannedEv who t)
  assume "manager_ok m" "procedure_call m e = Inr m'"
  then show ?thesis
    unfolding TxPlannedEv procedure_call.simps tx_planned_def by (rule with_context_ok) (auto split: if_splits)
next
  case (ExpectedInstantEv who op i)
  assume "manager_ok m" "procedure_call m e = Inr m'"
  then show ?thesis
    unfolding ExpectedInstantEv procedure_call.simps expected_response_with_instant_def
    by (rule with_context_ok) (auto simp: context_ok_def pc_active_def split: if_splits)
next
  case (ResponseQueuedEv t op)
  assume "manager_ok m" "procedure_call m e = Inr m'"
  then show ?thesis
    unfolding ResponseQueuedEv procedure_call.simps response_queued_def
  proof (rule with_context_ok)
    fix c c'
    assume ok: "context_ok Remote c"
      and eq: "(if \<not> (pc_phase c = Queued \<or> pc_phase c = AwaitingResponse) then Inl InvalidPhase
        else Inr (c\<lparr>pc_token := t, pc_tx_opcode := op, pc_pending_response := True, pc_phase := ResponseQueued\<rparr>)) = Inr c'"
    then have "pc_phase c = Queued \<or> pc_phase c = AwaitingResponse" by (simp split: if_split_asm)
    with ok eq [symmetric] show "context_ok Remote c'" by (elim disjE) (simp_all add: context_ok_def pc_active_def)
  qed
next
  case (CheckTimeoutsEv now er)
  assume "manager_ok m" "procedure_call m e = Inr m'"
  then show ?thesis
    using CheckTimeoutsEv timeout_context_ok by (auto simp: check_timeouts_def manager_ok_def pred_option_def)
next
  case (ConnectionEventEv c er)
  assume "manager_ok m" "procedure_call m e = Inr m'"
  then show ?thesis
    using ConnectionEventEv instant_context_ok by (auto simp: on_connection_event_def manager_ok_def pred_option_def)
next
  case (FailEv who er)
  assume "manager_ok m" "procedure_call m e = Inr m'"
  then show ?thesis
    unfolding FailEv procedure_call.simps fail_def by (rule with_context_ok) (auto intro: fail_context_ok)
next
  case (TxDoneEv who t)
  assume "manager_ok m" "procedure_call m e = Inr m'"
  then show ?thesis
    unfolding TxDoneEv procedure_call.simps tx_done_def by (rule with_context_ok) (rule tx_done_context_ok)
next
  case (NesnAckEv who t now)
  assume "manager_ok m" "procedure_call m e = Inr m'"
  then show ?thesis
    unfolding NesnAckEv procedure_call.simps nesn_ack_def by (rule with_context_ok) (rule nesn_ack_context_ok)
next
  case (ExpectedResponseEv who op)
  assume "manager_ok m" "procedure_call m e = Inr m'"
  then show ?thesis
    unfolding ExpectedResponseEv procedure_call.simps expected_response_def
    by (rule with_context_ok) (rule expected_response_context_ok)
next
  case (StartLocal k t op ex i to)
  assume "manager_ok m" "procedure_call m e = Inr m'"
  then show ?thesis unfolding StartLocal procedure_call.simps by (rule start_ok(1))
next
  case (StartRemote k t op ex i to)
  assume "manager_ok m" "procedure_call m e = Inr m'"
  then show ?thesis unfolding StartRemote procedure_call.simps by (rule start_ok(2))
qed

lemma procedure_step_ok: "manager_ok m \<Longrightarrow> manager_ok (procedure_step m e)"
  using procedure_call_ok [of m e] by (auto simp: procedure_step_def split: sum.splits)

interpretation procedures: step_machine procedure_step manager_ok
  by unfold_locales (rule procedure_step_ok)

section \<open>The life of a local procedure\<close>

text \<open>What one call does to an existing local context.\<close>

definition ok_or :: "'a \<Rightarrow> 'e + 'a \<Rightarrow> 'a" where
  "ok_or c r = (case r of Inl _ \<Rightarrow> c | Inr c' \<Rightarrow> c')"

fun local_effect :: "procedure_event \<Rightarrow> procedure_context \<Rightarrow> procedure_context" where
  "local_effect (TxDoneEv Local t) c = ok_or c (tx_done_context t c)"
| "local_effect (NesnAckEv Local t now) c = ok_or c (nesn_ack_context t now c)"
| "local_effect (ExpectedResponseEv Local op) c = ok_or c (expected_response_context op c)"
| "local_effect (ExpectedInstantEv Local op i) c =
     (if pc_phase c = AwaitingResponse \<and> pc_expected_response_opcode c = Some op
      then c\<lparr>pc_instant := Some i, pc_phase := AwaitingInstant\<rparr> else c)"
| "local_effect (CheckTimeoutsEv now er) c = timeout_context now er c"
| "local_effect (FailEv Local er) c = fail_context er c"
| "local_effect (ConnectionEventEv e er) c = instant_context e er c"
| "local_effect _ c = c"

fun is_StartLocal :: "procedure_event \<Rightarrow> bool" where
  "is_StartLocal (StartLocal k t op ex i to) = True"
| "is_StartLocal _ = False"

lemma with_context_local:
  "pm_local m = Some c \<Longrightarrow> pm_local (case with_context m Local f of Inl _ \<Rightarrow> m | Inr m' \<Rightarrow> m') = Some (ok_or c (f c))"
  by (simp add: with_context_def ok_or_def split: sum.splits)

lemma with_context_remote [simp]:
  "pm_local (case with_context m Remote f of Inl _ \<Rightarrow> m | Inr m' \<Rightarrow> m') = pm_local m"
  by (simp add: with_context_def split: option.splits sum.splits)

lemma local_effect_step:
  assumes "pm_local m = Some c" "\<not> is_StartLocal e"
  shows "pm_local (procedure_step m e) = Some (local_effect e c)"
proof (cases e)
  case (StartRemote k t op ex i to)
  with assms show ?thesis
    by (simp add: procedure_step_def start_remote_def Let_def split: option.splits)
next
  case (TxPlannedEv who t)
  with assms show ?thesis
    by (cases who) (simp_all add: procedure_step_def tx_planned_def with_context_local, simp add: ok_or_def)
next
  case (TxDoneEv who t)
  with assms show ?thesis by (cases who) (simp_all add: procedure_step_def tx_done_def with_context_local)
next
  case (NesnAckEv who t now)
  with assms show ?thesis by (cases who) (simp_all add: procedure_step_def nesn_ack_def with_context_local)
next
  case (ExpectedResponseEv who op)
  with assms show ?thesis by (cases who) (simp_all add: procedure_step_def expected_response_def with_context_local)
next
  case (ExpectedInstantEv who op i)
  with assms show ?thesis
    by (cases who) (simp_all add: procedure_step_def expected_response_with_instant_def with_context_local, simp add: ok_or_def)
next
  case (FailEv who er)
  with assms show ?thesis
    by (cases who) (simp_all add: procedure_step_def fail_def with_context_local, simp add: ok_or_def)
qed (use assms in \<open>simp_all add: procedure_step_def response_queued_def check_timeouts_def on_connection_event_def\<close>)

lemma local_effect_fixed [simp]:
  "pc_token (local_effect e c) = pc_token c"
  "pc_expected_response_opcode (local_effect e c) = pc_expected_response_opcode c"
  by (induction e c rule: local_effect.induct)
     (simp_all add: ok_or_def tx_done_context_def nesn_ack_context_def expected_response_context_def timeout_context_def
       fail_context_def instant_context_def split: option.split instant_relation.split)

text \<open>The calls that justify a phase of a local procedure, in order.\<close>

definition accepts_response :: "u8 \<Rightarrow> procedure_event \<Rightarrow> bool" where
  "accepts_response op e \<longleftrightarrow> e = ExpectedResponseEv Local op \<or> (\<exists>i. e = ExpectedInstantEv Local op i)"

definition acked_by :: "procedure_token \<Rightarrow> procedure_event list \<Rightarrow> bool" where
  "acked_by tok es \<longleftrightarrow> (\<exists>t. subseq [TxDoneEv Local tok, NesnAckEv Local tok t] es)"

definition answered_by :: "procedure_token \<Rightarrow> u8 \<Rightarrow> procedure_event list \<Rightarrow> bool" where
  "answered_by tok op es \<longleftrightarrow>
     (\<exists>t r. accepts_response op r \<and> subseq [TxDoneEv Local tok, NesnAckEv Local tok t, r] es)"

definition evidence :: "procedure_event list \<Rightarrow> procedure_context \<Rightarrow> bool" where
  "evidence es c \<longleftrightarrow> (case pc_phase c of
       Queued \<Rightarrow> True | Failed \<Rightarrow> True | ResponseQueued \<Rightarrow> False
     | AwaitingTxAck \<Rightarrow> subseq [TxDoneEv Local (pc_token c)] es
     | AwaitingResponse \<Rightarrow> acked_by (pc_token c) es \<and> pc_expected_response_opcode c \<noteq> None
     | _ \<Rightarrow> (case pc_expected_response_opcode c of None \<Rightarrow> acked_by (pc_token c) es
            | Some op \<Rightarrow> answered_by (pc_token c) op es))"

lemma subseq_snoc_keep: "subseq xs es \<Longrightarrow> subseq xs (es @ [e])"
  using list_emb_append_mono [of "(=)" xs es "[]" "[e]"] by simp

lemma subseq_snoc_add: "subseq xs es \<Longrightarrow> subseq (xs @ [e]) (es @ [e])"
  using list_emb_append_mono [of "(=)" xs es "[e]" "[e]"] by simp

lemma evidence_keep: "evidence es c \<Longrightarrow> evidence (es @ [e]) c"
  unfolding evidence_def acked_by_def answered_by_def
  by (auto split: procedure_phase.splits option.splits intro: subseq_snoc_keep)

lemma evidence_done: "evidence (es @ [TxDoneEv Local (pc_token c)]) (c\<lparr>pc_phase := AwaitingTxAck\<rparr>)"
  using subseq_snoc_add [of "[]" es] by (simp add: evidence_def)

lemma evidence_ack:
  assumes "subseq [TxDoneEv Local (pc_token c)] es"
  shows "acked_by (pc_token c) (es @ [NesnAckEv Local (pc_token c) t])"
  using subseq_snoc_add [OF assms] by (auto simp: acked_by_def)

lemma evidence_answer:
  assumes "acked_by tok es" "accepts_response op r"
  shows "answered_by tok op (es @ [r])"
  using assms subseq_snoc_add [of "[TxDoneEv Local tok, NesnAckEv Local tok t]" es r for t]
  by (auto simp: acked_by_def answered_by_def)

lemma evidence_instant_complete:
  "pc_phase c = AwaitingInstant \<Longrightarrow> evidence es (c\<lparr>pc_phase := Complete, pc_response_deadline_us := d\<rparr>) = evidence es c"
  by (simp add: evidence_def split: option.split)

lemma evidence_step:
  assumes "context_ok Local c" "evidence es c"
  shows "evidence (es @ [e]) (local_effect e c)"
  using assms
proof (induction e c rule: local_effect.induct)
  case (1 t c)
  then show ?case
    using evidence_keep [OF 1(2)] evidence_done [of es c] by (auto simp: ok_or_def tx_done_context_def)
next
  case (2 t now c)
  show ?case
  proof (cases "nesn_ack_context t now c")
    case (Inl e)
    then show ?thesis using evidence_keep [OF 2(2)] by (simp add: ok_or_def)
  next
    case (Inr c')
    note n = nesn_ack_context_Inr [OF Inr]
    have a: "acked_by (pc_token c) (es @ [NesnAckEv Local t now])"
      using 2(2) n(1,2) evidence_ack [of c es now] by (simp add: evidence_def)
    have "\<not> pc_pending_response c" using 2(1) by (auto simp: context_ok_def)
    then show ?thesis using a n(3) Inr
      by (cases "pc_instant c"; cases "pc_expected_response_opcode c") (simp_all add: ok_or_def evidence_def)
  qed
next
  case (3 op c)
  show ?case
  proof (cases "pc_phase c = AwaitingResponse \<and> pc_expected_response_opcode c = Some op")
    case True
    then have "answered_by (pc_token c) op (es @ [ExpectedResponseEv Local op])"
      using 3(2) by (intro evidence_answer) (simp_all add: evidence_def accepts_response_def)
    with True show ?thesis by (simp add: ok_or_def expected_response_context_def evidence_def)
  next
    case False
    then show ?thesis
      using evidence_keep [OF 3(2)] by (auto simp: ok_or_def expected_response_context_def)
  qed
next
  case (4 op i c)
  show ?case
  proof (cases "pc_phase c = AwaitingResponse \<and> pc_expected_response_opcode c = Some op")
    case True
    then have "answered_by (pc_token c) op (es @ [ExpectedInstantEv Local op i])"
      using 4(2) by (intro evidence_answer) (simp_all add: evidence_def accepts_response_def)
    with True show ?thesis by (simp add: evidence_def)
  next
    case False
    then show ?thesis using evidence_keep [OF 4(2)] by auto
  qed
next
  case (5 now er c)
  then show ?case using evidence_keep [OF 5(2)] by (simp add: timeout_context_def) (simp add: evidence_def)
next
  case (7 e er c)
  then show ?case
    using evidence_keep [OF 7(2)]
    by (auto simp: instant_context_def evidence_instant_complete split: option.split instant_relation.split)
       (simp add: evidence_def)
qed (simp_all add: evidence_keep, simp_all add: fail_context_def evidence_def)

lemma local_run:
  assumes "manager_ok m" "pm_local m = Some c" "pc_phase c = Queued" "\<not> list_ex is_StartLocal es"
  shows "\<exists>c'. pm_local (foldl procedure_step m es) = Some c' \<and> pc_token c' = pc_token c
    \<and> pc_expected_response_opcode c' = pc_expected_response_opcode c \<and> evidence es c'"
  using assms(4)
proof (induction es rule: rev_induct)
  case Nil
  then show ?case using assms(2,3) by (simp add: evidence_def)
next
  case (snoc e es)
  then obtain c' where c': "pm_local (foldl procedure_step m es) = Some c'" "pc_token c' = pc_token c"
    "pc_expected_response_opcode c' = pc_expected_response_opcode c" "evidence es c'" by auto
  have "context_ok Local c'"
    using procedures.inv_run [OF assms(1), of es] c'(1) by (simp add: manager_ok_def)
  with c' snoc.prems show ?case by (simp add: local_effect_step evidence_step)
qed

section \<open>Properties\<close>

text \<open>
  C32. However the calls are interleaved (with stale tokens, wrong opcodes and repeated starts
  included), each context keeps a consistent phase: an error code exactly in the failed phase,
  an instant whenever one is awaited, an armed deadline exactly for a timed response, no
  deadline on a finished procedure, and responses only for remote procedures.
\<close>

theorem llcp_invariant: "manager_ok (foldl procedure_step manager_new es)"
  by (rule procedures.inv_run) (simp add: manager_ok_def manager_new_def)

text \<open>
  C8. A local procedure completes only through its own exchange: if it is complete after any
  sequence of calls, those calls contain the TX completion of its exact token, later the NESN
  acknowledgement of that token, and, if it expects a response, later the acceptance of that
  response opcode.
\<close>

theorem llcp_completion_justified:
  assumes "manager_ok m" "pm_local m = Some c" "pc_phase c = Queued" "\<not> list_ex is_StartLocal es"
    and "pm_local (foldl procedure_step m es) = Some c'" "pc_phase c' = Complete"
  shows "case pc_expected_response_opcode c of
      None \<Rightarrow> acked_by (pc_token c) es
    | Some op \<Rightarrow> answered_by (pc_token c) op es"
  using local_run [OF assms(1-4)] assms(5,6) by (auto simp: evidence_def split: option.splits)

theorem llcp_completion_justified_witness:
  "let tok = \<lparr>pt_owner_token = 7, pt_generation = 1\<rparr>;
       c = context_new VersionExchange Local tok 0x0c (Some 0x0c) None (Some 40);
       es = [TxDoneEv Local tok, NesnAckEv Local tok 100, ExpectedResponseEv Local 0x0c]
   in pm_local (foldl procedure_step \<lparr>pm_local = Some c, pm_remote = None\<rparr> es) \<noteq> None \<and> answered_by tok 0x0c es"
proof -
  let ?tok = "\<lparr>pt_owner_token = 7, pt_generation = 1\<rparr> :: procedure_token"
  let ?c = "context_new VersionExchange Local ?tok 0x0c (Some 0x0c) None (Some 40)"
  let ?m = "\<lparr>pm_local = Some ?c, pm_remote = None\<rparr>"
  let ?es = "[TxDoneEv Local ?tok, NesnAckEv Local ?tok 100, ExpectedResponseEv Local 0x0c]"
  have ok: "manager_ok ?m" by (simp add: manager_ok_def context_new_ok)
  obtain c' where c': "pm_local (foldl procedure_step ?m ?es) = Some c'" "pc_phase c' = Complete"
    by (simp add: local_effect_step ok_or_def tx_done_context_def nesn_ack_context_def
        expected_response_context_def context_new_def)
  show ?thesis
    using llcp_completion_justified [OF ok _ _ _ c', of ?c] c'
    by (simp add: context_new_def)
qed

text \<open>
  The two contexts by their initiator; when an acknowledgement arms the response timer; when the deadline a
  context carries has passed; and what a timeout makes of a context.
\<close>

definition context_of :: "procedure_manager \<Rightarrow> initiator \<Rightarrow> procedure_context option" where
  "context_of m who = (case who of Local \<Rightarrow> pm_local m | Remote \<Rightarrow> pm_remote m)"

definition peer_of :: "initiator \<Rightarrow> initiator" where
  "peer_of who = (case who of Local \<Rightarrow> Remote | Remote \<Rightarrow> Local)"

definition awaits_response :: "procedure_context \<Rightarrow> bool" where
  "awaits_response c \<longleftrightarrow> pc_expected_response_opcode c \<noteq> None \<and> (pc_instant c = None \<or> \<not> pc_pending_response c)"

definition expired :: "u64 \<Rightarrow> procedure_context \<Rightarrow> bool" where
  "expired t c \<longleftrightarrow> (pc_phase c = AwaitingResponse \<or> pc_phase c = AwaitingInstant)
     \<and> (case response_deadline_us c of Some d \<Rightarrow> unat d \<le> unat t | None \<Rightarrow> False)"

definition timed_out_with :: "u8 \<Rightarrow> procedure_context \<Rightarrow> procedure_context" where
  "timed_out_with er c = c\<lparr>pc_phase := Failed, pc_error := Some er, pc_response_deadline_us := 0\<rparr>"

lemma timeout_context_expired: "timeout_context t er c = (if expired t c then timed_out_with er c else c)"
  by (simp add: timeout_context_def timed_out_def expired_def response_deadline_us_def timed_out_with_def word_le_nat_alt)

lemma ex_initiator: "(\<exists>w. P w) \<longleftrightarrow> P Local \<or> P Remote"
  by (metis initiator.exhaust)

lemma check_timeouts_contexts:
  "context_of (snd (check_timeouts m t er)) w = map_option (timeout_context t er) (context_of m w)"
  "fst (check_timeouts m t er) \<longleftrightarrow> (\<exists>w c. context_of m w = Some c \<and> expired t c)"
proof -
  show "context_of (snd (check_timeouts m t er)) w = map_option (timeout_context t er) (context_of m w)"
    by (cases w) (simp_all add: context_of_def check_timeouts_def)
  have t: "timed_out t c = expired t c" for c
    by (simp add: timed_out_def expired_def response_deadline_us_def word_le_nat_alt)
  show "fst (check_timeouts m t er) \<longleftrightarrow> (\<exists>w c. context_of m w = Some c \<and> expired t c)"
    by (simp add: check_timeouts_def t ex_initiator context_of_def split: option.splits)
qed

lemma nesn_ack_contexts:
  assumes "nesn_ack m who tok now = Inr m'" "context_of m who = Some c"
  shows "\<exists>c1. nesn_ack_context tok now c = Inr c1 \<and> context_of m' who = Some c1
    \<and> context_of m' (peer_of who) = context_of m (peer_of who)"
  using assms by (cases who) (auto simp: nesn_ack_def with_context_def context_of_def peer_of_def split: sum.splits)

text \<open>
  C33. The response timer is exact, for local and remote procedures alike and whatever the other context does.
  An acknowledged PDU arms the deadline \<open>now + timeout\<close> (saturating, and none for a zero timeout) exactly when the
  procedure then waits for a response, also when the PDU was itself a queued response; otherwise the procedure goes
  on to its instant or is complete, with the deadline it carried. A later check reports a failure exactly when the
  deadline of either context has passed, fails with the given error exactly the contexts whose own deadline has
  passed, and changes nothing else.
\<close>

theorem llcp_timeout_exact:
  assumes "nesn_ack m who tok now = Inr m'" "context_of m who = Some c"
  shows "let deadline = min (unat now + unat (pc_response_timeout_us c)) (2 ^ 64 - 1);
      own = (if awaits_response c then pc_response_timeout_us c \<noteq> 0 \<and> deadline \<le> unat t
             else pc_instant c \<noteq> None \<and> pc_response_deadline_us c \<noteq> 0 \<and> unat (pc_response_deadline_us c) \<le> unat t);
      other = context_of m (peer_of who);
      after = snd (check_timeouts m' t er)
    in fst (check_timeouts m' t er) = (own \<or> (case other of Some x \<Rightarrow> expired t x | None \<Rightarrow> False))
    \<and> (\<exists>c1. context_of m' who = Some c1 \<and> \<not> pc_pending_response c1
         \<and> pc_phase c1 = (if awaits_response c then AwaitingResponse else if pc_instant c \<noteq> None then AwaitingInstant else Complete)
         \<and> context_of after who = Some (if own then timed_out_with er c1 else c1))
    \<and> context_of after (peer_of who) = map_option (\<lambda>x. if expired t x then timed_out_with er x else x) other"
proof -
  obtain c1 where c1: "nesn_ack_context tok now c = Inr c1" "context_of m' who = Some c1"
      "context_of m' (peer_of who) = context_of m (peer_of who)"
    using nesn_ack_contexts [OF assms] by blast
  define own where "own = (if awaits_response c
     then pc_response_timeout_us c \<noteq> 0 \<and> min (unat now + unat (pc_response_timeout_us c)) (2 ^ 64 - 1) \<le> unat t
     else pc_instant c \<noteq> None \<and> pc_response_deadline_us c \<noteq> 0 \<and> unat (pc_response_deadline_us c) \<le> unat t)"
  note c1' = nesn_ack_context_Inr(3) [OF c1(1)]
  have d: "unat (armed_deadline c now) = min (unat now + unat (pc_response_timeout_us c)) (2 ^ 64 - 1)"
    if "pc_response_timeout_us c \<noteq> 0" using that by (simp add: armed_deadline_def unat_saturating_add unat_ucast_up)
  have e: "expired t c1 = own"
    using d armed_deadline_0 [of c now]
    by (auto simp: c1' own_def awaits_response_def expired_def response_deadline_us_def)
  have p: "\<not> pc_pending_response c1" "pc_phase c1 =
      (if awaits_response c then AwaitingResponse else if pc_instant c \<noteq> None then AwaitingInstant else Complete)"
    by (auto simp: c1' awaits_response_def)
  have two: "(\<exists>w x. context_of m' w = Some x \<and> expired t x)
      \<longleftrightarrow> expired t c1 \<or> (case context_of m (peer_of who) of Some x \<Rightarrow> expired t x | None \<Rightarrow> False)"
    using c1(2,3) by (cases who) (auto simp: ex_initiator peer_of_def context_of_def split: option.splits)
  show ?thesis
    unfolding Let_def own_def [symmetric] check_timeouts_contexts two e c1(2,3)
    using p by (simp add: timeout_context_expired [abs_def] e)
qed

theorem llcp_timeout_exact_witness:
  "let tok = \<lparr>pt_owner_token = 7, pt_generation = 1\<rparr>;
       l = (context_new Ping Local tok 0x12 (Some 0x13) None (Some 40))\<lparr>pc_phase := AwaitingResponse, pc_response_deadline_us := 120\<rparr>;
       r = (context_new FeatureExchange Remote tok 0x09 (Some 0x0e) None (Some 40))\<lparr>pc_phase := AwaitingTxAck, pc_pending_response := True\<rparr>
   in \<exists>m'. nesn_ack \<lparr>pm_local = Some l, pm_remote = Some r\<rparr> Remote tok 100 = Inr m'
      \<and> \<not> fst (check_timeouts m' 119 0x22) \<and> fst (check_timeouts m' 120 0x22)
      \<and> map_option pc_phase (pm_remote (snd (check_timeouts m' 139 0x22))) = Some AwaitingResponse
      \<and> map_option pc_phase (pm_remote (snd (check_timeouts m' 140 0x22))) = Some Failed"
proof -
  let ?tok = "\<lparr>pt_owner_token = 7, pt_generation = 1\<rparr> :: procedure_token"
  let ?l = "(context_new Ping Local ?tok 0x12 (Some 0x13) None (Some 40))\<lparr>pc_phase := AwaitingResponse, pc_response_deadline_us := 120\<rparr>"
  let ?r = "(context_new FeatureExchange Remote ?tok 0x09 (Some 0x0e) None (Some 40))\<lparr>pc_phase := AwaitingTxAck, pc_pending_response := True\<rparr>"
  let ?m = "\<lparr>pm_local = Some ?l, pm_remote = Some ?r\<rparr>"
  obtain m' where m': "nesn_ack ?m Remote ?tok 100 = Inr m'"
    by (simp add: nesn_ack_def with_context_def nesn_ack_context_def context_new_def)
  have "context_of ?m Remote = Some ?r" by (simp add: context_of_def)
  note w = llcp_timeout_exact [OF m' this, where er = "0x22"]
  have "\<not> fst (check_timeouts m' 119 0x22)" "fst (check_timeouts m' 120 0x22)"
    "map_option pc_phase (pm_remote (snd (check_timeouts m' 139 0x22))) = Some AwaitingResponse"
    "map_option pc_phase (pm_remote (snd (check_timeouts m' 140 0x22))) = Some Failed"
    using w [of 119] w [of 120] w [of 139] w [of 140]
    by (auto simp: context_new_def Let_def context_of_def peer_of_def awaits_response_def expired_def response_deadline_us_def
        timed_out_with_def)
  with m' show ?thesis by (auto simp: Let_def)
qed

lemma on_connection_event_contexts:
  "context_of (on_connection_event m n er) w = map_option (instant_context n er) (context_of m w)"
  by (cases w) (simp_all add: context_of_def on_connection_event_def)

lemma instants_before:
  assumes "context_of m who = Some c" "\<forall>k\<in>set ks. instant_context (f k) er c = c"
  shows "context_of (foldl (\<lambda>m k. on_connection_event m (f k) er) m ks) who = Some c"
  using assms by (induction ks arbitrary: m) (simp_all add: on_connection_event_contexts)

text \<open>
  C37. Instants are exact, for both contexts of the manager and across the wrap of the 16-bit event counter: a
  procedure that waits for an instant \<open>d\<close> events ahead is untouched by the \<open>d\<close> events before it and is
  complete at the event of the instant; if that event was missed, it fails with the given code at the next one.
\<close>

theorem llcp_instant_exact:
  assumes "context_of m who = Some c" "pc_phase c = AwaitingInstant" "pc_instant c = Some i"
    and "classify_instant e i = Future d"
  shows "let before = foldl (\<lambda>m k. on_connection_event m (e + word_of_nat k) er) m [0..<unat d] in
    context_of before who = Some c
    \<and> context_of (on_connection_event before (e + d) er) who = Some (c\<lparr>pc_phase := Complete, pc_response_deadline_us := 0\<rparr>)
    \<and> context_of (on_connection_event before (e + d + 1) er) who
        = Some (c\<lparr>pc_phase := Failed, pc_error := Some er, pc_response_deadline_us := 0\<rparr>)"
proof -
  have d: "d = i - e" using assms(4) by (simp add: classify_Future)
  have cur: "classify_instant (e + d) i = Current" and pas: "classify_instant (e + d + 1) i = Passed"
    using d by (simp_all add: classify_Passed unat_max)
  have "instant_context (e + word_of_nat k) er c = c" if "k < unat d" for k
    using classify_shift [OF assms(4) that] assms(2,3) by (simp add: instant_context_def)
  then have "context_of (foldl (\<lambda>m k. on_connection_event m (e + word_of_nat k) er) m [0..<unat d]) who = Some c"
    by (intro instants_before assms(1)) simp
  moreover have "instant_context (e + d) er c = c\<lparr>pc_phase := Complete, pc_response_deadline_us := 0\<rparr>"
    unfolding instant_context_def assms(3) option.case cur by (simp add: assms(2))
  moreover have "instant_context (e + d + 1) er c =
      c\<lparr>pc_phase := Failed, pc_error := Some er, pc_response_deadline_us := 0\<rparr>"
    unfolding instant_context_def assms(3) option.case pas by (simp add: assms(2))
  ultimately show ?thesis by (simp add: Let_def on_connection_event_contexts)
qed

theorem llcp_instant_exact_witness:
  "let c = (context_new ChannelMapUpdate Remote \<lparr>pt_owner_token = 0, pt_generation = 0\<rparr> 1 None (Some 1) None)\<lparr>pc_phase := AwaitingInstant\<rparr>;
       before = foldl (\<lambda>m k. on_connection_event m (0xfffe + word_of_nat k) 0x28) \<lparr>pm_local = None, pm_remote = Some c\<rparr> [0..<3]
   in pm_remote before = Some c \<and> map_option pc_phase (pm_remote (on_connection_event before 1 0x28)) = Some Complete
      \<and> map_option pc_error (pm_remote (on_connection_event before 2 0x28)) = Some (Some 0x28)"
proof -
  have f: "classify_instant 0xfffe 1 = Future 3" by (simp add: classify_Future)
  let ?c = "(context_new ChannelMapUpdate Remote \<lparr>pt_owner_token = 0, pt_generation = 0\<rparr> 1 None (Some 1) None)\<lparr>pc_phase := AwaitingInstant\<rparr>"
  have c: "context_of \<lparr>pm_local = None, pm_remote = Some ?c\<rparr> Remote = Some ?c" "pc_phase ?c = AwaitingInstant" "pc_instant ?c = Some 1"
    by (simp_all add: context_new_def context_of_def)
  have w: "(0xfffe + 3 :: u16) = 1" "(1 + 1 :: u16) = 2" "unat (3 :: u16) = 3" by simp_all
  have r: "context_of m Remote = pm_remote m" for m by (simp add: context_of_def)
  show ?thesis using llcp_instant_exact [OF c f, where er = "0x28"] unfolding w r Let_def by simp
qed

end
