(* ===== verification/Advertising.thy ===== *)
theory Advertising
  imports Control_Pdu
begin

text \<open>
  Legacy advertising PDUs, \<^verbatim>\<open>crates/ble-controller/src/advertising.rs\<close>: device addresses,
  the bounded advertising-data buffer, the builders of ADV_IND, SCAN_RSP and CONNECT_IND and
  the parsers of advertisements, SCAN_REQ and CONNECT_IND. Output arrays are arguments whose
  previous content is arbitrary; a builder returns the slice it returns in the source.
\<close>

definition MAX_LEGACY_ADV_DATA_LEN :: nat where "MAX_LEGACY_ADV_DATA_LEN = 31"
definition MAX_LEGACY_ADV_PDU_LEN :: nat where "MAX_LEGACY_ADV_PDU_LEN = 2 + 6 + MAX_LEGACY_ADV_DATA_LEN"
definition CONNECT_IND_PAYLOAD_LEN :: nat where "CONNECT_IND_PAYLOAD_LEN = 34"

section \<open>Addresses\<close>

datatype address_kind = Public | Random

record device_address =
  da_bytes :: bytes
  da_kind :: address_kind

definition address_public :: "bytes \<Rightarrow> device_address" where
  "address_public b = \<lparr>da_bytes = b, da_kind = Public\<rparr>"

definition random_static :: "bytes \<Rightarrow> radio_error + device_address" where
  "random_static b =
     (let random_part_all_zero = b ! 0 = 0 \<and> b ! 1 = 0 \<and> b ! 2 = 0 \<and> b ! 3 = 0 \<and> b ! 4 = 0
            \<and> b ! 5 AND 0x3f = 0;
          random_part_all_one = b ! 0 = 0xff \<and> b ! 1 = 0xff \<and> b ! 2 = 0xff \<and> b ! 3 = 0xff \<and> b ! 4 = 0xff
            \<and> b ! 5 AND 0x3f = 0x3f
      in if b ! 5 AND 0xc0 \<noteq> 0xc0 \<or> random_part_all_zero \<or> random_part_all_one then Inl Err_InvalidPacket
         else Inr \<lparr>da_bytes = b, da_kind = Random\<rparr>)"

section \<open>Parsing advertisements\<close>

record legacy_advertisement =
  la_event_type :: u8
  la_address :: device_address
  la_data :: bytes

definition parse_legacy_advertisement :: "bytes \<Rightarrow> radio_error + legacy_advertisement" where
  "parse_legacy_advertisement packet =
     (if length packet < 8 then Inl Err_InvalidPacket
      else (let payload_len = unat (packet ! 1 AND 0x3f) in
        if \<not> (6 \<le> payload_len \<and> payload_len \<le> 37) \<or> length packet \<noteq> payload_len + 2 then Inl Err_InvalidPacket
        else (let pdu_type = packet ! 0 AND 0x0f;
                  kind =
                    (if pdu_type = 0x00 then Some (0, 8)
                     else if pdu_type = 0x01 \<and> payload_len = 12 then Some (1, 14)
                     else if pdu_type = 0x02 then Some (3, 8)
                     else if pdu_type = 0x04 then Some (4, 8)
                     else if pdu_type = 0x06 then Some (2, 8)
                     else None)
              in case kind of None \<Rightarrow> Inl Err_InvalidPacket
                 | Some (event_type, data_offset) \<Rightarrow>
                     Inr \<lparr>la_event_type = event_type,
                          la_address = \<lparr>da_bytes = slice_of packet 2 8,
                            da_kind = (if packet ! 0 AND push_bit 6 1 \<noteq> 0 then Random else Public)\<rparr>,
                          la_data = slice_of packet data_offset (payload_len + 2)\<rparr>)))"

section \<open>Advertising data\<close>

record advertising_data =
  ad_bytes :: bytes
  ad_len :: nat

definition advertising_data_new :: advertising_data where
  "advertising_data_new = \<lparr>ad_bytes = replicate MAX_LEGACY_ADV_DATA_LEN 0, ad_len = 0\<rparr>"

definition push :: "advertising_data \<Rightarrow> u8 \<Rightarrow> bytes \<Rightarrow> radio_error + advertising_data" where
  "push d ad_type value =
     (case checked_add_usize (length value) 2 of None \<Rightarrow> Inl Err_InvalidPacket
      | Some field_len \<Rightarrow>
        (case checked_add_usize (ad_len d) field_len of None \<Rightarrow> Inl Err_InvalidPacket
         | Some ending \<Rightarrow>
             if length value > 255 - 1 \<or> ending > length (ad_bytes d) then Inl Err_InvalidPacket
             else (let b1 = (ad_bytes d)[ad_len d := word_of_nat (length value + 1)];
                       b2 = b1[ad_len d + 1 := ad_type];
                       b3 = splice b2 (ad_len d + 2) value
                   in Inr \<lparr>ad_bytes = b3, ad_len = ending\<rparr>)))"

definition as_bytes :: "advertising_data \<Rightarrow> bytes" where
  "as_bytes d = take (ad_len d) (ad_bytes d)"

section \<open>Building advertisements\<close>

definition build_adv_ind :: "device_address \<Rightarrow> advertising_data \<Rightarrow> bytes \<Rightarrow> radio_error + bytes" where
  "build_adv_ind address data out =
     (let payload_len = 6 + ad_len data;
          pdu_len = 2 + payload_len;
          o1 = out[0 := (case da_kind address of Public \<Rightarrow> 0x00 | Random \<Rightarrow> push_bit 6 1)];
          o2 = o1[1 := word_of_nat payload_len];
          o3 = splice o2 2 (da_bytes address);
          o4 = splice o3 8 (as_bytes data)
      in Inr (take pdu_len o4))"

definition build_scan_rsp :: "device_address \<Rightarrow> advertising_data \<Rightarrow> bytes \<Rightarrow> radio_error + bytes" where
  "build_scan_rsp address data out =
     (let payload_len = 6 + ad_len data;
          pdu_len = 2 + payload_len;
          o1 = out[0 := 0x04 OR (case da_kind address of Public \<Rightarrow> 0 | Random \<Rightarrow> push_bit 6 1)];
          o2 = o1[1 := word_of_nat payload_len];
          o3 = splice o2 2 (da_bytes address);
          o4 = splice o3 8 (as_bytes data)
      in Inr (take pdu_len o4))"

definition is_scan_request :: "bytes \<Rightarrow> device_address \<Rightarrow> bool" where
  "is_scan_request packet address =
     (length packet \<ge> 14 \<and> packet ! 0 AND 0x0f = 0x03 \<and> packet ! 1 AND 0x3f = 12
      \<and> slice_of packet 8 14 = da_bytes address)"

section \<open>CONNECT\_IND\<close>

record connect_ind =
  ci_initiator_address :: bytes
  ci_initiator_address_random :: bool
  ci_access_address :: u32
  ci_crc_init :: u32
  ci_window_size :: u8
  ci_window_offset :: u16
  ci_interval :: u16
  ci_latency :: u16
  ci_supervision_timeout :: u16
  ci_channel_map :: bytes
  ci_hop_increment :: u8
  ci_sleep_clock_accuracy :: u8

definition build_connect_ind ::
    "device_address \<Rightarrow> device_address \<Rightarrow> connect_ind \<Rightarrow> radio_error + bytes" where
  "build_connect_ind initiator advertiser c =
     (if ci_initiator_address c \<noteq> da_bytes initiator
        \<or> ci_initiator_address_random c \<noteq> (da_kind initiator = Random)
        \<or> \<not> data_access_address_is_valid (ci_access_address c) False
        \<or> \<not> (5 \<le> ci_hop_increment c \<and> ci_hop_increment c \<le> 16)
        \<or> ci_sleep_clock_accuracy c > 7
        \<or> \<not> connection_timing_is_valid (ci_window_size c) (ci_window_offset c) (ci_interval c) (ci_latency c)
             (ci_supervision_timeout c)
        \<or> \<not> data_channel_map_is_valid (ci_channel_map c)
      then Inl Err_InvalidPacket
      else (let o0 = replicate (2 + CONNECT_IND_PAYLOAD_LEN) 0;
                o1 = o0[0 := 0x05 OR (if da_kind initiator = Random then push_bit 6 1 else 0)
                             OR (if da_kind advertiser = Random then push_bit 7 1 else 0)];
                o2 = o1[1 := word_of_nat CONNECT_IND_PAYLOAD_LEN];
                o3 = splice o2 2 (da_bytes initiator);
                o4 = splice o3 8 (da_bytes advertiser);
                o5 = splice o4 14 (u32_to_le (ci_access_address c));
                o6 = o5[18 := ucast (ci_crc_init c)];
                o7 = o6[19 := ucast (drop_bit 8 (ci_crc_init c))];
                o8 = o7[20 := ucast (drop_bit 16 (ci_crc_init c))];
                o9 = o8[21 := ci_window_size c];
                o10 = splice o9 22 (u16_to_le (ci_window_offset c));
                o11 = splice o10 24 (u16_to_le (ci_interval c));
                o12 = splice o11 26 (u16_to_le (ci_latency c));
                o13 = splice o12 28 (u16_to_le (ci_supervision_timeout c));
                o14 = splice o13 30 (ci_channel_map c);
                o15 = o14[35 := ci_hop_increment c OR push_bit 5 (ci_sleep_clock_accuracy c)]
            in Inr o15))"

datatype connect_ind_parse_error = NotConnectInd | InvalidLength | DifferentAdvertiser | InvalidAccessAddress
  | InvalidHopIncrement | InvalidTiming | InvalidChannelMap

definition parse_connect_ind_detailed :: "bytes \<Rightarrow> device_address \<Rightarrow> connect_ind_parse_error + connect_ind" where
  "parse_connect_ind_detailed packet address =
     (if length packet < 2 + CONNECT_IND_PAYLOAD_LEN \<or> packet ! 0 AND 0x0f \<noteq> 0x05 then Inl NotConnectInd
      else if packet ! 1 AND 0x3f \<noteq> word_of_nat CONNECT_IND_PAYLOAD_LEN then Inl InvalidLength
      else (let payload = slice_of packet 2 (2 + CONNECT_IND_PAYLOAD_LEN) in
        if slice_of payload 6 12 \<noteq> da_bytes address then Inl DifferentAdvertiser
        else (let access_address = u32_from_le (payload ! 12) (payload ! 13) (payload ! 14) (payload ! 15);
                  crc_init = ucast (payload ! 16) OR push_bit 8 (ucast (payload ! 17)) OR push_bit 16 (ucast (payload ! 18));
                  hop_sca = payload ! 33
          in if \<not> data_access_address_is_valid access_address False then Inl InvalidAccessAddress
             else if \<not> (5 \<le> hop_sca AND 0x1f \<and> hop_sca AND 0x1f \<le> 16) then Inl InvalidHopIncrement
             else (let connection =
                     \<lparr>ci_initiator_address = slice_of payload 0 6,
                      ci_initiator_address_random = (packet ! 0 AND push_bit 6 1 \<noteq> 0),
                      ci_access_address = access_address, ci_crc_init = crc_init,
                      ci_window_size = payload ! 19,
                      ci_window_offset = u16_from_le (payload ! 20) (payload ! 21),
                      ci_interval = u16_from_le (payload ! 22) (payload ! 23),
                      ci_latency = u16_from_le (payload ! 24) (payload ! 25),
                      ci_supervision_timeout = u16_from_le (payload ! 26) (payload ! 27),
                      ci_channel_map = slice_of payload 28 33,
                      ci_hop_increment = hop_sca AND 0x1f,
                      ci_sleep_clock_accuracy = drop_bit 5 hop_sca\<rparr>
                   in if \<not> connection_timing_is_valid (ci_window_size connection) (ci_window_offset connection)
                            (ci_interval connection) (ci_latency connection) (ci_supervision_timeout connection)
                      then Inl InvalidTiming
                      else if \<not> data_channel_map_is_valid (ci_channel_map connection) then Inl InvalidChannelMap
                      else Inr connection))))"

definition parse_connect_ind :: "bytes \<Rightarrow> device_address \<Rightarrow> radio_error + connect_ind option" where
  "parse_connect_ind packet address =
     (case parse_connect_ind_detailed packet address of
        Inr connection \<Rightarrow> Inr (Some connection)
      | Inl NotConnectInd \<Rightarrow> Inr None
      | Inl DifferentAdvertiser \<Rightarrow> Inr None
      | Inl _ \<Rightarrow> Inl Err_InvalidPacket)"

section \<open>Lemmas: advertising data\<close>

definition ad_ok :: "advertising_data \<Rightarrow> bool" where
  "ad_ok d \<longleftrightarrow> length (ad_bytes d) = 31 \<and> ad_len d \<le> 31"

text \<open>One AD structure, and the reader of a sequence of them.\<close>

fun ad_field :: "u8 \<times> bytes \<Rightarrow> bytes" where
  "ad_field (t, v) = word_of_nat (length v + 1) # t # v"

function ad_parse :: "bytes \<Rightarrow> (u8 \<times> bytes) list" where
  "ad_parse bs =
     (case bs of n # t # rest \<Rightarrow>
        (if n = 0 then [] else (t, take (unat n - 1) rest) # ad_parse (drop (unat n - 1) rest))
      | _ \<Rightarrow> [])"
  by pat_completeness auto
termination
  by (relation "measure length") auto

declare ad_parse.simps [simp del]

lemma length_as_bytes: "ad_ok d \<Longrightarrow> length (as_bytes d) = ad_len d"
  by (simp add: ad_ok_def as_bytes_def)

lemma push_ok:
  assumes "ad_ok d"
  shows "push d t v = (if ad_len d + length v + 2 \<le> 31
    then Inr \<lparr>ad_bytes = take (ad_len d) (ad_bytes d) @ ad_field (t, v) @ drop (ad_len d + length v + 2) (ad_bytes d),
              ad_len = ad_len d + length v + 2\<rparr>
    else Inl Err_InvalidPacket)"
proof (cases "ad_len d + length v + 2 \<le> 31")
  case True
  have l: "length (ad_bytes d) = 31" using assms by (simp add: ad_ok_def)
  have "splice (((ad_bytes d)[ad_len d := word_of_nat (length v + 1)])[ad_len d + 1 := t]) (ad_len d + 2) v =
      take (ad_len d) (ad_bytes d) @ ad_field (t, v) @ drop (ad_len d + length v + 2) (ad_bytes d)"
    using True l
    by (intro nth_equalityI) (auto simp: splice_def nth_append nth_list_update nth_Cons' add.commute)
  with True l show ?thesis
    by (auto simp: push_def checked_add_usize_def Let_def add.commute)
next
  case False
  with assms show ?thesis by (auto simp: push_def checked_add_usize_def ad_ok_def Let_def)
qed

text \<open>A sequence of \<open>push\<close> calls that stops at the first error.\<close>

fun push_all :: "advertising_data \<Rightarrow> (u8 \<times> bytes) list \<Rightarrow> radio_error + advertising_data" where
  "push_all d [] = Inr d"
| "push_all d ((t, v) # fs) = (case push d t v of Inl e \<Rightarrow> Inl e | Inr d' \<Rightarrow> push_all d' fs)"

lemma push_as_bytes:
  assumes "ad_ok d" "push d t v = Inr d'"
  shows "ad_ok d' \<and> as_bytes d' = as_bytes d @ ad_field (t, v) \<and> ad_len d' = ad_len d + length v + 2"
  using assms(2) unfolding push_ok [OF assms(1)] using assms(1)
  by (auto simp: ad_ok_def as_bytes_def min_def split: if_splits)

lemma push_all_as_bytes:
  "ad_ok d \<Longrightarrow> push_all d fs = Inr d' \<Longrightarrow> ad_ok d' \<and> as_bytes d' = as_bytes d @ concat (map ad_field fs)"
proof (induction d fs rule: push_all.induct)
  case (2 d t v fs)
  then obtain d1 where d1: "push d t v = Inr d1" "push_all d1 fs = Inr d'" by (auto split: sum.splits)
  with 2 push_as_bytes [OF 2(2) d1(1)] show ?case by auto
qed simp

lemma push_all_ok:
  "ad_ok d \<Longrightarrow> (\<exists>d'. push_all d fs = Inr d') \<longleftrightarrow> ad_len d + (\<Sum>f\<leftarrow>fs. length (snd f) + 2) \<le> 31"
proof (induction d fs rule: push_all.induct)
  case (1 d)
  then show ?case by (simp add: ad_ok_def)
next
  case (2 d t v fs)
  show ?case
  proof (cases "push d t v")
    case (Inl e)
    then show ?thesis using push_ok [OF 2(2), of t v] by (auto split: if_splits)
  next
    case (Inr d1)
    from push_as_bytes [OF 2(2) Inr] 2(1) [OF Inr] Inr show ?thesis by (auto simp: add.assoc)
  qed
qed

lemma ad_parse_fields: "list_all (\<lambda>f. length (snd f) \<le> 254) fs \<Longrightarrow> ad_parse (concat (map ad_field fs)) = fs"
proof (induction fs)
  case Nil
  then show ?case by (simp add: ad_parse.simps)
next
  case (Cons f fs)
  obtain t v where f: "f = (t, v)" by (cases f)
  have u: "unat (word_of_nat (Suc (length v)) :: u8) = Suc (length v)"
    using Cons.prems f by (intro unat_of_nat_small) simp
  then have nz: "(word_of_nat (Suc (length v)) :: u8) \<noteq> 0" by (metis Zero_not_Suc unat_0)
  have "ad_parse (concat (map ad_field (f # fs))) = (t, v) # ad_parse (concat (map ad_field fs))"
    using nz u by (subst ad_parse.simps) (simp add: f)
  with Cons f show ?case by simp
qed

lemma fields_bounded: "(\<Sum>f\<leftarrow>fs. length (snd f) + 2) \<le> 31 \<Longrightarrow> list_all (\<lambda>f. length (snd f) \<le> 254) (fs :: (u8 \<times> bytes) list)"
  by (induction fs) auto

lemma ad_ok_new: "ad_ok advertising_data_new" "as_bytes advertising_data_new = []" "ad_len advertising_data_new = 0"
  by (simp_all add: ad_ok_def advertising_data_new_def as_bytes_def MAX_LEGACY_ADV_DATA_LEN_def)

section \<open>Lemmas: PDU layout\<close>

lemma build_adv_layout:
  assumes "length out = 39" "length (da_bytes a) = 6" "ad_ok d"
  shows "take (2 + (6 + ad_len d)) (splice (splice (out[0 := h, 1 := n]) 2 (da_bytes a)) 8 (as_bytes d)) =
    [h, n] @ da_bytes a @ as_bytes d"
proof -
  obtain x y rest where o: "out = x # y # rest" "length rest = 37"
    using assms(1) by (auto simp: length_Suc_conv numeral_eq_Suc)
  have "splice (out[0 := h, 1 := n]) 2 (da_bytes a) = [h, n] @ da_bytes a @ drop 6 rest"
    using assms(2) by (simp add: o splice_def numeral_2_eq_2)
  moreover have "splice ([h, n] @ da_bytes a @ drop 6 rest) 8 (as_bytes d) =
      [h, n] @ da_bytes a @ as_bytes d @ drop (6 + ad_len d) rest"
  proof -
    have "drop (ad_len d + 8) ([h, n] @ da_bytes a @ drop 6 rest) = drop (6 + ad_len d) rest"
      unfolding drop_append using assms(2) by (simp add: add.commute)
    then show ?thesis using assms(2,3) by (simp add: splice_def length_as_bytes add.commute [of 8])
  qed
  ultimately have "splice (splice (out[0 := h, 1 := n]) 2 (da_bytes a)) 8 (as_bytes d) =
      ([h, n] @ da_bytes a @ as_bytes d) @ drop (6 + ad_len d) rest" by simp
  moreover have "2 + (6 + ad_len d) = length ([h, n] @ da_bytes a @ as_bytes d)"
    using assms(2,3) by (simp add: length_as_bytes)
  ultimately show ?thesis by (metis append_eq_conv_conj)
qed

lemma build_adv_ind_layout:
  assumes "length out = MAX_LEGACY_ADV_PDU_LEN" "length (da_bytes a) = 6" "ad_ok d"
  shows "build_adv_ind a d out =
    Inr ([case da_kind a of Public \<Rightarrow> 0 | Random \<Rightarrow> push_bit 6 1, word_of_nat (6 + ad_len d)] @ da_bytes a @ as_bytes d)"
  using assms build_adv_layout [of out a d]
  by (simp only: build_adv_ind_def Let_def MAX_LEGACY_ADV_PDU_LEN_def MAX_LEGACY_ADV_DATA_LEN_def)

lemma build_scan_rsp_layout:
  assumes "length out = MAX_LEGACY_ADV_PDU_LEN" "length (da_bytes a) = 6" "ad_ok d"
  shows "build_scan_rsp a d out =
    Inr ([4 OR (case da_kind a of Public \<Rightarrow> 0 | Random \<Rightarrow> push_bit 6 1), word_of_nat (6 + ad_len d)] @ da_bytes a @ as_bytes d)"
  using assms build_adv_layout [of out a d]
  by (simp only: build_scan_rsp_def Let_def MAX_LEGACY_ADV_PDU_LEN_def MAX_LEGACY_ADV_DATA_LEN_def)

lemma parse_legacy_layout:
  assumes "length ab = 6" "length data \<le> 31" "h AND 0x0f = t" "t = 0 \<and> ev = 0 \<or> t = 4 \<and> ev = 4"
  shows "parse_legacy_advertisement ([h, word_of_nat (6 + length data)] @ ab @ data) =
    Inr \<lparr>la_event_type = ev, la_address = \<lparr>da_bytes = ab, da_kind = (if h AND push_bit 6 1 \<noteq> 0 then Random else Public)\<rparr>,
         la_data = data\<rparr>"
proof -
  have m: "(0x3f :: u8) = mask 6" by (simp add: mask_eq_exp_minus_1)
  have n: "unat (word_of_nat (6 + length data) :: u8) = 6 + length data"
    using assms(2) by (intro unat_of_nat_small) simp
  then have "(word_of_nat (6 + length data) :: u8) AND 0x3f = word_of_nat (6 + length data)"
    unfolding m using assms(2) by (intro and_mask_small) simp
  with n have p: "unat (([h, word_of_nat (6 + length data)] @ ab @ data) ! 1 AND 0x3f) = 6 + length data" by simp
  define pk where "pk = [h, word_of_nat (6 + length data)] @ ab @ data"
  have sl: "slice_of pk 2 8 = ab" "slice_of pk 8 (8 + length data) = data"
    using assms(1) by (simp_all add: pk_def slice_of_def numeral_eq_Suc)
  have len: "length pk = 8 + length data" and p0: "pk ! 0 = h" using assms(1) by (simp_all add: pk_def)
  show ?thesis
    using assms(2,4) unfolding pk_def [symmetric] parse_legacy_advertisement_def p [folded pk_def] Let_def len p0 assms(3)
    by (elim disjE conjE) (simp_all add: sl)
qed

text \<open>The layout of a CONNECT\_IND, and the parser read off it.\<close>

definition connect_ind_bytes :: "u8 \<Rightarrow> bytes \<Rightarrow> bytes \<Rightarrow> connect_ind \<Rightarrow> bytes" where
  "connect_ind_bytes h ib ab c = [h, 34] @ ib @ ab @ u32_to_le (ci_access_address c)
     @ [ucast (ci_crc_init c), ucast (drop_bit 8 (ci_crc_init c)), ucast (drop_bit 16 (ci_crc_init c)), ci_window_size c]
     @ u16_to_le (ci_window_offset c) @ u16_to_le (ci_interval c) @ u16_to_le (ci_latency c)
     @ u16_to_le (ci_supervision_timeout c) @ ci_channel_map c
     @ [ci_hop_increment c OR push_bit 5 (ci_sleep_clock_accuracy c)]"

lemma list6: "length xs = 6 \<Longrightarrow> \<exists>a b c d e f. xs = [a, b, c, d, e, f]"
  by (auto simp: length_Suc_conv numeral_eq_Suc)

lemma list5: "length xs = 5 \<Longrightarrow> \<exists>a b c d e. xs = [a, b, c, d, e]"
  by (auto simp: length_Suc_conv numeral_eq_Suc)

lemma build_connect_ind_layout:
  assumes "length (da_bytes i) = 6" "length (da_bytes a) = 6" "length (ci_channel_map c) = 5"
    and "build_connect_ind i a c = Inr p"
  shows "p = connect_ind_bytes (5 OR (if da_kind i = Random then push_bit 6 1 else 0)
      OR (if da_kind a = Random then push_bit 7 1 else 0)) (da_bytes i) (da_bytes a) c"
proof -
  obtain i1 i2 i3 i4 i5 i6 where i: "da_bytes i = [i1, i2, i3, i4, i5, i6]" using list6 [OF assms(1)] by blast
  obtain a1 a2 a3 a4 a5 a6 where a: "da_bytes a = [a1, a2, a3, a4, a5, a6]" using list6 [OF assms(2)] by blast
  obtain m1 m2 m3 m4 m5 where m: "ci_channel_map c = [m1, m2, m3, m4, m5]" using list5 [OF assms(3)] by blast
  have r: "replicate 36 (0 :: u8) = [0, 0, 0, 0, 0, 0, 0, 0, 0, 0, 0, 0, 0, 0, 0, 0, 0, 0, 0, 0, 0, 0, 0, 0, 0, 0, 0, 0,
      0, 0, 0, 0, 0, 0, 0, 0]" by (simp add: numeral_eq_Suc)
  show ?thesis
    using assms(4) unfolding build_connect_ind_def Let_def CONNECT_IND_PAYLOAD_LEN_def
    by (simp add: connect_ind_bytes_def i a m r splice_def u16_to_le_def u32_to_le_def split: if_split_asm)
qed

lemma crc_init_roundtrip:
  assumes "unat (w :: u32) < 2 ^ 24"
  shows "ucast (ucast w :: u8) OR push_bit 8 (ucast (ucast (drop_bit 8 w) :: u8))
    OR push_bit 16 (ucast (ucast (drop_bit 16 w) :: u8)) = w"
proof -
  have z: "ucast (drop_bit 24 w) = (0 :: u8)"
  proof -
    have "drop_bit 24 w = 0" using assms by (simp add: word_eq_iff_unsigned [where ?'a = nat] unsigned_drop_bit_eq drop_bit_eq_div unat_div)
    then show ?thesis by simp
  qed
  show ?thesis using u32_from_to_le [of w] unfolding u32_from_le_def z by simp
qed

lemma hop_sca_fields:
  assumes "unat (h :: u8) < 32" "unat (s :: u8) < 8"
  shows "(h OR push_bit 5 s) AND 0x1f = h" "drop_bit 5 (h OR push_bit 5 s) = s"
proof -
  have m: "(0x1f :: u8) = mask 5" by (simp add: mask_eq_exp_minus_1)
  have h: "h AND mask 5 = h" using assms(1) by (intro and_mask_small) simp
  have hb: "n < 5" if "bit h n" for n using that h by (metis bit_and_iff bit_mask_iff)
  have "s AND mask 3 = s" using assms(2) by (intro and_mask_small) simp
  then have sb: "n < 3" if "bit s n" for n using that by (metis bit_and_iff bit_mask_iff)
  show "(h OR push_bit 5 s) AND 0x1f = h" unfolding m by (rule bit_eqI) (auto simp: bit_simps dest: hb)
  show "drop_bit 5 (h OR push_bit 5 s) = s" by (rule bit_eqI) (auto simp: bit_simps dest: hb sb)
qed

lemma parse_connect_ind_layout:
  assumes "length ib = 6" "length (da_bytes a) = 6" "length (ci_channel_map c) = 5"
    and "h AND 0x0f = 5" "unat (ci_crc_init c) < 2 ^ 24"
    and "5 \<le> ci_hop_increment c" "ci_hop_increment c \<le> 16" "ci_sleep_clock_accuracy c \<le> 7"
    and "data_access_address_is_valid (ci_access_address c) False" "data_channel_map_is_valid (ci_channel_map c)"
    and "connection_timing_is_valid (ci_window_size c) (ci_window_offset c) (ci_interval c) (ci_latency c) (ci_supervision_timeout c)"
    and "ci_initiator_address c = ib" "ci_initiator_address_random c = (h AND push_bit 6 1 \<noteq> 0)"
  shows "parse_connect_ind_detailed (connect_ind_bytes h ib (da_bytes a) c) a = Inr c"
proof -
  define pk where "pk = connect_ind_bytes h ib (da_bytes a) c"
  obtain i1 i2 i3 i4 i5 i6 where i: "ib = [i1, i2, i3, i4, i5, i6]" using list6 [OF assms(1)] by blast
  obtain a1 a2 a3 a4 a5 a6 where a: "da_bytes a = [a1, a2, a3, a4, a5, a6]" using list6 [OF assms(2)] by blast
  obtain m1 m2 m3 m4 m5 where m: "ci_channel_map c = [m1, m2, m3, m4, m5]" using list5 [OF assms(3)] by blast
  note lay = connect_ind_bytes_def i a m u16_to_le_def u32_to_le_def slice_of_def
  have pl: "length pk = 36" "pk ! 0 = h" "pk ! 1 = 34" by (simp_all add: pk_def lay)
  define py where "py = slice_of pk 2 36"
  have py: "slice_of py 6 12 = da_bytes a" "slice_of py 0 6 = ib" "slice_of py 28 33 = ci_channel_map c"
    "py ! 19 = ci_window_size c" "py ! 33 = ci_hop_increment c OR push_bit 5 (ci_sleep_clock_accuracy c)"
    by (simp_all add: py_def pk_def lay)
  have w: "u32_from_le (py ! 12) (py ! 13) (py ! 14) (py ! 15) = ci_access_address c"
    "u16_from_le (py ! 20) (py ! 21) = ci_window_offset c" "u16_from_le (py ! 22) (py ! 23) = ci_interval c"
    "u16_from_le (py ! 24) (py ! 25) = ci_latency c" "u16_from_le (py ! 26) (py ! 27) = ci_supervision_timeout c"
    by (simp_all add: py_def pk_def lay)
  have crc: "ucast (py ! 16) OR push_bit 8 (ucast (py ! 17)) OR push_bit 16 (ucast (py ! 18)) = ci_crc_init c"
    using crc_init_roundtrip [OF assms(5)] by (simp add: py_def pk_def lay)
  have hs: "py ! 33 AND 0x1f = ci_hop_increment c" "drop_bit 5 (py ! 33) = ci_sleep_clock_accuracy c"
    using hop_sca_fields [of "ci_hop_increment c" "ci_sleep_clock_accuracy c"] assms(7,8)
    by (simp_all add: py word_le_nat_alt)
  have l34: "(34 :: u8) AND 0x3f = 34" by simp
  show ?thesis
    unfolding parse_connect_ind_detailed_def CONNECT_IND_PAYLOAD_LEN_def pk_def [symmetric] Let_def
    using assms(4,6,7,9-13) pl
    by (simp add: py_def [symmetric] py(1-4) w crc hs)
qed

text \<open>What the connection may rely on after an accepted CONNECT\_IND.\<close>

lemma parse_connect_ind_detailed_ok:
  assumes "parse_connect_ind_detailed p a = Inr c"
  shows "length p \<ge> 36 \<and> slice_of p 8 14 = da_bytes a \<and> length (ci_channel_map c) = 5 \<and> length (ci_initiator_address c) = 6
    \<and> data_channel_map_is_valid (ci_channel_map c) \<and> 5 \<le> ci_hop_increment c \<and> ci_hop_increment c \<le> 16
    \<and> data_access_address_is_valid (ci_access_address c) False
    \<and> connection_timing_is_valid (ci_window_size c) (ci_window_offset c) (ci_interval c) (ci_latency c) (ci_supervision_timeout c)"
proof -
  have l: "length p \<ge> 36"
    using assms by (auto simp: parse_connect_ind_detailed_def CONNECT_IND_PAYLOAD_LEN_def split: if_split_asm)
  have "slice_of (slice_of p 2 36) 6 12 = slice_of p 8 14" by (simp add: slice_of_def drop_take)
  with assms l show ?thesis
    unfolding parse_connect_ind_detailed_def CONNECT_IND_PAYLOAD_LEN_def Let_def
    by (auto split: if_split_asm)
qed

text \<open>
  Only the type and TxAdd of the header, the six bits of the length and the 34 octets of the payload count.
\<close>

lemma parse_connect_ind_cong:
  assumes "36 \<le> length p" "36 \<le> length q" "slice_of p 2 36 = slice_of q 2 36" "p ! 0 AND 0x0f = q ! 0 AND 0x0f"
    and "p ! 1 AND 0x3f = q ! 1 AND 0x3f" "(p ! 0 AND push_bit 6 1 \<noteq> 0) = (q ! 0 AND push_bit 6 1 \<noteq> 0)"
  shows "parse_connect_ind_detailed p a = parse_connect_ind_detailed q a"
proof -
  have n: "2 + CONNECT_IND_PAYLOAD_LEN = 36" by (simp add: CONNECT_IND_PAYLOAD_LEN_def)
  show ?thesis using assms(1,2) unfolding parse_connect_ind_detailed_def n assms(3-6) Let_def by simp
qed

lemma list34:
  assumes "length (xs :: 'a list) = 34"
  shows "\<exists>a1 a2 a3 a4 a5 a6 b1 b2 b3 b4 b5 b6 c1 c2 c3 c4 c5 c6 d1 d2 d3 d4 d5 d6 e1 e2 e3 e4 e5 f1 f2 f3 f4 f5.
    xs = [a1, a2, a3, a4, a5, a6, b1, b2, b3, b4, b5, b6, c1, c2, c3, c4, c5, c6, d1, d2, d3, d4, d5, d6,
          e1, e2, e3, e4, e5, f1, f2, f3, f4, f5]"
proof -
  obtain a1 a2 a3 a4 a5 a6 where a: "take 6 xs = [a1, a2, a3, a4, a5, a6]" using list6 [of "take 6 xs"] assms by auto
  obtain b1 b2 b3 b4 b5 b6 where b: "take 6 (drop 6 xs) = [b1, b2, b3, b4, b5, b6]" using list6 [of "take 6 (drop 6 xs)"] assms by auto
  obtain c1 c2 c3 c4 c5 c6 where c: "take 6 (drop 12 xs) = [c1, c2, c3, c4, c5, c6]" using list6 [of "take 6 (drop 12 xs)"] assms by auto
  obtain d1 d2 d3 d4 d5 d6 where d: "take 6 (drop 18 xs) = [d1, d2, d3, d4, d5, d6]" using list6 [of "take 6 (drop 18 xs)"] assms by auto
  obtain e1 e2 e3 e4 e5 where e: "take 5 (drop 24 xs) = [e1, e2, e3, e4, e5]" using list5 [of "take 5 (drop 24 xs)"] assms by auto
  obtain f1 f2 f3 f4 f5 where f: "drop 29 xs = [f1, f2, f3, f4, f5]" using list5 [of "drop 29 xs"] assms by auto
  have "xs = take 6 xs @ take 6 (drop 6 xs) @ take 6 (drop 12 xs) @ take 6 (drop 18 xs) @ take 5 (drop 24 xs) @ drop 29 xs"
    using append_take_drop_id [of 6 xs] append_take_drop_id [of 6 "drop 6 xs"] append_take_drop_id [of 6 "drop 12 xs"]
      append_take_drop_id [of 6 "drop 18 xs"] append_take_drop_id [of 5 "drop 24 xs"]
    by simp
  then show ?thesis unfolding a b c d e f by simp
qed

lemma crc_init_octets:
  "u32_to_le (ucast (a :: u8) OR push_bit 8 (ucast (b :: u8)) OR push_bit 16 (ucast (c :: u8))) = [a, b, c, 0]"
  using u32_to_from_le [of a b c 0] by (simp add: u32_from_le_def)

lemma crc_init_bound:
  "unat (ucast (a :: u8) OR push_bit 8 (ucast (b :: u8)) OR push_bit 16 (ucast (c :: u8)) :: u32) < 2 ^ 24" (is "unat ?w < _")
proof -
  define w where "w = ?w"
  have "w = take_bit 24 w"
    unfolding w_def by (rule bit_eqI) (auto simp: bit_simps dest: bit_imp_le_length)
  then have "unat w = take_bit 24 (unat w)" by (metis unsigned_take_bit_eq)
  then show ?thesis unfolding w_def [symmetric] by (metis take_bit_nat_less_exp)
qed

lemma hop_sca_octet: "(x :: u8) AND 0x1f OR push_bit 5 (drop_bit 5 x) = x"
proof -
  have m: "(0x1f :: u8) = mask 5" by (simp add: mask_eq_exp_minus_1)
  show ?thesis unfolding m by (rule bit_eqI) (auto simp: bit_simps, metis le_add_diff_inverse not_less)
qed

text \<open>The payload of an accepted PDU is the encoding of what was parsed.\<close>

lemma parse_connect_ind_encodes:
  assumes "parse_connect_ind_detailed q a = Inr c"
  shows "36 \<le> length q \<and> q ! 0 AND 0x0f = 5 \<and> q ! 1 AND 0x3f = 34
    \<and> ci_initiator_address_random c = (q ! 0 AND push_bit 6 1 \<noteq> 0) \<and> ci_sleep_clock_accuracy c \<le> 7
    \<and> unat (ci_crc_init c) < 2 ^ 24
    \<and> slice_of q 2 36 = drop 2 (connect_ind_bytes h (ci_initiator_address c) (da_bytes a) c)"
proof -
  note d = assms [unfolded parse_connect_ind_detailed_def CONNECT_IND_PAYLOAD_LEN_def Let_def, simplified]
  have l: "36 \<le> length q" "q ! 0 AND 0x0f = 5" "q ! 1 AND 0x3f = 34" using d by (auto split: if_split_asm)
  define py where "py = slice_of q 2 36"
  have len: "length py = 34" using l by (simp add: py_def)
  have ad: "slice_of py 6 12 = da_bytes a" unfolding py_def using d by (simp split: if_split_asm)
  have c: "c = \<lparr>ci_initiator_address = slice_of py 0 6, ci_initiator_address_random = (q ! 0 AND push_bit 6 1 \<noteq> 0),
      ci_access_address = u32_from_le (py ! 12) (py ! 13) (py ! 14) (py ! 15),
      ci_crc_init = ucast (py ! 16) OR push_bit 8 (ucast (py ! 17)) OR push_bit 16 (ucast (py ! 18)),
      ci_window_size = py ! 19, ci_window_offset = u16_from_le (py ! 20) (py ! 21),
      ci_interval = u16_from_le (py ! 22) (py ! 23), ci_latency = u16_from_le (py ! 24) (py ! 25),
      ci_supervision_timeout = u16_from_le (py ! 26) (py ! 27), ci_channel_map = slice_of py 28 33,
      ci_hop_increment = py ! 33 AND 0x1f, ci_sleep_clock_accuracy = drop_bit 5 (py ! 33)\<rparr>"
    unfolding py_def using d by (simp split: if_split_asm)
  have crc: "[ucast (ci_crc_init c), ucast (drop_bit 8 (ci_crc_init c)), ucast (drop_bit 16 (ci_crc_init c))] = [py ! 16, py ! 17, py ! 18]"
    using crc_init_octets [of "py ! 16" "py ! 17" "py ! 18"] by (simp add: c u32_to_le_def)
  have "drop_bit 5 (py ! 33) \<le> 7"
    using unsigned_less [of "py ! 33", where ?'a = nat] by (simp add: word_le_nat_alt drop_bit_eq_div unat_div)
  moreover have "slice_of q 2 36 = drop 2 (connect_ind_bytes h (ci_initiator_address c) (da_bytes a) c)"
    using list34 [OF len] crc
    unfolding py_def [symmetric] ad [symmetric] connect_ind_bytes_def
    by (elim exE) (simp add: c slice_of_def hop_sca_octet)
  ultimately show ?thesis using l crc_init_bound [of "py ! 16" "py ! 17" "py ! 18"] by (simp add: c)
qed

lemma parse_connect_ind_Some:
  "parse_connect_ind p a = Inr (Some c) \<longleftrightarrow> parse_connect_ind_detailed p a = Inr c"
  by (auto simp: parse_connect_ind_def split: sum.splits connect_ind_parse_error.splits)

lemma build_connect_ind_parses:
  assumes "length (da_bytes i) = 6" "length (da_bytes a) = 6" "length (ci_channel_map c) = 5"
    and "unat (ci_crc_init c) < 2 ^ 24" "build_connect_ind i a c = Inr p"
  shows "parse_connect_ind_detailed p a = Inr c"
proof -
  let ?h = "5 OR (if da_kind i = Random then push_bit 6 1 else 0) OR (if da_kind a = Random then push_bit 7 1 else 0) :: u8"
  have p: "p = connect_ind_bytes ?h (da_bytes i) (da_bytes a) c"
    by (rule build_connect_ind_layout [OF assms(1-3,5)])
  have h: "?h AND 0x0f = 5" "?h AND push_bit 6 1 \<noteq> 0 \<longleftrightarrow> da_kind i = Random" by simp_all
  have v: "ci_initiator_address c = da_bytes i" "ci_initiator_address_random c = (da_kind i = Random)"
    "5 \<le> ci_hop_increment c" "ci_hop_increment c \<le> 16" "ci_sleep_clock_accuracy c \<le> 7"
    "data_access_address_is_valid (ci_access_address c) False" "data_channel_map_is_valid (ci_channel_map c)"
    "connection_timing_is_valid (ci_window_size c) (ci_window_offset c) (ci_interval c) (ci_latency c) (ci_supervision_timeout c)"
    using assms(5) by (auto simp: build_connect_ind_def not_less split: if_split_asm)
  show ?thesis unfolding p using assms(1-4) v h by (intro parse_connect_ind_layout) auto
qed

definition initiator_of :: "connect_ind \<Rightarrow> device_address" where
  "initiator_of c = \<lparr>da_bytes = ci_initiator_address c, da_kind = (if ci_initiator_address_random c then Random else Public)\<rparr>"

lemma parse_connect_ind_exact:
  assumes a: "length (da_bytes a) = 6"
  shows "parse_connect_ind_detailed q a = Inr c \<longleftrightarrow>
         36 \<le> length q \<and> q ! 0 AND 0x0f = 0x05 \<and> q ! 1 AND 0x3f = 34
         \<and> ci_initiator_address_random c = (q ! 0 AND 0x40 \<noteq> 0)
         \<and> length (ci_initiator_address c) = 6 \<and> length (ci_channel_map c) = 5 \<and> unat (ci_crc_init c) < 2 ^ 24
         \<and> (\<exists>p'. build_connect_ind (initiator_of c) a c = Inr p' \<and> slice_of q 2 36 = drop 2 p')" (is "?L = ?R")
proof
  assume ?L
  note ok = parse_connect_ind_detailed_ok [OF \<open>?L\<close>] and enc = parse_connect_ind_encodes [OF \<open>?L\<close>]
  have "\<exists>p'. build_connect_ind (initiator_of c) a c = Inr p'"
    using ok enc [of 0] by (simp add: build_connect_ind_def initiator_of_def Let_def not_less)
  then obtain p' where p': "build_connect_ind (initiator_of c) a c = Inr p'" by blast
  have ib: "length (da_bytes (initiator_of c)) = 6" using ok by (simp add: initiator_of_def)
  have mp: "length (ci_channel_map c) = 5" using ok by simp
  have "slice_of q 2 36 = drop 2 p'"
    using build_connect_ind_layout [OF ib a mp p'] enc by (simp add: initiator_of_def)
  then show ?R using ok enc [of 0] p' by auto
next
  assume r: ?R
  then obtain p' where p': "build_connect_ind (initiator_of c) a c = Inr p'" "slice_of q 2 36 = drop 2 p'" by blast
  have ib: "length (da_bytes (initiator_of c)) = 6" and mp: "length (ci_channel_map c) = 5"
    using r by (auto simp: initiator_of_def)
  have crc: "unat (ci_crc_init c) < 2 ^ 24" using r by blast
  note lay = build_connect_ind_layout [OF ib a mp p'(1)]
  have pl: "length p' = 36" "p' ! 0 AND 0x0f = 5" "p' ! 1 = 34"
      "(p' ! 0 AND push_bit 6 1 \<noteq> 0) = ci_initiator_address_random c"
    using ib a mp unfolding lay by (simp_all add: connect_ind_bytes_def initiator_of_def)
  have "parse_connect_ind_detailed q a = parse_connect_ind_detailed p' a"
    using r pl p'(2) by (intro parse_connect_ind_cong) (auto simp: slice_of_def)
  then show ?L using build_connect_ind_parses [OF ib a mp crc p'(1)] by simp
qed

lemma all_46:
  "(\<forall>i<46. P (i div 8) (i mod 8)) \<longleftrightarrow> (\<forall>k<8. P 0 k) \<and> (\<forall>k<8. P 1 k) \<and> (\<forall>k<8. P 2 k) \<and> (\<forall>k<8. P 3 k)
     \<and> (\<forall>k<8. P 4 k) \<and> (\<forall>k<6. P (5 :: nat) (k :: nat))" (is "?L = ?R")
proof
  assume L: "?L"
  have "P j k" if "j < 5 \<and> k < 8 \<or> j = 5 \<and> k < 6" for j k
    using L [rule_format, of "8 * j + k"] that by auto
  then show ?R by simp
next
  assume R: "?R"
  show ?L
  proof (intro allI impI)
    fix i :: nat
    assume "i < 46"
    then have "i div 8 = 0 \<or> i div 8 = 1 \<or> i div 8 = 2 \<or> i div 8 = 3 \<or> i div 8 = 4 \<or> i div 8 = 5 \<and> i mod 8 < 6"
      by presburger
    then show "P (i div 8) (i mod 8)" using R by (elim disjE conjE) simp_all
  qed
qed

lemma u8_eq_iff: "(a :: u8) = b \<longleftrightarrow> (\<forall>n<8. bit a n = bit b n)"
  using bit_word_eqI [of a b] by auto

lemma lt_8_split: "n < (8 :: nat) \<longleftrightarrow> n < 6 \<or> n = 6 \<or> n = 7"
  by auto

lemma octet_clear: "(\<forall>k<8. \<not> bit (b :: u8) k) \<longleftrightarrow> b = 0"
  by (simp add: u8_eq_iff)

lemma octet_set: "(\<forall>k<8. bit (b :: u8) k) \<longleftrightarrow> b = 0xff"
proof -
  have m: "(0xff :: u8) = mask 8" by (simp add: mask_eq_exp_minus_1)
  show ?thesis unfolding m u8_eq_iff by (simp add: bit_mask_iff)
qed

lemma low6_clear: "(\<forall>k<6. \<not> bit (b :: u8) k) \<longleftrightarrow> b AND 0x3f = 0"
proof -
  have m: "(0x3f :: u8) = mask 6" by (simp add: mask_eq_exp_minus_1)
  show ?thesis unfolding m u8_eq_iff by (auto simp: bit_and_iff bit_mask_iff lt_8_split)
qed

lemma low6_set: "(\<forall>k<6. bit (b :: u8) k) \<longleftrightarrow> b AND 0x3f = 0x3f"
proof -
  have m: "(0x3f :: u8) = mask 6" by (simp add: mask_eq_exp_minus_1)
  show ?thesis unfolding m u8_eq_iff by (auto simp: bit_and_iff bit_mask_iff lt_8_split)
qed

lemma top2_set: "(b :: u8) AND 0xc0 = 0xc0 \<longleftrightarrow> bit b 7 \<and> bit b 6"
proof -
  have c: "(0xc0 :: u8) = NOT (mask 6)" by (simp add: mask_eq_exp_minus_1)
  show ?thesis unfolding c u8_eq_iff by (auto simp: bit_and_iff bit_not_iff bit_mask_iff lt_8_split)
qed

section \<open>Properties\<close>

text \<open>
  C15. A CONNECT\_IND built for validated parameters is parsed by the addressed advertiser to
  exactly those parameters, for every kind of either address (the CRC initial value has 24
  bits). Conversely the parser accepts a packet with the result \<open>c'\<close> exactly when it has at least 36 octets,
  type 5, a length field of 34 and the TxAdd bit of \<open>c'\<close>, and its 34 octets of payload are those that
  \<open>build_connect_ind\<close> gives for \<open>c'\<close> and this advertiser. The other header bits and what
  follows the payload are ignored, and never more is accepted than what can be built.
\<close>

theorem connect_ind_roundtrip:
  assumes "length (da_bytes i) = 6" "length (da_bytes a) = 6" "length (ci_channel_map c) = 5"
    and "unat (ci_crc_init c) < 2 ^ 24" "build_connect_ind i a c = Inr p"
  shows "parse_connect_ind p a = Inr (Some c) \<and> length p = 36
    \<and> (parse_connect_ind q a = Inr (Some c') \<longleftrightarrow>
         36 \<le> length q \<and> q ! 0 AND 0x0f = 0x05 \<and> q ! 1 AND 0x3f = 34
         \<and> ci_initiator_address_random c' = (q ! 0 AND 0x40 \<noteq> 0)
         \<and> length (ci_initiator_address c') = 6 \<and> length (ci_channel_map c') = 5 \<and> unat (ci_crc_init c') < 2 ^ 24
         \<and> (\<exists>p'. build_connect_ind (initiator_of c') a c' = Inr p' \<and> slice_of q 2 36 = drop 2 p'))"
proof -
  let ?h = "5 OR (if da_kind i = Random then push_bit 6 1 else 0) OR (if da_kind a = Random then push_bit 7 1 else 0) :: u8"
  have p: "p = connect_ind_bytes ?h (da_bytes i) (da_bytes a) c"
    by (rule build_connect_ind_layout [OF assms(1-3,5)])
  have "length p = 36" using assms(1-3) by (simp add: p connect_ind_bytes_def)
  then show ?thesis
    using build_connect_ind_parses [OF assms] parse_connect_ind_exact [OF assms(2)] by (simp add: parse_connect_ind_Some)
qed

definition example_connect :: connect_ind where
  "example_connect = \<lparr>ci_initiator_address = [1, 2, 3, 4, 5, 6], ci_initiator_address_random = True,
     ci_access_address = 0x50656a75, ci_crc_init = 0x123456, ci_window_size = 2, ci_window_offset = 0,
     ci_interval = 24, ci_latency = 0, ci_supervision_timeout = 72, ci_channel_map = [0xff, 0xff, 0xff, 0xff, 0x1f],
     ci_hop_increment = 7, ci_sleep_clock_accuracy = 5\<rparr>"

lemma full_map_valid: "data_channel_map_is_valid [0xff, 0xff, 0xff, 0xff, 0x1f]"
  by (simp add: data_channel_map_is_valid_def count_ones_def upt_rec)

lemma example_timing: "connection_timing_is_valid 2 0 24 0 72"
  by (simp add: connection_timing_is_valid_def)

theorem connect_ind_roundtrip_witness:
  "let i = \<lparr>da_bytes = [1, 2, 3, 4, 5, 6], da_kind = Random\<rparr>; a = \<lparr>da_bytes = [9, 8, 7, 6, 5, 4], da_kind = Public\<rparr>
   in \<exists>p. build_connect_ind i a example_connect = Inr p \<and> parse_connect_ind p a = Inr (Some example_connect)
        \<and> parse_connect_ind (p @ [0xff]) a = Inr (Some example_connect)"
proof -
  let ?i = "\<lparr>da_bytes = [1, 2, 3, 4, 5, 6], da_kind = Random\<rparr> :: device_address"
  let ?a = "\<lparr>da_bytes = [9, 8, 7, 6, 5, 4], da_kind = Public\<rparr> :: device_address"
  obtain p where p: "build_connect_ind ?i ?a example_connect = Inr p"
    using example_address full_map_valid example_timing
    by (simp add: build_connect_ind_def example_connect_def Let_def)
  have c: "length (ci_channel_map example_connect) = 5" "unat (ci_crc_init example_connect) < 2 ^ 24"
    by (simp_all add: example_connect_def)
  note r = connect_ind_roundtrip [OF _ _ c p, of q example_connect for q, simplified]
  define q where "q = p @ [0xff]"
  have q: "slice_of q 2 36 = slice_of p 2 36" "q ! 0 = p ! 0" "q ! Suc 0 = p ! Suc 0" "36 \<le> length q"
    using r [of p] by (simp_all add: q_def slice_of_def nth_append)
  have "parse_connect_ind q ?a = Inr (Some example_connect)" using r [of p] r [of q] unfolding q(1-3) using q(4) by simp
  then show ?thesis using p r [of p] unfolding Let_def q_def by blast
qed

text \<open>
  ADV\_IND and SCAN\_RSP PDUs round trip: whatever was in the output array, the parser reads
  back the event type, the address with its kind and the advertising data.
\<close>

theorem advertisement_roundtrip:
  assumes "length out = MAX_LEGACY_ADV_PDU_LEN" "length (da_bytes a) = 6" "ad_ok d"
  shows "(\<exists>p. build_adv_ind a d out = Inr p \<and>
       parse_legacy_advertisement p = Inr \<lparr>la_event_type = 0, la_address = a, la_data = as_bytes d\<rparr>)
    \<and> (\<exists>p. build_scan_rsp a d out = Inr p \<and>
       parse_legacy_advertisement p = Inr \<lparr>la_event_type = 4, la_address = a, la_data = as_bytes d\<rparr>)"
proof -
  have d: "length (as_bytes d) = ad_len d" "ad_len d \<le> 31" using assms(3) by (auto simp: length_as_bytes ad_ok_def)
  have k: "a = \<lparr>da_bytes = da_bytes a, da_kind = da_kind a\<rparr>" by (cases a) simp
  show ?thesis
    unfolding build_adv_ind_layout [OF assms] build_scan_rsp_layout [OF assms] d(1) [symmetric]
    using parse_legacy_layout [OF assms(2), of "as_bytes d"] d k
    by (cases "da_kind a") auto
qed

theorem advertisement_roundtrip_witness:
  "let a = \<lparr>da_bytes = [9, 8, 7, 6, 5, 4], da_kind = Random\<rparr> in
   \<exists>p. build_adv_ind a advertising_data_new (replicate 39 0xee) = Inr p \<and>
     parse_legacy_advertisement p = Inr \<lparr>la_event_type = 0, la_address = a, la_data = []\<rparr>"
  using advertisement_roundtrip [of "replicate 39 0xee" "\<lparr>da_bytes = [9, 8, 7, 6, 5, 4], da_kind = Random\<rparr>" advertising_data_new]
  by (simp add: ad_ok_new MAX_LEGACY_ADV_PDU_LEN_def MAX_LEGACY_ADV_DATA_LEN_def Let_def)

text \<open>
  C28. Advertising data keeps AD structures intact: pushing fields succeeds exactly when their
  structures fit in 31 octets, and the resulting octets parse back to the fields in order.
\<close>

theorem advertising_data_fields:
  "((\<exists>d. push_all advertising_data_new fs = Inr d) \<longleftrightarrow> (\<Sum>f\<leftarrow>fs. length (snd f) + 2) \<le> 31)
   \<and> (push_all advertising_data_new fs = Inr d \<longrightarrow> ad_ok d \<and> ad_parse (as_bytes d) = fs)"
proof -
  note ok = push_all_ok [OF ad_ok_new(1), of fs, unfolded ad_ok_new(3)]
  moreover have "ad_ok d \<and> ad_parse (as_bytes d) = fs" if p: "push_all advertising_data_new fs = Inr d"
  proof -
    have "list_all (\<lambda>f. length (snd f) \<le> 254) fs" using p ok by (intro fields_bounded) auto
    with push_all_as_bytes [OF ad_ok_new(1) p] show ?thesis by (simp add: ad_ok_new ad_parse_fields)
  qed
  ultimately show ?thesis by simp
qed

theorem advertising_data_fields_witness:
  "\<exists>d. push_all advertising_data_new [(0x01, [0x06]), (0x09, [0x4b, 0x42])] = Inr d
     \<and> ad_parse (as_bytes d) = [(0x01, [0x06]), (0x09, [0x4b, 0x42])]"
  using advertising_data_fields [of "[(0x01, [0x06]), (0x09, [0x4b, 0x42])]"] by auto

text \<open>
  A static random address is accepted exactly when its two top bits are set and the 46
  random bits are neither all zero nor all one.
\<close>

theorem random_static_rules:
  assumes "length b = 6"
  shows "random_static b =
    (if bit (b ! 5) 7 \<and> bit (b ! 5) 6 \<and> (\<exists>i<46. bit (b ! (i div 8)) (i mod 8)) \<and> (\<exists>i<46. \<not> bit (b ! (i div 8)) (i mod 8))
     then Inr \<lparr>da_bytes = b, da_kind = Random\<rparr> else Inl Err_InvalidPacket)"
proof -
  have z: "(\<forall>i<46. \<not> bit (b ! (i div 8)) (i mod 8)) \<longleftrightarrow>
      b ! 0 = 0 \<and> b ! 1 = 0 \<and> b ! 2 = 0 \<and> b ! 3 = 0 \<and> b ! 4 = 0 \<and> b ! 5 AND 0x3f = 0"
    using all_46 [of "\<lambda>j k. \<not> bit (b ! j) k"] by (simp only: octet_clear low6_clear)
  have o: "(\<forall>i<46. bit (b ! (i div 8)) (i mod 8)) \<longleftrightarrow>
      b ! 0 = 0xff \<and> b ! 1 = 0xff \<and> b ! 2 = 0xff \<and> b ! 3 = 0xff \<and> b ! 4 = 0xff \<and> b ! 5 AND 0x3f = 0x3f"
    using all_46 [of "\<lambda>j k. bit (b ! j) k"] by (simp only: octet_set low6_set)
  have t: "b ! 5 AND 0xc0 = 0xc0 \<longleftrightarrow> bit (b ! 5) 7 \<and> bit (b ! 5) 6" by (rule top2_set)
  show ?thesis
    unfolding random_static_def Let_def z [symmetric] o [symmetric] t by auto
qed

theorem random_static_rules_witness:
  "random_static [0, 0, 0, 0, 1, 0xc0] = Inr \<lparr>da_bytes = [0, 0, 0, 0, 1, 0xc0], da_kind = Random\<rparr>"
proof -
  have "\<exists>i<46. bit ([0, 0, 0, 0, 1, 0xc0 :: u8] ! (i div 8)) (i mod 8)" by (rule exI [of _ 32]) simp
  moreover have "\<exists>i<46. \<not> bit ([0, 0, 0, 0, 1, 0xc0 :: u8] ! (i div 8)) (i mod 8)" by (rule exI [of _ 0]) simp
  ultimately show ?thesis by (simp add: random_static_rules)
qed

end
