(* ===== verification/Hci_Transport.thy ===== *)
theory Hci_Transport
  imports Control_Pdu
begin

text \<open>
  The HCI boundary: input validation of \<^verbatim>\<open>crates/ble-controller/src/hci.rs\<close> and the
  in-process transport of \<^verbatim>\<open>crates/ch58x-ble/src/controller.rs\<close>. The two static channels
  are bounded queues with back-pressure: a send waits until there is room, so the packets the
  Host reads are the packets sent, in order. The model keeps that sequence as a list, and the
  two event masks, in \<open>host_link\<close>.
\<close>

section \<open>Capabilities and validation\<close>

definition LE_FEATURES :: bytes where "LE_FEATURES = [0x06, 0, 0, 0, 0, 0, 0, 0]"
definition ACL_PAYLOAD_LEN :: nat where "ACL_PAYLOAD_LEN = 27"
definition ACL_CREDITS :: u8 where "ACL_CREDITS = 5"

record advertising_parameters =
  ap_interval_us :: u64
  ap_channels :: "bool list"

definition advertising_parameters_parse :: "bytes \<Rightarrow> advertising_parameters option" where
  "advertising_parameters_parse params =
     (if length params \<noteq> 15 then None
      else (let lo = u16_from_le (params ! 0) (params ! 1);
                hi = u16_from_le (params ! 2) (params ! 3)
            in if \<not> (0x20 \<le> lo \<and> lo \<le> 0x4000) \<or> \<not> (lo \<le> hi \<and> hi \<le> 0x4000)
                  \<or> params ! 4 \<noteq> 0 \<or> params ! 5 \<noteq> 1 \<or> params ! 6 > 1 \<or> params ! 13 = 0
                  \<or> params ! 13 AND NOT 7 \<noteq> 0 \<or> params ! 14 \<noteq> 0
               then None
               else Some \<lparr>ap_interval_us = ucast lo * 625,
                          ap_channels = [params ! 13 AND 1 \<noteq> 0, params ! 13 AND 2 \<noteq> 0, params ! 13 AND 4 \<noteq> 0]\<rparr>))"

definition event_enabled :: "u64 \<Rightarrow> u64 \<Rightarrow> u8 \<Rightarrow> bytes \<Rightarrow> bool" where
  "event_enabled m le_mask code params =
     (if code = 0x0e \<or> code = 0x0f \<or> code = 0x13 then True
      else if code = 0 \<or> code > 64 \<or> m AND push_bit (unat (code - 1)) 1 = 0 then False
      else if code = 0x3e then
        (case params of [] \<Rightarrow> False
         | subevent # _ \<Rightarrow> subevent \<noteq> 0 \<and> subevent \<le> 64 \<and> le_mask AND push_bit (unat (subevent - 1)) 1 \<noteq> 0)
      else True)"

section \<open>Packets\<close>

datatype packet_kind = Kind_Cmd | Kind_AclData | Kind_SyncData | Kind_Event | Kind_IsoData

definition HCI_PACKET_CAPACITY :: nat where "HCI_PACKET_CAPACITY = 64"

record packet =
  pk_kind :: packet_kind
  pk_len :: nat
  pk_bytes :: bytes

datatype hci_error = PacketTooLarge | MalformedPacket

definition packet_empty :: "packet_kind \<Rightarrow> packet" where
  "packet_empty k = \<lparr>pk_kind = k, pk_len = 0, pk_bytes = replicate HCI_PACKET_CAPACITY 0\<rparr>"

definition packet_from_bytes :: "packet_kind \<Rightarrow> bytes \<Rightarrow> hci_error + packet" where
  "packet_from_bytes k data =
     (if length data > HCI_PACKET_CAPACITY then Inl PacketTooLarge
      else (let p = packet_empty k in Inr (p\<lparr>pk_bytes := splice (pk_bytes p) 0 data, pk_len := length data\<rparr>)))"

definition packet_data :: "packet \<Rightarrow> bytes" where
  "packet_data p = take (pk_len p) (pk_bytes p)"

section \<open>The link to the Host\<close>

record host_link =
  hl_event_mask :: u64
  hl_le_event_mask :: u64
  hl_to_host :: "packet list"

definition host_link_init :: host_link where
  "host_link_init = \<lparr>hl_event_mask = - 1, hl_le_event_mask = 0x1f, hl_to_host = []\<rparr>"

definition set_event_mask :: "u64 \<Rightarrow> host_link \<Rightarrow> host_link" where
  "set_event_mask m h = h\<lparr>hl_event_mask := m\<rparr>"

definition set_le_event_mask :: "u64 \<Rightarrow> host_link \<Rightarrow> host_link" where
  "set_le_event_mask m h = h\<lparr>hl_le_event_mask := m\<rparr>"

definition send_controller_packet :: "packet \<Rightarrow> host_link \<Rightarrow> host_link" where
  "send_controller_packet p h = h\<lparr>hl_to_host := hl_to_host h @ [p]\<rparr>"

definition event :: "u8 \<Rightarrow> bytes \<Rightarrow> host_link \<Rightarrow> hci_error + host_link" where
  "event event_code parameters h =
     (if length parameters > HCI_PACKET_CAPACITY - 2 then Inl PacketTooLarge
      else if \<not> event_enabled (hl_event_mask h) (hl_le_event_mask h) event_code parameters then Inr h
      else (let p = packet_empty Kind_Event;
                b1 = (pk_bytes p)[0 := event_code];
                b2 = b1[1 := word_of_nat (length parameters)];
                b3 = splice b2 2 parameters
            in Inr (send_controller_packet (p\<lparr>pk_bytes := b3, pk_len := 2 + length parameters\<rparr>) h)))"

text \<open>
  \<open>command_complete\<close> copies into \<open>bytes[6..6 + return_data.len()]\<close>, which panics (\<open>None\<close>) when the
  return data does not fit.
\<close>

definition command_complete :: "u16 \<Rightarrow> u8 \<Rightarrow> bytes \<Rightarrow> host_link \<Rightarrow> host_link option" where
  "command_complete opcode status return_data h =
     (let parameter_len = 4 + length return_data;
          b0 = replicate HCI_PACKET_CAPACITY 0;
          b1 = b0[0 := 0x0e];
          b2 = b1[1 := word_of_nat parameter_len];
          b3 = b2[2 := 1];
          b4 = splice b3 3 (u16_to_le opcode);
          b5 = b4[5 := status]
      in if 6 + length return_data > HCI_PACKET_CAPACITY then None
         else (let b6 = splice b5 6 return_data in
           case packet_from_bytes Kind_Event (take (6 + length return_data) b6) of
             Inl _ \<Rightarrow> None | Inr p \<Rightarrow> Some (send_controller_packet p h)))"

definition command_status :: "u16 \<Rightarrow> u8 \<Rightarrow> host_link \<Rightarrow> host_link" where
  "command_status opcode status h =
     (case packet_from_bytes Kind_Event [0x0f, 0x04, status, 0x01, ucast opcode, ucast (drop_bit 8 opcode)] of
        Inl _ \<Rightarrow> h | Inr p \<Rightarrow> send_controller_packet p h)"

definition send_acl :: "u16 \<Rightarrow> bytes \<Rightarrow> host_link \<Rightarrow> hci_error + host_link" where
  "send_acl handle_and_flags acl_payload h =
     (let p = packet_empty Kind_AclData; len = length acl_payload in
      if len + 4 > length (pk_bytes p) then Inl PacketTooLarge
      else (let b1 = splice (pk_bytes p) 0 (u16_to_le handle_and_flags);
                b2 = splice b1 2 (u16_to_le (word_of_nat len));
                b3 = splice b2 4 acl_payload
            in Inr (send_controller_packet (p\<lparr>pk_bytes := b3, pk_len := len + 4\<rparr>) h)))"

definition completed_acl :: "u16 \<Rightarrow> u16 \<Rightarrow> host_link \<Rightarrow> host_link" where
  "completed_acl handle count h =
     (let p0 = replicate 5 0;
          p1 = p0[0 := 1];
          p2 = splice p1 1 (u16_to_le handle);
          p3 = splice p2 3 (u16_to_le count)
      in case event 0x13 p3 h of Inl _ \<Rightarrow> h | Inr h' \<Rightarrow> h')"

section \<open>Lemmas\<close>

text \<open>A well-formed packet: its octets fill the fixed array and its length is within it.\<close>

definition packet_ok :: "packet \<Rightarrow> bool" where
  "packet_ok p \<longleftrightarrow> length (pk_bytes p) = HCI_PACKET_CAPACITY \<and> pk_len p \<le> HCI_PACKET_CAPACITY
     \<and> (pk_kind p = Kind_Event \<longrightarrow> 2 \<le> pk_len p \<and> unat (packet_data p ! 1) = pk_len p - 2)"

definition pad :: "packet_kind \<Rightarrow> bytes \<Rightarrow> packet" where
  "pad k data = \<lparr>pk_kind = k, pk_len = length data, pk_bytes = data @ replicate (HCI_PACKET_CAPACITY - length data) 0\<rparr>"

lemma packet_data_pad [simp]: "packet_data (pad k data) = data"
  by (simp add: packet_data_def pad_def)

lemma pad_kind [simp]: "pk_kind (pad k data) = k"
  by (simp add: pad_def)

lemma packet_from_bytes_pad:
  "packet_from_bytes k data = (if length data \<le> HCI_PACKET_CAPACITY then Inr (pad k data) else Inl PacketTooLarge)"
  by (simp add: packet_from_bytes_def packet_empty_def splice_def pad_def Let_def)

lemma event_pad:
  assumes "length params \<le> 62"
  shows "event code params h =
    Inr (if event_enabled (hl_event_mask h) (hl_le_event_mask h) code params
         then send_controller_packet (pad Kind_Event ([code, word_of_nat (length params)] @ params)) h else h)"
proof -
  have r: "replicate 64 (0 :: u8) = 0 # 0 # replicate 62 0" by (simp add: numeral_eq_Suc)
  have "splice ((replicate 64 0)[0 := code, 1 := word_of_nat (length params)]) 2 params =
      ([code, word_of_nat (length params)] @ params) @ replicate (62 - length params) 0"
    by (simp add: r splice_def numeral_2_eq_2)
  then show ?thesis
    using assms by (simp add: event_def packet_empty_def HCI_PACKET_CAPACITY_def Let_def pad_def)
qed

lemma event_too_large: "62 < length params \<Longrightarrow> event code params h = Inl PacketTooLarge"
  by (simp add: event_def HCI_PACKET_CAPACITY_def)

lemma command_complete_pad:
  assumes "length ret \<le> 58"
  shows "command_complete opcode status ret h =
    Some (send_controller_packet (pad Kind_Event ([0x0e, word_of_nat (4 + length ret), 1, ucast opcode,
      ucast (drop_bit 8 opcode), status] @ ret)) h)"
proof -
  have r: "replicate 64 (0 :: u8) = 0 # 0 # 0 # 0 # 0 # 0 # replicate 58 0" by (simp add: numeral_eq_Suc)
  have "take (6 + length ret) (splice ((splice ((replicate 64 0)[0 := 0x0e, 1 := word_of_nat (4 + length ret), 2 := 1]) 3
      (u16_to_le opcode))[5 := status]) 6 ret) =
    [0x0e, word_of_nat (4 + length ret), 1, ucast opcode, ucast (drop_bit 8 opcode), status] @ ret"
    by (simp add: r splice_def u16_to_le_def numeral_eq_Suc)
  then show ?thesis
    using assms by (simp only: command_complete_def Let_def HCI_PACKET_CAPACITY_def packet_from_bytes_pad) simp
qed

lemma command_status_pad:
  "command_status opcode status h =
     send_controller_packet (pad Kind_Event [0x0f, 4, status, 1, ucast opcode, ucast (drop_bit 8 opcode)]) h"
  by (simp add: command_status_def packet_from_bytes_pad HCI_PACKET_CAPACITY_def)

lemma send_acl_pad:
  assumes "length p \<le> 60"
  shows "send_acl hf p h =
    Inr (send_controller_packet (pad Kind_AclData (u16_to_le hf @ u16_to_le (word_of_nat (length p)) @ p)) h)"
proof -
  have r: "replicate 64 (0 :: u8) = 0 # 0 # 0 # 0 # replicate 60 0" by (simp add: numeral_eq_Suc)
  have "splice (splice (splice (replicate 64 0) 0 (u16_to_le hf)) 2 (u16_to_le (word_of_nat (length p)))) 4 p =
      u16_to_le hf @ u16_to_le (word_of_nat (length p)) @ p @ replicate (60 - length p) 0"
    by (simp add: r splice_def u16_to_le_def drop_Cons' )
  moreover have "length (u16_to_le hf @ u16_to_le (word_of_nat (length p)) @ p) = length p + 4" by simp
  moreover have "64 - (length p + 4) = 60 - length p" by simp
  ultimately show ?thesis
    using assms by (simp only: send_acl_def packet_empty_def HCI_PACKET_CAPACITY_def Let_def pad_def) simp
qed

lemma completed_acl_pad:
  "completed_acl handle count h =
     send_controller_packet (pad Kind_Event ([0x13, 5, 1] @ u16_to_le handle @ u16_to_le count)) h"
proof -
  have "splice (splice ((replicate 5 0)[0 := 1]) 1 (u16_to_le handle)) 3 (u16_to_le count) =
      [1] @ u16_to_le handle @ u16_to_le count"
    by (simp add: splice_def u16_to_le_def numeral_eq_Suc)
  then show ?thesis by (simp add: completed_acl_def Let_def event_pad event_enabled_def)
qed

lemma mask_bit:
  "c \<noteq> 0 \<and> c \<le> 64 \<and> m AND push_bit (unat (c - 1)) 1 \<noteq> 0 \<longleftrightarrow> unat c \<in> {1..64} \<and> bit m (unat c - 1)"
  for m :: u64 and c :: u8
proof (cases "c = 0")
  case False
  have "unat (c - 1) = unat c - 1" using False by (simp add: unat_minus_one)
  then have "m AND push_bit (unat (c - 1)) 1 \<noteq> 0 \<longleftrightarrow> bit m (unat c - 1)"
    by (simp add: push_bit_of_1 and_exp_eq_0_iff_not_bit)
  moreover have "unat c \<in> {1..64} \<longleftrightarrow> c \<le> 64"
    using False unat_gt_0 [of c] by (auto simp: word_le_nat_alt)
  ultimately show ?thesis using False by blast
qed simp

section \<open>Properties\<close>

text \<open>
  Event masking: an event reaches the Host exactly when it is a command or credit event,
  or its mask bit is set and, for LE meta events, its subevent bit too. Completed-packet and
  command events are therefore delivered under every mask, so no mask can stall the Host's
  command or ACL pipeline.
\<close>

theorem event_mask_rules:
  "(event_enabled m le code params \<longleftrightarrow>
     code \<in> {0x0e, 0x0f, 0x13}
     \<or> (unat code \<in> {1..64} \<and> bit m (unat code - 1)
         \<and> (if code = 0x3e then \<exists>sub rest. params = sub # rest \<and> unat sub \<in> {1..64} \<and> bit le (unat sub - 1) else True)))
   \<and> hl_to_host (completed_acl handle count h) = hl_to_host h @ [pad Kind_Event ([0x13, 5, 1] @ u16_to_le handle @ u16_to_le count)]
   \<and> hl_to_host (command_status opcode status h)
       = hl_to_host h @ [pad Kind_Event [0x0f, 4, status, 1, ucast opcode, ucast (drop_bit 8 opcode)]]"
proof -
  have s: "c \<noteq> 0 \<and> c \<le> 64 \<and> m AND push_bit (unat (c - 1)) 1 \<noteq> 0 \<longleftrightarrow> unat c \<in> {1..64} \<and> bit m (unat c - 1)"
    for m :: u64 and c :: u8 by (rule mask_bit)
  have e: "event_enabled m le code params \<longleftrightarrow> code = 0x0e \<or> code = 0x0f \<or> code = 0x13
      \<or> (code \<noteq> 0 \<and> code \<le> 64 \<and> m AND push_bit (unat (code - 1)) 1 \<noteq> 0)
        \<and> (code = 0x3e \<longrightarrow> (case params of [] \<Rightarrow> False
         | sub # _ \<Rightarrow> sub \<noteq> 0 \<and> sub \<le> 64 \<and> le AND push_bit (unat (sub - 1)) 1 \<noteq> 0))"
    unfolding event_enabled_def not_less [symmetric] by (cases "code = 0x3e") argo+
  show ?thesis
    unfolding e s completed_acl_pad command_status_pad send_controller_packet_def
    by (cases params) auto
qed

end
