(* ===== verification/Hci_Queue.thy ===== *)
theory Hci_Queue
  imports Hci_Transport
begin

text \<open>
  The Host's end of the transport, \<open>HciTransport\<close> of \<^verbatim>\<open>crates/ch58x-ble/src/controller.rs\<close>, and the two
  static channels between the Host task and the runner. The channel (\<^verbatim>\<open>embassy-sync\<close>) and the packet codecs
  (\<^verbatim>\<open>bt-hci\<close>) are parameters. A channel is a state with \<open>try_send\<close> and \<open>try_receive\<close>, where \<open>None\<close> is full or empty; an
  await that cannot proceed leaves the state as it is until the task is polled again.
\<close>

section \<open>Model\<close>

definition HOST_TO_CONTROLLER_CAPACITY :: nat where "HOST_TO_CONTROLLER_CAPACITY = 1"
definition CONTROLLER_TO_HOST_CAPACITY :: nat where "CONTROLLER_TO_HOST_CAPACITY = 2"

text \<open>
  \<open>read\<close> after its receive: \<open>read_hci\<close> takes the kind and the octets and returns the packet and the octets it left.
\<close>

definition transport_read :: "(packet_kind \<Rightarrow> bytes \<Rightarrow> ('p \<times> bytes) option) \<Rightarrow> nat \<Rightarrow> packet \<Rightarrow> hci_error + 'p" where
  "transport_read read_hci output_len p =
     (if pk_len p > output_len then Inl PacketTooLarge
      else case read_hci (pk_kind p) (take (pk_len p) (pk_bytes p)) of
        None \<Rightarrow> Inl MalformedPacket
      | Some (v, input) \<Rightarrow> if input \<noteq> [] then Inl MalformedPacket else Inr v)"

text \<open>
  \<open>write\<close> before its send: \<open>write_hci\<close> writes into a slice of \<open>size\<close> octets and fails when they do not suffice.
\<close>

definition transport_write :: "packet_kind \<Rightarrow> ('v \<Rightarrow> nat) \<Rightarrow> ('v \<Rightarrow> bytes option) \<Rightarrow> 'v \<Rightarrow> hci_error + packet" where
  "transport_write kind hci_size write_hci v =
     (if hci_size v > HCI_PACKET_CAPACITY then Inl PacketTooLarge
      else case write_hci v of
        None \<Rightarrow> Inl PacketTooLarge
      | Some bs \<Rightarrow> (let p = packet_empty kind in Inr (p\<lparr>pk_bytes := splice (pk_bytes p) 0 bs, pk_len := hci_size v\<rparr>)))"

record 'q transport =
  tr_down :: 'q
  tr_up :: 'q

text \<open>
  What the two tasks do, one poll at a time: the Host sends a packet it wrote or takes one to read, the runner
  receives or sends. The answer is the packet moved out, or whether the packet went in.
\<close>

datatype transport_call = Host_Send packet | Host_Take | Runner_Receive | Runner_Send packet

datatype transport_answer = Sent bool | Received "packet option"

definition transport_poll ::
    "('q \<Rightarrow> packet \<Rightarrow> 'q option) \<Rightarrow> ('q \<Rightarrow> (packet \<times> 'q) option) \<Rightarrow> transport_call \<Rightarrow> 'q transport \<Rightarrow> transport_answer \<times> 'q transport" where
  "transport_poll try_send try_receive call s =
     (case call of
        Host_Send p \<Rightarrow> (case try_send (tr_down s) p of None \<Rightarrow> (Sent False, s) | Some q \<Rightarrow> (Sent True, s\<lparr>tr_down := q\<rparr>))
      | Runner_Receive \<Rightarrow>
          (case try_receive (tr_down s) of None \<Rightarrow> (Received None, s) | Some (p, q) \<Rightarrow> (Received (Some p), s\<lparr>tr_down := q\<rparr>))
      | Runner_Send p \<Rightarrow> (case try_send (tr_up s) p of None \<Rightarrow> (Sent False, s) | Some q \<Rightarrow> (Sent True, s\<lparr>tr_up := q\<rparr>))
      | Host_Take \<Rightarrow>
          (case try_receive (tr_up s) of None \<Rightarrow> (Received None, s) | Some (p, q) \<Rightarrow> (Received (Some p), s\<lparr>tr_up := q\<rparr>)))"

primrec transport_run ::
    "('q \<Rightarrow> packet \<Rightarrow> 'q option) \<Rightarrow> ('q \<Rightarrow> (packet \<times> 'q) option) \<Rightarrow> transport_call list \<Rightarrow> 'q transport
       \<Rightarrow> (transport_call \<times> transport_answer) list \<times> 'q transport" where
  "transport_run try_send try_receive [] s = ([], s)"
| "transport_run try_send try_receive (call # calls) s =
     (let (a, s1) = transport_poll try_send try_receive call s;
          (log, s2) = transport_run try_send try_receive calls s1
      in ((call, a) # log, s2))"

section \<open>Lemmas\<close>

text \<open>What the channel documents: a queue of bounded length, first in, first out.\<close>

definition channel_laws :: "('q \<Rightarrow> packet list) \<Rightarrow> ('q \<Rightarrow> nat) \<Rightarrow> ('q \<Rightarrow> packet \<Rightarrow> 'q option) \<Rightarrow> ('q \<Rightarrow> (packet \<times> 'q) option) \<Rightarrow> bool" where
  "channel_laws contents capacity try_send try_receive \<longleftrightarrow>
     (\<forall>q p. case try_send q p of None \<Rightarrow> capacity q \<le> length (contents q)
        | Some q' \<Rightarrow> length (contents q) < capacity q \<and> contents q' = contents q @ [p] \<and> capacity q' = capacity q)
     \<and> (\<forall>q. case try_receive q of None \<Rightarrow> contents q = []
        | Some (p, q') \<Rightarrow> contents q = p # contents q' \<and> capacity q' = capacity q)"

text \<open>The packets that went in at one end, and those that came out at the other.\<close>

definition host_sent :: "(transport_call \<times> transport_answer) list \<Rightarrow> packet list" where
  "host_sent log = concat (map (\<lambda>x. case x of (Host_Send p, Sent True) \<Rightarrow> [p] | _ \<Rightarrow> []) log)"

definition runner_received :: "(transport_call \<times> transport_answer) list \<Rightarrow> packet list" where
  "runner_received log = concat (map (\<lambda>x. case x of (Runner_Receive, Received (Some p)) \<Rightarrow> [p] | _ \<Rightarrow> []) log)"

definition runner_sent :: "(transport_call \<times> transport_answer) list \<Rightarrow> packet list" where
  "runner_sent log = concat (map (\<lambda>x. case x of (Runner_Send p, Sent True) \<Rightarrow> [p] | _ \<Rightarrow> []) log)"

definition host_taken :: "(transport_call \<times> transport_answer) list \<Rightarrow> packet list" where
  "host_taken log = concat (map (\<lambda>x. case x of (Host_Take, Received (Some p)) \<Rightarrow> [p] | _ \<Rightarrow> []) log)"

lemmas log_defs = host_sent_def runner_received_def runner_sent_def host_taken_def

lemma channel_send:
  assumes "channel_laws contents capacity try_send try_receive" "try_send q p = Some q'"
  shows "length (contents q) < capacity q" "contents q' = contents q @ [p]" "capacity q' = capacity q"
  using assms(1) [unfolded channel_laws_def, THEN conjunct1, rule_format, of q p] assms(2) by simp_all

lemma channel_receive:
  assumes "channel_laws contents capacity try_send try_receive" "try_receive q = Some (p, q')"
  shows "contents q = p # contents q'" "capacity q' = capacity q"
  using assms(1) [unfolded channel_laws_def, THEN conjunct2, rule_format, of q] assms(2) by simp_all

text \<open>One direction after a poll: the queue and what came out of it are the queue before and what went in.\<close>

definition moved :: "('q \<Rightarrow> packet list) \<Rightarrow> ('q \<Rightarrow> nat) \<Rightarrow> packet list \<Rightarrow> packet list \<Rightarrow> 'q \<Rightarrow> 'q \<Rightarrow> bool" where
  "moved contents capacity ins outs q q' \<longleftrightarrow>
     contents q @ ins = outs @ contents q' \<and> capacity q' = capacity q
     \<and> (length (contents q) \<le> capacity q \<longrightarrow> length (contents q') \<le> capacity q')"

lemma moved_refl: "moved contents capacity [] [] q q"
  by (simp add: moved_def)

lemma moved_trans:
  assumes "moved contents capacity i o1 q q1" "moved contents capacity i' o2 q1 q2"
  shows "moved contents capacity (i @ i') (o1 @ o2) q q2"
proof -
  have "contents q @ i @ i' = (o1 @ contents q1) @ i'" using assms(1) by (simp add: moved_def)
  also have "\<dots> = (o1 @ o2) @ contents q2" using assms(2) by (simp add: moved_def)
  finally show ?thesis using assms unfolding moved_def by auto
qed

lemma transport_poll_ok:
  assumes "channel_laws contents capacity try_send try_receive" "transport_poll try_send try_receive call s = (a, s')"
  shows "moved contents capacity (host_sent [(call, a)]) (runner_received [(call, a)]) (tr_down s) (tr_down s')
    \<and> moved contents capacity (runner_sent [(call, a)]) (host_taken [(call, a)]) (tr_up s) (tr_up s')"
proof -
  note laws = channel_send [OF assms(1)] channel_receive [OF assms(1)]
  show ?thesis
    using assms(2)
    by (cases call) (auto simp: transport_poll_def moved_def laws Suc_le_eq log_defs split: option.splits prod.splits)
qed

lemma log_cons:
  "host_sent (x # log) = host_sent [x] @ host_sent log" "runner_received (x # log) = runner_received [x] @ runner_received log"
  "runner_sent (x # log) = runner_sent [x] @ runner_sent log" "host_taken (x # log) = host_taken [x] @ host_taken log"
  by (simp_all add: log_defs)

lemma transport_run_ok:
  assumes "channel_laws contents capacity try_send try_receive"
  shows "transport_run try_send try_receive calls s = (log, s') \<Longrightarrow>
    moved contents capacity (host_sent log) (runner_received log) (tr_down s) (tr_down s')
    \<and> moved contents capacity (runner_sent log) (host_taken log) (tr_up s) (tr_up s')"
proof (induction calls arbitrary: s log)
  case Nil
  then show ?case by (simp add: moved_def log_defs)
next
  case (Cons call calls)
  obtain a s1 where p: "transport_poll try_send try_receive call s = (a, s1)" by (cases "transport_poll try_send try_receive call s")
  obtain l where l: "transport_run try_send try_receive calls s1 = (l, s')" "log = (call, a) # l"
    using Cons.prems p by (auto split: prod.splits)
  show ?case
    unfolding l(2) log_cons [of "(call, a)" l]
    using transport_poll_ok [OF assms p] Cons.IH [OF l(1)] by (blast intro: moved_trans)
qed

section \<open>Properties\<close>

text \<open>
  The transport loses, repeats and reorders nothing: for every interleaving of the polls of the Host task and
  the runner, from empty channels of the declared capacities, the runner has received a prefix of
  what the Host sent and the Host a prefix of what the runner sent; the rest, at most one packet down and
  two up, is still in the channels.
\<close>

theorem transport_fifo:
  assumes "channel_laws contents capacity try_send try_receive"
    "contents (tr_down s) = []" "capacity (tr_down s) = HOST_TO_CONTROLLER_CAPACITY"
    "contents (tr_up s) = []" "capacity (tr_up s) = CONTROLLER_TO_HOST_CAPACITY"
  shows "\<exists>log s'. transport_run try_send try_receive calls s = (log, s') \<and> map fst log = calls
    \<and> host_sent log = runner_received log @ contents (tr_down s') \<and> length (contents (tr_down s')) \<le> 1
    \<and> runner_sent log = host_taken log @ contents (tr_up s') \<and> length (contents (tr_up s')) \<le> 2"
proof -
  obtain log s' where r: "transport_run try_send try_receive calls s = (log, s')" by (cases "transport_run try_send try_receive calls s")
  have "map fst (fst (transport_run try_send try_receive calls s)) = calls" for s
    by (induction calls arbitrary: s) (auto simp: Let_def split: prod.splits, metis fst_conv)
  then have "map fst log = calls" using r by (metis fst_conv)
  then show ?thesis
    using transport_run_ok [OF assms(1) r] assms(2-5) r
    by (simp add: moved_def HOST_TO_CONTROLLER_CAPACITY_def CONTROLLER_TO_HOST_CAPACITY_def)
qed

text \<open>A list with its capacity is such a channel; a second send waits until the runner has received the first.\<close>

definition list_send :: "nat \<times> packet list \<Rightarrow> packet \<Rightarrow> (nat \<times> packet list) option" where
  "list_send q p = (if length (snd q) < fst q then Some (fst q, snd q @ [p]) else None)"

definition list_receive :: "nat \<times> packet list \<Rightarrow> (packet \<times> nat \<times> packet list) option" where
  "list_receive q = (case snd q of [] \<Rightarrow> None | p # ps \<Rightarrow> Some (p, fst q, ps))"

lemma list_channel: "channel_laws snd fst list_send list_receive"
  by (simp add: channel_laws_def list_send_def list_receive_def split: list.splits)

theorem transport_fifo_witness:
  "\<exists>log s'. transport_run list_send list_receive
       [Host_Send (packet_empty Kind_Cmd), Host_Send (packet_empty Kind_AclData), Runner_Receive] \<lparr>tr_down = (1, []), tr_up = (2, [])\<rparr> = (log, s')
     \<and> host_sent log = [packet_empty Kind_Cmd] \<and> runner_received log = [packet_empty Kind_Cmd] \<and> length (snd (tr_down s')) \<le> 1"
proof -
  let ?s = "\<lparr>tr_down = (1, []), tr_up = (2, [])\<rparr>"
  let ?calls = "[Host_Send (packet_empty Kind_Cmd), Host_Send (packet_empty Kind_AclData), Runner_Receive]"
  obtain log s' where "transport_run list_send list_receive ?calls ?s = (log, s')" "length (snd (tr_down s')) \<le> 1"
    using transport_fifo [OF list_channel, of ?s ?calls] by (auto simp: HOST_TO_CONTROLLER_CAPACITY_def CONTROLLER_TO_HOST_CAPACITY_def)
  then show ?thesis
    by (auto simp: transport_poll_def list_send_def list_receive_def log_defs)
qed

text \<open>
  Both ends of the transport with a codec that reads back what it writes: a value that fits is written as
  its encoding, and a packet of the runner with that encoding is read as the value, or refused exactly when
  the Host's buffer is too short.
\<close>

theorem transport_codec:
  assumes "write_hci v = Some bs" "length bs = hci_size v" "read_hci kind bs = Some (v, [])"
  shows "(if hci_size v \<le> 64 then \<exists>p. transport_write kind hci_size write_hci v = Inr p \<and> pk_kind p = kind \<and> packet_data p = bs
          else transport_write kind hci_size write_hci v = Inl PacketTooLarge)
    \<and> (pk_kind p = kind \<and> packet_data p = bs \<and> pk_len p = length bs \<longrightarrow>
         transport_read read_hci output_len p = (if length bs \<le> output_len then Inr v else Inl PacketTooLarge))"
proof (intro conjI impI)
  show "if hci_size v \<le> 64 then \<exists>p. transport_write kind hci_size write_hci v = Inr p \<and> pk_kind p = kind \<and> packet_data p = bs
      else transport_write kind hci_size write_hci v = Inl PacketTooLarge"
    using assms(1,2) by (auto simp: transport_write_def HCI_PACKET_CAPACITY_def packet_empty_def packet_data_def splice_def Let_def)
  show "pk_kind p = kind \<and> packet_data p = bs \<and> pk_len p = length bs \<Longrightarrow>
      transport_read read_hci output_len p = (if length bs \<le> output_len then Inr v else Inl PacketTooLarge)"
    using assms(3) by (auto simp: transport_read_def packet_data_def)
qed

end
