(* ===== verification/Connection.thy ===== *)
theory Connection
  imports Channel_Selection Data_Sequence Llcp Advertising Hci_Transport
begin

text \<open>
  One connection of the Peripheral, \<open>ActiveConnection\<close> of
  \<^verbatim>\<open>crates/ch58x-ble/src/link_layer.rs\<close>: anchors and receive windows, instants, the ACL and
  control queues, and the link between queued control PDUs and their procedures. Times are
  microseconds (\<^verbatim>\<open>embassy-time\<close> runs at 1 MHz) as natural numbers; \<open>Instant - Duration\<close>
  panics below zero, which is \<open>None\<close>. \<open>Instant::now()\<close> is an argument.
\<close>

section \<open>Constants and small types\<close>

definition HCI_SUCCESS :: u8 where "HCI_SUCCESS = 0x00"
definition HCI_UNKNOWN_COMMAND :: u8 where "HCI_UNKNOWN_COMMAND = 0x01"
definition HCI_COMMAND_DISALLOWED :: u8 where "HCI_COMMAND_DISALLOWED = 0x0c"
definition HCI_INVALID_PARAMETERS :: u8 where "HCI_INVALID_PARAMETERS = 0x12"
definition HCI_CONTROLLER_BUSY :: u8 where "HCI_CONTROLLER_BUSY = 0x3a"
definition CONNECTION_HANDLE :: u16 where "CONNECTION_HANDLE = 1"
definition MAX_DATA_PDU_PAYLOAD :: nat where "MAX_DATA_PDU_PAYLOAD = ACL_PAYLOAD_LEN"
definition MAX_DATA_PDU_WIRE_LEN :: nat where "MAX_DATA_PDU_WIRE_LEN = 2 + MAX_DATA_PDU_PAYLOAD"
definition ACL_QUEUE_CAPACITY :: nat where "ACL_QUEUE_CAPACITY = 4"
definition LLID_CONTINUATION :: u8 where "LLID_CONTINUATION = 0x01"
definition LLID_START :: u8 where "LLID_START = 0x02"
definition LLID_CONTROL :: u8 where "LLID_CONTROL = 0x03"
definition HCI_PB_CONTINUING :: u16 where "HCI_PB_CONTINUING = push_bit 12 1"
definition HCI_PB_FIRST_FLUSHABLE :: u16 where "HCI_PB_FIRST_FLUSHABLE = push_bit 12 2"
definition RX_SETUP_LEAD_US :: nat where "RX_SETUP_LEAD_US = 1000"
definition LOCAL_SLEEP_CLOCK_PPM :: u16 where "LOCAL_SLEEP_CLOCK_PPM = 50"
definition MAX_DATA_PACKET_AIRTIME_US :: nat where
  "MAX_DATA_PACKET_AIRTIME_US = (1 + 4 + 2 + MAX_DATA_PDU_PAYLOAD + 3) * 8"
definition PROCEDURE_RESPONSE_TIMEOUT_US :: u32 where "PROCEDURE_RESPONSE_TIMEOUT_US = 40000000"

definition refresh_transmit_sequence_header :: "u8 \<Rightarrow> u8 \<Rightarrow> u8 \<Rightarrow> u8" where
  "refresh_transmit_sequence_header header sn expected =
     (header AND NOT DATA_HEADER_SEQUENCE_MASK)
       OR ((expected AND 1) * DATA_HEADER_NESN) OR ((sn AND 1) * DATA_HEADER_SN)"

record pending_data =
  pd_bytes :: bytes
  pd_len :: nat
  pd_llid :: u8
  pd_owner_token :: u32

datatype transmitted_pdu = TP_None | TP_Control | TP_Acl | TP_Empty

record local_connection_param_request =
  lr_interval_min :: u16
  lr_interval_max :: u16
  lr_latency :: u16
  lr_supervision_timeout :: u16

definition lr_accepts :: "local_connection_param_request \<Rightarrow> connection_update_ind \<Rightarrow> bool" where
  "lr_accepts r update = connection_update_matches_request (lr_interval_min r) (lr_interval_max r)
     (lr_latency r) (lr_supervision_timeout r) update"

record active_connection =
  ac_handle :: u16
  ac_request :: connect_ind
  ac_selector :: channel_selection1
  ac_next_anchor :: nat
  ac_last_sync_anchor :: nat
  ac_receive_window_size_us :: nat
  ac_event_counter :: u16
  ac_supervision_deadline :: nat
  ac_transmit_sn :: u8
  ac_expected_sn :: u8
  ac_next_acl_owner_token :: u32
  ac_next_control_owner_token :: u32
  ac_pending :: "pending_data option"
  ac_queued_acl :: "pending_data option list"
  ac_pending_control :: "pending_data option"
  ac_priority_control :: "pending_data option"
  ac_queued_control :: "pending_data option"
  ac_transmitted :: transmitted_pdu
  ac_tx_frame :: bytes
  ac_tx_frame_len :: nat
  ac_tx_frame_fresh :: bool
  ac_pending_connection_update :: "connection_update_ind option"
  ac_pending_channel_map :: "channel_map_ind option"
  ac_local_connection_param_request :: "local_connection_param_request option"
  ac_procedures :: procedure_manager
  ac_last_rssi :: i8

section \<open>Creation\<close>

definition active_connection_new_for ::
    "nat \<Rightarrow> u16 \<Rightarrow> connect_ind \<Rightarrow> nat \<Rightarrow> radio_error + active_connection" where
  "active_connection_new_for now handle request connect_ind_end_us =
     (case channel_selection1_new (ci_channel_map request) (ci_hop_increment request) of
        Inl e \<Rightarrow> Inl e
      | Inr channels \<Rightarrow>
          (let first_anchor = connect_ind_end_us + (unat (ci_window_offset request) + 1) * 1250
           in Inr \<lparr>ac_handle = handle, ac_request = request, ac_selector = channels,
                ac_next_anchor = first_anchor, ac_last_sync_anchor = connect_ind_end_us,
                ac_receive_window_size_us = unat (ci_window_size request) * 1250, ac_event_counter = 0,
                ac_supervision_deadline = now + unat (ci_supervision_timeout request) * 10000,
                ac_transmit_sn = 0, ac_expected_sn = 0, ac_next_acl_owner_token = 1,
                ac_next_control_owner_token = 0x80000001, ac_pending = None,
                ac_queued_acl = replicate ACL_QUEUE_CAPACITY None, ac_pending_control = None,
                ac_priority_control = None, ac_queued_control = None, ac_transmitted = TP_None,
                ac_tx_frame = replicate MAX_DATA_PDU_WIRE_LEN 0, ac_tx_frame_len = 0, ac_tx_frame_fresh = False,
                ac_pending_connection_update = None, ac_pending_channel_map = None,
                ac_local_connection_param_request = None, ac_procedures = manager_new, ac_last_rssi = - 127\<rparr>))"

definition active_connection_new :: "nat \<Rightarrow> connect_ind \<Rightarrow> nat \<Rightarrow> radio_error + active_connection" where
  "active_connection_new now request end_us = active_connection_new_for now CONNECTION_HANDLE request end_us"

section \<open>Windows and anchors\<close>

definition ac_interval :: "active_connection \<Rightarrow> nat" where
  "ac_interval c = unat (ci_interval (ac_request c)) * 1250"

definition ac_next_channel :: "active_connection \<Rightarrow> (channel \<times> active_connection) option" where
  "ac_next_channel c =
     (case next_channel (ac_selector c) of None \<Rightarrow> None | Some (ch, s) \<Rightarrow> Some (ch, c\<lparr>ac_selector := s\<rparr>))"

definition ac_window_widening_us :: "active_connection \<Rightarrow> nat" where
  "ac_window_widening_us c =
     unat (window_widening_us (word_of_nat (ac_next_anchor c - ac_last_sync_anchor c))
       (ci_sleep_clock_accuracy (ac_request c)) LOCAL_SLEEP_CLOCK_PPM)"

definition receive_setup_lead_us :: "active_connection \<Rightarrow> nat" where
  "receive_setup_lead_us c = RX_SETUP_LEAD_US"

definition receive_open :: "active_connection \<Rightarrow> nat option" where
  "receive_open c =
     (let d = receive_setup_lead_us c + ac_window_widening_us c in
      if ac_next_anchor c < d then None else Some (ac_next_anchor c - d))"

definition scheduler_open :: "active_connection \<Rightarrow> nat option" where
  "scheduler_open c = receive_open c"

definition sat_add64 :: "nat \<Rightarrow> nat \<Rightarrow> nat" where
  "sat_add64 a b = min (a + b) (2 ^ 64 - 1)"

definition sat_mul64 :: "nat \<Rightarrow> nat \<Rightarrow> nat" where
  "sat_mul64 a b = min (a * b) (2 ^ 64 - 1)"

definition take_receive_timeout :: "active_connection \<Rightarrow> nat \<times> active_connection" where
  "take_receive_timeout c =
     (let widening_us = ac_window_widening_us c;
          timeout_us = sat_add64 (sat_add64 (sat_add64 (receive_setup_lead_us c) (sat_mul64 widening_us 2))
            (ac_receive_window_size_us c)) MAX_DATA_PACKET_AIRTIME_US
      in (timeout_us, c\<lparr>ac_receive_window_size_us := 0\<rparr>))"

definition receive_close :: "active_connection \<Rightarrow> nat" where
  "receive_close c =
     (let instant_window_us =
            (case ac_pending_connection_update c of
               Some update \<Rightarrow> if cu_instant update = ac_event_counter c
                 then unat (cu_window_size update) * 1250 else ac_receive_window_size_us c
             | None \<Rightarrow> ac_receive_window_size_us c)
      in ac_next_anchor c
         + sat_add64 (sat_add64 (ac_window_widening_us c) instant_window_us) MAX_DATA_PACKET_AIRTIME_US)"

definition synchronize :: "active_connection \<Rightarrow> nat \<Rightarrow> active_connection" where
  "synchronize c anchor_us =
     c\<lparr>ac_next_anchor := anchor_us, ac_last_sync_anchor := anchor_us, ac_receive_window_size_us := 0\<rparr>"

definition schedule_following_event :: "active_connection \<Rightarrow> active_connection" where
  "schedule_following_event c =
     (let old_interval = ac_interval c;
          c1 = c\<lparr>ac_event_counter := ac_event_counter c + 1, ac_next_anchor := ac_next_anchor c + old_interval\<rparr>
      in case ac_pending_connection_update c1 of
           Some update \<Rightarrow> if cu_instant update = ac_event_counter c1
             then c1\<lparr>ac_next_anchor := ac_next_anchor c1 + unat (cu_window_offset update) * 1250\<rparr> else c1
         | None \<Rightarrow> c1)"

section \<open>Instants\<close>

definition apply_channel_map :: "active_connection \<Rightarrow> u8 + active_connection" where
  "apply_channel_map c =
     (case ac_pending_channel_map c of
        Some update \<Rightarrow>
          if cm_instant update = ac_event_counter c then
            (case update_map (ac_selector c) (cm_map update) of
               Inl _ \<Rightarrow> Inl 0x1e
             | Inr s \<Rightarrow> Inr (c\<lparr>ac_selector := s,
                 ac_request := (ac_request c)\<lparr>ci_channel_map := cm_map update\<rparr>,
                 ac_pending_channel_map := None\<rparr>))
          else Inr c
      | None \<Rightarrow> Inr c)"

definition apply_connection_update :: "nat \<Rightarrow> active_connection \<Rightarrow> (bool \<times> bool) \<times> active_connection" where
  "apply_connection_update now c =
     (case ac_pending_connection_update c of
        Some update \<Rightarrow>
          if cu_instant update = ac_event_counter c then
            (let r = ac_request c;
                 changed = (ci_interval r \<noteq> cu_interval update \<or> ci_latency r \<noteq> cu_latency update
                   \<or> ci_supervision_timeout r \<noteq> cu_supervision_timeout update)
             in ((True, changed),
                 c\<lparr>ac_request := r\<lparr>ci_window_size := cu_window_size update, ci_window_offset := cu_window_offset update,
                     ci_interval := cu_interval update, ci_latency := cu_latency update,
                     ci_supervision_timeout := cu_supervision_timeout update\<rparr>,
                   ac_receive_window_size_us := unat (cu_window_size update) * 1250,
                   ac_supervision_deadline := now + unat (cu_supervision_timeout update) * 10000,
                   ac_pending_connection_update := None\<rparr>))
          else ((False, False), c)
      | None \<Rightarrow> ((False, False), c))"

definition apply_instants :: "nat \<Rightarrow> active_connection \<Rightarrow> u8 + ((bool \<times> bool) \<times> active_connection)" where
  "apply_instants now c =
     (case apply_channel_map c of Inl e \<Rightarrow> Inl e
      | Inr c1 \<Rightarrow>
          (let (r, c2) = apply_connection_update now c1
           in Inr (r, c2\<lparr>ac_procedures := on_connection_event (ac_procedures c2) (ac_event_counter c2) 0x28\<rparr>)))"

text \<open>
  The \<open>while now > self.receive_close()\<close> loop. \<open>clock k\<close> is the value of \<open>Instant::now()\<close> read in
  iteration \<open>k\<close>; \<open>None\<close> is a panic of \<open>next_channel\<close>; the count is a \<open>u16\<close> whose overflow ends the
  loop with error 0x08, which bounds it at 65536 iterations.
\<close>

function skip_loop :: "(nat \<Rightarrow> nat) \<Rightarrow> nat \<Rightarrow> nat \<Rightarrow> bool \<Rightarrow> active_connection
    \<Rightarrow> (u8 + (nat \<times> bool \<times> active_connection)) option" where
  "skip_loop clock now count notify_host c =
     (if now > receive_close c then
        (case apply_instants (clock count) c of Inl e \<Rightarrow> Some (Inl e)
         | Inr ((applied, changed), c1) \<Rightarrow>
             (let notify = (notify_host \<or> changed \<or> (applied \<and> ac_local_connection_param_request c1 \<noteq> None));
                  c2 = (if applied then c1\<lparr>ac_local_connection_param_request := None\<rparr> else c1)
              in case ac_next_channel c2 of None \<Rightarrow> None
                 | Some (_, c3) \<Rightarrow>
                     (let c4 = schedule_following_event c3 in
                      if count + 1 < 65536 then skip_loop clock now (count + 1) notify c4 else Some (Inl 0x08))))
      else Some (Inr (count, notify_host, c)))"
  by pat_completeness auto
termination
  by (relation "measure (\<lambda>(clock, now, count, n, c). 65536 - count)") auto

declare skip_loop.simps [simp del]

definition skip_expired_events ::
    "(nat \<Rightarrow> nat) \<Rightarrow> nat \<Rightarrow> active_connection \<Rightarrow> (u8 + (nat \<times> bool \<times> active_connection)) option" where
  "skip_expired_events clock now c = skip_loop clock now 0 False c"

section \<open>Queues\<close>

text \<open>\<open>queued_acl.iter_mut().find(|slot| slot.is_none())\<close> and the store into it.\<close>

fun put_first_free :: "'a option list \<Rightarrow> 'a \<Rightarrow> 'a option list option" where
  "put_first_free [] d = None"
| "put_first_free (None # rest) d = Some (Some d # rest)"
| "put_first_free (Some x # rest) d = map_option ((#) (Some x)) (put_first_free rest d)"

definition queue_acl :: "active_connection \<Rightarrow> packet \<Rightarrow> u8 + active_connection" where
  "queue_acl c p =
     (if pk_len p < 4 then Inl HCI_COMMAND_DISALLOWED
      else (let raw_handle = u16_from_le (pk_bytes p ! 0) (pk_bytes p ! 1);
                handle = raw_handle AND 0x0fff;
                len = unat (u16_from_le (pk_bytes p ! 2) (pk_bytes p ! 3))
            in if handle \<noteq> ac_handle c \<or> len + 4 \<noteq> pk_len p \<or> len > MAX_DATA_PDU_PAYLOAD
               then Inl HCI_INVALID_PARAMETERS
               else (let boundary = drop_bit 12 raw_handle AND 0x03;
                         llid = (if boundary = 1 then LLID_CONTINUATION else LLID_START);
                         data = \<lparr>pd_bytes = splice (replicate MAX_DATA_PDU_PAYLOAD 0) 0 (slice_of (pk_bytes p) 4 (4 + len)),
                                 pd_len = len, pd_llid = llid, pd_owner_token = ac_next_acl_owner_token c\<rparr>;
                         advance = (\<lambda>c'. c'\<lparr>ac_next_acl_owner_token := max (ac_next_acl_owner_token c' + 1) 1\<rparr>)
                     in if ac_pending c = None then Inr (advance (c\<lparr>ac_pending := Some data\<rparr>))
                        else (case put_first_free (ac_queued_acl c) data of
                                Some q \<Rightarrow> Inr (advance (c\<lparr>ac_queued_acl := q\<rparr>))
                              | None \<Rightarrow> Inl HCI_COMMAND_DISALLOWED))))"

text \<open>
  The ACL branch of an acknowledgement in \<open>connection_event\<close>: the oldest queued PDU becomes
  pending and the others move up.
\<close>

fun shift_queue :: "'a option list \<Rightarrow> 'a option list" where
  "shift_queue [] = []"
| "shift_queue [x] = [None]"
| "shift_queue (x # y # rest) = y # shift_queue (None # rest)"

definition release_acl :: "active_connection \<Rightarrow> active_connection" where
  "release_acl c = c\<lparr>ac_pending := ac_queued_acl c ! 0, ac_queued_acl := shift_queue (ac_queued_acl c)\<rparr>"

definition allocate_control_token :: "active_connection \<Rightarrow> procedure_token \<times> active_connection" where
  "allocate_control_token c =
     (let owner = ac_next_control_owner_token c
      in (\<lparr>pt_owner_token = owner, pt_generation = ucast owner\<rparr>,
          c\<lparr>ac_next_control_owner_token := (owner + 1) OR 0x80000000\<rparr>))"

definition queue_control_with_token :: "active_connection \<Rightarrow> bytes \<Rightarrow> procedure_token \<Rightarrow> bool \<times> active_connection" where
  "queue_control_with_token c b token =
     (if length b > MAX_DATA_PDU_PAYLOAD then (False, c)
      else (let data = \<lparr>pd_bytes = splice (replicate MAX_DATA_PDU_PAYLOAD 0) 0 b, pd_len = length b,
                  pd_llid = LLID_CONTROL, pd_owner_token = pt_owner_token token\<rparr>
            in if ac_pending_control c = None then (True, c\<lparr>ac_pending_control := Some data\<rparr>)
               else if ac_queued_control c = None then (True, c\<lparr>ac_queued_control := Some data\<rparr>)
               else (False, c)))"

definition queue_control_owned :: "active_connection \<Rightarrow> bytes \<Rightarrow> procedure_token option \<times> active_connection" where
  "queue_control_owned c b =
     (let (token, c1) = allocate_control_token c;
          (ok, c2) = queue_control_with_token c1 b token
      in (if ok then Some token else None, c2))"

definition queue_control :: "active_connection \<Rightarrow> bytes \<Rightarrow> bool \<times> active_connection" where
  "queue_control c b = (let (t, c1) = queue_control_owned c b in (t \<noteq> None, c1))"

section \<open>Control procedures of a connection\<close>

definition queue_remote_procedure_response_with_followup ::
    "active_connection \<Rightarrow> procedure_kind \<Rightarrow> u8 \<Rightarrow> bytes \<Rightarrow> u8 option \<Rightarrow> u32 option \<Rightarrow> bool \<times> active_connection" where
  "queue_remote_procedure_response_with_followup c kind request_opcode response expected timeout =
     (case response of [] \<Rightarrow> (False, c)
      | response_opcode # _ \<Rightarrow>
          (let (token, c1) = allocate_control_token c;
               ctx = context_new kind Remote token response_opcode expected None timeout
           in case start_remote (ac_procedures c1) ctx of
                Inl (Collision error) \<Rightarrow> queue_control c1 [0x11, request_opcode, error]
              | Inl _ \<Rightarrow> queue_control c1 [0x11, request_opcode, 0x23]
              | Inr m \<Rightarrow>
                  (let c2 = c1\<lparr>ac_procedures := m\<rparr>;
                       failing = (\<lambda>c'. (False, c'\<lparr>ac_procedures :=
                         (case fail (ac_procedures c') Remote 0x3a of Inl _ \<Rightarrow> ac_procedures c' | Inr m' \<Rightarrow> m')\<rparr>))
                   in case response_queued (ac_procedures c2) token response_opcode of
                        Inl _ \<Rightarrow> failing c2
                      | Inr m2 \<Rightarrow>
                          (let (ok, c3) = queue_control_with_token (c2\<lparr>ac_procedures := m2\<rparr>) response token
                           in if ok then (True, c3) else failing c3))))"

definition queue_remote_procedure_response ::
    "active_connection \<Rightarrow> procedure_kind \<Rightarrow> u8 \<Rightarrow> bytes \<Rightarrow> bool \<times> active_connection" where
  "queue_remote_procedure_response c kind request_opcode response =
     queue_remote_procedure_response_with_followup c kind request_opcode response None None"

definition remote_connection_parameters_active :: "active_connection \<Rightarrow> bool" where
  "remote_connection_parameters_active c =
     (case pm_remote (ac_procedures c) of None \<Rightarrow> False
      | Some ctx \<Rightarrow> pc_kind ctx = ConnectionParameters \<and> \<not> (pc_phase ctx = Complete \<or> pc_phase ctx = Failed))"

definition start_remote_instant_procedure ::
    "active_connection \<Rightarrow> procedure_kind \<Rightarrow> u8 \<Rightarrow> u16 \<Rightarrow> u8 option \<times> active_connection" where
  "start_remote_instant_procedure c kind opcode instant =
     (let (token, c1) = allocate_control_token c;
          ctx = context_new kind Remote token opcode None (Some instant) None
      in case start_remote (ac_procedures c1) ctx of
           Inr m \<Rightarrow> (None, c1\<lparr>ac_procedures := m\<rparr>)
         | Inl (Collision error) \<Rightarrow> (Some error, c1)
         | Inl _ \<Rightarrow> (Some 0x23, c1))"

definition queue_local_procedure ::
    "active_connection \<Rightarrow> procedure_kind \<Rightarrow> bytes \<Rightarrow> u8 option \<Rightarrow> u32 option \<Rightarrow> bool \<times> active_connection" where
  "queue_local_procedure c kind request expected timeout =
     (case request of [] \<Rightarrow> (False, c)
      | request_opcode # _ \<Rightarrow>
          (let (token, c1) = allocate_control_token c;
               ctx = context_new kind Local token request_opcode expected None timeout
           in case start_local (ac_procedures c1) ctx of
                Inl _ \<Rightarrow> (False, c1)
              | Inr m \<Rightarrow>
                  (let (ok, c2) = queue_control_with_token (c1\<lparr>ac_procedures := m\<rparr>) request token
                   in if ok then (True, c2)
                      else (False, c2\<lparr>ac_procedures :=
                        (case fail (ac_procedures c2) Local 0x3a of Inl _ \<Rightarrow> ac_procedures c2 | Inr m' \<Rightarrow> m')\<rparr>))))"

definition queue_local_procedure_request ::
    "active_connection \<Rightarrow> procedure_kind \<Rightarrow> bytes \<Rightarrow> u8 \<Rightarrow> bool \<times> active_connection" where
  "queue_local_procedure_request c kind request expected =
     queue_local_procedure c kind request (Some expected) (Some PROCEDURE_RESPONSE_TIMEOUT_US)"

definition local_procedure_active :: "active_connection \<Rightarrow> procedure_kind \<Rightarrow> bool" where
  "local_procedure_active c kind =
     (case pm_local (ac_procedures c) of None \<Rightarrow> False
      | Some ctx \<Rightarrow> pc_kind ctx = kind \<and> \<not> (pc_phase ctx = Complete \<or> pc_phase ctx = Failed))"

definition procedure_for_control_owner :: "active_connection \<Rightarrow> u32 \<Rightarrow> (initiator \<times> procedure_token) option" where
  "procedure_for_control_owner c owner =
     (case pm_local (ac_procedures c) of
        Some ctx \<Rightarrow> if pt_owner_token (pc_token ctx) = owner then Some (Local, pc_token ctx)
          else (case pm_remote (ac_procedures c) of
                  Some r \<Rightarrow> if pt_owner_token (pc_token r) = owner then Some (Remote, pc_token r) else None
                | None \<Rightarrow> None)
      | None \<Rightarrow> (case pm_remote (ac_procedures c) of
                  Some r \<Rightarrow> if pt_owner_token (pc_token r) = owner then Some (Remote, pc_token r) else None
                | None \<Rightarrow> None))"

text \<open>
  The three hooks share their prologue: the procedure that owns the pending control PDU, if
  any. \<open>None\<close> is their \<open>Err(())\<close>.
\<close>

definition with_pending_procedure ::
    "active_connection \<Rightarrow> (procedure_manager \<Rightarrow> initiator \<Rightarrow> procedure_token \<Rightarrow> procedure_error + procedure_manager)
     \<Rightarrow> active_connection option" where
  "with_pending_procedure c f =
     (case ac_pending_control c of None \<Rightarrow> Some c
      | Some pd \<Rightarrow> (case procedure_for_control_owner c (pd_owner_token pd) of None \<Rightarrow> Some c
          | Some (who, token) \<Rightarrow> (case f (ac_procedures c) who token of Inl _ \<Rightarrow> None
              | Inr m \<Rightarrow> Some (c\<lparr>ac_procedures := m\<rparr>))))"

definition plan_pending_control_procedure :: "active_connection \<Rightarrow> active_connection option" where
  "plan_pending_control_procedure c = with_pending_procedure c tx_planned"

definition complete_pending_control_transmit :: "active_connection \<Rightarrow> active_connection option" where
  "complete_pending_control_transmit c = with_pending_procedure c tx_done"

definition acknowledge_pending_control :: "active_connection \<Rightarrow> u64 \<Rightarrow> active_connection option" where
  "acknowledge_pending_control c now_us = with_pending_procedure c (\<lambda>m who t. nesn_ack m who t now_us)"

definition promote_priority_control_if_idle :: "active_connection \<Rightarrow> active_connection" where
  "promote_priority_control_if_idle c =
     (if ac_transmitted c = TP_None \<and> ac_tx_frame_len c = 0 \<and> ac_priority_control c \<noteq> None
      then c\<lparr>ac_pending_control := ac_priority_control c, ac_priority_control := ac_pending_control c\<rparr>
      else c)"

section \<open>Receive windows\<close>

lemma widening_eq:
  assumes "ac_next_anchor c - ac_last_sync_anchor c < 2 ^ 64"
  shows "ac_window_widening_us c =
    ((ac_next_anchor c - ac_last_sync_anchor c) * (unat (sleep_clock_accuracy_ppm (ci_sleep_clock_accuracy (ac_request c))) + 50)
      + 999999) div 1000000"
  using assms window_widening_exact_aux [of "word_of_nat (ac_next_anchor c - ac_last_sync_anchor c)"
      "ci_sleep_clock_accuracy (ac_request c)" LOCAL_SLEEP_CLOCK_PPM]
  by (simp add: ac_window_widening_us_def unat_of_nat_small LOCAL_SLEEP_CLOCK_PPM_def)

lemma widening_le:
  assumes "ac_next_anchor c - ac_last_sync_anchor c < 2 ^ 64"
  shows "1000000 * ac_window_widening_us c \<le> (ac_next_anchor c - ac_last_sync_anchor c) * 550 + 999999"
proof -
  let ?e = "ac_next_anchor c - ac_last_sync_anchor c"
  let ?p = "unat (sleep_clock_accuracy_ppm (ci_sleep_clock_accuracy (ac_request c))) + 50"
  have "?e * ?p \<le> ?e * 550" using sca_ppm_bound [of "ci_sleep_clock_accuracy (ac_request c)"] by (intro mult_le_mono2) simp
  moreover have "1000000 * ((?e * ?p + 999999) div 1000000) \<le> ?e * ?p + 999999" by simp
  ultimately show ?thesis unfolding widening_eq [OF assms] by linarith
qed

section \<open>The ACL queue\<close>

text \<open>The queued PDUs, oldest first, and the shape of the slots: a prefix is filled.\<close>

definition acl_list :: "active_connection \<Rightarrow> pending_data list" where
  "acl_list c = List.map_filter (\<lambda>x. x) (ac_pending c # ac_queued_acl c)"

fun compact :: "'a option list \<Rightarrow> bool" where
  "compact [] = True"
| "compact (None # xs) = list_all (\<lambda>x. x = None) xs"
| "compact (Some x # xs) = compact xs"

definition acl_ok :: "active_connection \<Rightarrow> bool" where
  "acl_ok c \<longleftrightarrow> length (ac_queued_acl c) = ACL_QUEUE_CAPACITY \<and> compact (ac_pending c # ac_queued_acl c)"

lemma map_filter_None: "list_all (\<lambda>x. x = None) xs \<Longrightarrow> List.map_filter (\<lambda>x. x) xs = []"
  by (induction xs) (auto simp: map_filter_simps)

lemma compact_None: "list_all (\<lambda>x. x = None) xs \<Longrightarrow> compact xs"
  by (cases xs rule: compact.cases) auto

lemma put_first_free_spec:
  "compact xs \<Longrightarrow> (case put_first_free xs d of
      None \<Rightarrow> length (List.map_filter (\<lambda>x. x) xs) = length xs
    | Some ys \<Rightarrow> compact ys \<and> length ys = length xs
        \<and> List.map_filter (\<lambda>x. x) ys = List.map_filter (\<lambda>x. x) xs @ [d]
        \<and> length (List.map_filter (\<lambda>x. x) xs) < length xs)"
proof (induction xs d rule: put_first_free.induct)
  case (2 rest d)
  then show ?case by (simp add: map_filter_simps map_filter_None compact_None)
next
  case (3 x rest d)
  then show ?case by (auto simp: map_filter_simps split: option.splits)
qed (simp add: map_filter_simps)

lemma shift_queue_eq: "xs \<noteq> [] \<Longrightarrow> shift_queue xs = tl xs @ [None]"
  by (induction xs rule: shift_queue.induct) auto

lemma map_filter_snoc_None [simp]: "List.map_filter (\<lambda>x. x) (xs @ [None]) = List.map_filter (\<lambda>x. x) xs"
  by (induction xs) (auto simp: map_filter_simps split: option.splits)

lemma compact_snoc_None [simp]: "compact (xs @ [None]) = compact xs"
  by (induction xs rule: compact.induct) auto

lemma release_acl_ok:
  assumes "acl_ok c"
  shows "acl_ok (release_acl c) \<and> acl_list (release_acl c) = tl (acl_list c)"
proof -
  obtain q qs where q: "ac_queued_acl c = q # qs" "length qs = 3"
    using assms by (auto simp: acl_ok_def ACL_QUEUE_CAPACITY_def numeral_eq_Suc length_Suc_conv)
  show ?thesis
    using assms unfolding acl_ok_def acl_list_def release_acl_def q
    by (cases "ac_pending c"; cases q)
       (auto simp: shift_queue_eq map_filter_simps map_filter_None compact_None ACL_QUEUE_CAPACITY_def)
qed

text \<open>The packet as the Host sent it: well formed for a handle, and what it asks to transmit.\<close>

definition acl_wf :: "u16 \<Rightarrow> packet \<Rightarrow> bool" where
  "acl_wf h p \<longleftrightarrow> length (pk_bytes p) = HCI_PACKET_CAPACITY \<and> 4 \<le> pk_len p
     \<and> u16_from_le (pk_bytes p ! 0) (pk_bytes p ! 1) AND 0x0fff = h
     \<and> unat (u16_from_le (pk_bytes p ! 2) (pk_bytes p ! 3)) + 4 = pk_len p \<and> pk_len p \<le> 31"

definition acl_item :: "packet \<Rightarrow> u8 \<times> bytes" where
  "acl_item p =
     (if drop_bit 12 (u16_from_le (pk_bytes p ! 0) (pk_bytes p ! 1)) AND 0x03 = 1 then LLID_CONTINUATION else LLID_START,
      slice_of (pk_bytes p) 4 (pk_len p))"

definition acl_contents :: "active_connection \<Rightarrow> (u8 \<times> bytes) list" where
  "acl_contents c = map (\<lambda>d. (pd_llid d, take (pd_len d) (pd_bytes d))) (acl_list c)"

lemma queue_acl_spec:
  assumes "acl_ok c" "acl_wf (ac_handle c) p"
  shows "if length (acl_list c) < 5
    then \<exists>c'. queue_acl c p = Inr c' \<and> acl_ok c' \<and> ac_handle c' = ac_handle c \<and> acl_contents c' = acl_contents c @ [acl_item p]
    else queue_acl c p = Inl HCI_COMMAND_DISALLOWED"
proof -
  define d where "d = \<lparr>pd_bytes = splice (replicate MAX_DATA_PDU_PAYLOAD 0) 0 (slice_of (pk_bytes p) 4 (pk_len p)),
    pd_len = pk_len p - 4, pd_llid = fst (acl_item p), pd_owner_token = ac_next_acl_owner_token c\<rparr>"
  let ?adv = "\<lambda>c' :: active_connection. c'\<lparr>ac_next_acl_owner_token := max (ac_next_acl_owner_token c' + 1) 1\<rparr>"
  have wf: "length (pk_bytes p) = 64" "4 \<le> pk_len p" "pk_len p \<le> 31"
    "unat (u16_from_le (pk_bytes p ! 2) (pk_bytes p ! 3)) = pk_len p - 4"
    "u16_from_le (pk_bytes p ! 0) (pk_bytes p ! 1) AND 0x0fff = ac_handle c"
    using assms(2) by (auto simp: acl_wf_def HCI_PACKET_CAPACITY_def)
  have q: "queue_acl c p = (if ac_pending c = None then Inr (?adv (c\<lparr>ac_pending := Some d\<rparr>))
      else (case put_first_free (ac_queued_acl c) d of
              Some q \<Rightarrow> Inr (?adv (c\<lparr>ac_queued_acl := q\<rparr>)) | None \<Rightarrow> Inl HCI_COMMAND_DISALLOWED))"
    using wf by (simp add: queue_acl_def Let_def d_def acl_item_def MAX_DATA_PDU_PAYLOAD_def ACL_PAYLOAD_LEN_def not_less)
  have item: "(pd_llid d, take (pd_len d) (pd_bytes d)) = acl_item p"
    using wf by (simp add: d_def acl_item_def splice_def)
  have len: "length (ac_queued_acl c) = 4" using assms(1) by (simp add: acl_ok_def ACL_QUEUE_CAPACITY_def)
  show ?thesis
  proof (cases "ac_pending c")
    case None
    then have "list_all (\<lambda>x. x = None) (ac_queued_acl c)" using assms(1) by (simp add: acl_ok_def)
    then show ?thesis using None len item
      by (simp add: q acl_ok_def acl_list_def acl_contents_def map_filter_simps map_filter_None compact_None ACL_QUEUE_CAPACITY_def)
  next
    case (Some x)
    then have cp: "compact (ac_queued_acl c)" using assms(1) by (simp add: acl_ok_def)
    show ?thesis
    proof (cases "put_first_free (ac_queued_acl c) d")
      case None
      then show ?thesis using put_first_free_spec [OF cp, of d] Some len
        by (simp add: q acl_list_def map_filter_simps)
    next
      case (Some ys)
      then show ?thesis using put_first_free_spec [OF cp, of d] \<open>ac_pending c = Some x\<close> len item
        by (simp add: q acl_list_def acl_ok_def acl_contents_def map_filter_simps ACL_QUEUE_CAPACITY_def)
    qed
  qed
qed

section \<open>The credit interface\<close>

datatype 'p queue_op = Enq 'p | Deq

fun run_queue :: "('s \<Rightarrow> 'p \<Rightarrow> 's option) \<Rightarrow> ('s \<Rightarrow> 's) \<Rightarrow> 'p queue_op list \<Rightarrow> 's \<Rightarrow> 's option" where
  "run_queue enq deq [] s = Some s"
| "run_queue enq deq (Enq p # ops) s = (case enq s p of None \<Rightarrow> None | Some s' \<Rightarrow> run_queue enq deq ops s')"
| "run_queue enq deq (Deq # ops) s = run_queue enq deq ops (deq s)"

text \<open>A sender that holds \<open>cap\<close> credits and \<open>n\<close> outstanding packets keeps to its credits.\<close>

fun keeps_credits :: "nat \<Rightarrow> nat \<Rightarrow> 'p queue_op list \<Rightarrow> bool" where
  "keeps_credits cap n [] = True"
| "keeps_credits cap n (Enq p # ops) = (n < cap \<and> keeps_credits cap (n + 1) ops)"
| "keeps_credits cap n (Deq # ops) = (0 < n \<and> keeps_credits cap (n - 1) ops)"

fun enqueued :: "'p queue_op list \<Rightarrow> 'p list" where
  "enqueued [] = []"
| "enqueued (Enq p # ops) = p # enqueued ops"
| "enqueued (Deq # ops) = enqueued ops"

definition dequeues :: "'p queue_op list \<Rightarrow> nat" where
  "dequeues ops = length (filter (\<lambda>x. x = Deq) ops)"

locale credit_queue =
  fixes enq :: "'s \<Rightarrow> 'p \<Rightarrow> 's option"
    and deq :: "'s \<Rightarrow> 's"
    and contents :: "'s \<Rightarrow> 'a list"
    and item :: "'p \<Rightarrow> 'a"
    and ok :: "'s \<Rightarrow> bool"
    and wf :: "'p \<Rightarrow> bool"
    and capacity :: nat
  assumes enq_room: "ok s \<Longrightarrow> wf p \<Longrightarrow> length (contents s) < capacity \<Longrightarrow>
      \<exists>s'. enq s p = Some s' \<and> ok s' \<and> contents s' = contents s @ [item p]"
    and deq_front: "ok s \<Longrightarrow> contents s \<noteq> [] \<Longrightarrow> ok (deq s) \<and> contents (deq s) = tl (contents s)"
begin

lemma run_credit:
  assumes "ok s" "list_all wf (enqueued ops)" "keeps_credits capacity (length (contents s)) ops"
  shows "\<exists>s'. run_queue enq deq ops s = Some s' \<and> ok s'
    \<and> contents s' = drop (dequeues ops) (contents s @ map item (enqueued ops))"
  using assms
proof (induction ops arbitrary: s)
  case Nil
  then show ?case by (simp add: dequeues_def)
next
  case (Cons x ops)
  show ?case
  proof (cases x)
    case (Enq p)
    then obtain s1 where s1: "enq s p = Some s1" "ok s1" "contents s1 = contents s @ [item p]"
      using enq_room [of s p] Cons.prems by auto
    then show ?thesis using Cons.IH [of s1] Cons.prems Enq by (simp add: dequeues_def)
  next
    case Deq
    then have ne: "contents s \<noteq> []" using Cons.prems by auto
    then have d: "ok (deq s)" "contents (deq s) = tl (contents s)" using deq_front Cons.prems(1) by auto
    moreover obtain a as where "contents s = a # as" using ne by (cases "contents s") auto
    ultimately show ?thesis using Cons.IH [of "deq s"] Cons.prems Deq by (simp add: dequeues_def)
  qed
qed

end

definition acl_enq :: "active_connection \<Rightarrow> packet \<Rightarrow> active_connection option" where
  "acl_enq c p = (case queue_acl c p of Inl _ \<Rightarrow> None | Inr c' \<Rightarrow> Some c')"

interpretation acl_queue: credit_queue acl_enq release_acl acl_contents acl_item
  "\<lambda>c. acl_ok c \<and> ac_handle c = h" "acl_wf h" 5 for h
proof (unfold_locales, goal_cases)
  case (1 s p)
  then show ?case using queue_acl_spec [of s p] by (auto simp: acl_enq_def acl_contents_def)
next
  case (2 s)
  then show ?case using release_acl_ok [of s] by (auto simp: acl_contents_def map_tl release_acl_def)
qed

section \<open>Invariant of the schedule\<close>

definition conn_ok :: "active_connection \<Rightarrow> bool" where
  "conn_ok c \<longleftrightarrow> selector_ok (ac_selector c) \<and> manager_ok (ac_procedures c) \<and> 6 \<le> unat (ci_interval (ac_request c))
     \<and> pred_option cu_parameters_are_valid (ac_pending_connection_update c)
     \<and> pred_option (\<lambda>m. length (cm_map m) = 5 \<and> data_channel_map_is_valid (cm_map m)) (ac_pending_channel_map c)"

abbreviation ac_phase :: "active_connection \<Rightarrow> nat" where
  "ac_phase c \<equiv> unat (cs_last_unmapped (ac_selector c))"

abbreviation ac_hop :: "active_connection \<Rightarrow> nat" where
  "ac_hop c \<equiv> unat (cs_hop (ac_selector c))"

lemma cu_valid_interval: "cu_parameters_are_valid u \<Longrightarrow> 6 \<le> unat (cu_interval u)"
  by (simp add: cu_parameters_are_valid_def connection_timing_iff)

lemma apply_channel_map_ok:
  assumes "conn_ok c"
  shows "\<exists>c'. apply_channel_map c = Inr c' \<and> conn_ok c' \<and> ac_event_counter c' = ac_event_counter c
    \<and> ac_next_anchor c' = ac_next_anchor c \<and> ac_phase c' = ac_phase c \<and> ac_hop c' = ac_hop c"
proof (cases "\<exists>m. ac_pending_channel_map c = Some m \<and> cm_instant m = ac_event_counter c")
  case True
  then obtain m where m: "ac_pending_channel_map c = Some m" "cm_instant m = ac_event_counter c" by blast
  have v: "length (cm_map m) = 5" "data_channel_map_is_valid (cm_map m)" using assms m by (auto simp: conn_ok_def)
  obtain s where s: "update_map (ac_selector c) (cm_map m) = Inr s"
    using v by (auto simp: update_map_def used_table_eq)
  have "selector_ok s \<and> cs_hop s = cs_hop (ac_selector c) \<and> cs_last_unmapped s = cs_last_unmapped (ac_selector c)"
    using selector_ok_update [OF _ v(1) s] assms by (auto simp: conn_ok_def)
  with m s assms show ?thesis by (simp add: apply_channel_map_def conn_ok_def)
next
  case False
  with assms show ?thesis by (cases "ac_pending_channel_map c") (auto simp: apply_channel_map_def)
qed

lemma apply_connection_update_ok:
  assumes "conn_ok c" "apply_connection_update now c = (r, c')"
  shows "conn_ok c' \<and> ac_event_counter c' = ac_event_counter c \<and> ac_next_anchor c' = ac_next_anchor c
    \<and> ac_selector c' = ac_selector c"
proof (cases "\<exists>u. ac_pending_connection_update c = Some u \<and> cu_instant u = ac_event_counter c")
  case True
  then obtain u where u: "ac_pending_connection_update c = Some u" "cu_instant u = ac_event_counter c" by blast
  have "6 \<le> unat (cu_interval u)" using assms(1) u cu_valid_interval by (simp add: conn_ok_def)
  with u assms show ?thesis by (auto simp: apply_connection_update_def conn_ok_def Let_def)
next
  case False
  with assms show ?thesis
    by (cases "ac_pending_connection_update c") (auto simp: apply_connection_update_def)
qed

lemma on_connection_event_ok: "manager_ok m \<Longrightarrow> manager_ok (on_connection_event m e er)"
  using procedure_call_ok [of m "ConnectionEventEv e er"] by simp

lemma apply_instants_ok:
  assumes "conn_ok c"
  shows "\<exists>r c'. apply_instants now c = Inr (r, c') \<and> conn_ok c' \<and> ac_event_counter c' = ac_event_counter c
    \<and> ac_next_anchor c' = ac_next_anchor c \<and> ac_phase c' = ac_phase c \<and> ac_hop c' = ac_hop c"
proof -
  obtain c1 where c1: "apply_channel_map c = Inr c1" "conn_ok c1" "ac_event_counter c1 = ac_event_counter c"
    "ac_next_anchor c1 = ac_next_anchor c" "ac_phase c1 = ac_phase c" "ac_hop c1 = ac_hop c"
    using apply_channel_map_ok [OF assms] by blast
  obtain r c2 where c2: "apply_connection_update now c1 = (r, c2)" by (cases "apply_connection_update now c1")
  note ok = apply_connection_update_ok [OF c1(2) c2]
  have "conn_ok (c2\<lparr>ac_procedures := on_connection_event (ac_procedures c2) (ac_event_counter c2) 0x28\<rparr>)"
    using conjunct1 [OF ok] on_connection_event_ok [of "ac_procedures c2"] by (simp add: conn_ok_def)
  with ok c1 c2 show ?thesis by (simp add: apply_instants_def)
qed

lemma ac_next_channel_ok:
  assumes "conn_ok c"
  shows "\<exists>ch c'. ac_next_channel c = Some (ch, c') \<and> conn_ok c' \<and> ac_event_counter c' = ac_event_counter c
    \<and> ac_next_anchor c' = ac_next_anchor c \<and> ac_phase c' = (ac_phase c + ac_hop c) mod 37 \<and> ac_hop c' = ac_hop c
    \<and> unat (channel_index ch) \<in> set (used_channels (cs_map (ac_selector c)))"
proof -
  have ok: "selector_ok (ac_selector c)" using assms by (simp add: conn_ok_def)
  then have ne: "used_channels (cs_map (ac_selector c)) \<noteq> []"
    by (auto simp: selector_ok_def used_table_eq unat_eq_zero)
  obtain ch s where s: "next_channel (ac_selector c) = Some (ch, s)" "selector_ok s" "cs_hop s = cs_hop (ac_selector c)"
    "unat (cs_last_unmapped s) = (ac_phase c + ac_hop c) mod 37"
    "unat (channel_index ch) = remap (used_channels (cs_map (ac_selector c))) (unat (cs_last_unmapped s))"
    using next_channel_ok [OF ok] by blast
  have "unat (channel_index ch) \<in> set (used_channels (cs_map (ac_selector c)))"
    unfolding s(5) using ne by (simp add: remap_def)
  with s assms show ?thesis by (simp add: ac_next_channel_def conn_ok_def)
qed

lemma schedule_following_event_ok:
  assumes "conn_ok c"
  shows "conn_ok (schedule_following_event c) \<and> ac_event_counter (schedule_following_event c) = ac_event_counter c + 1
    \<and> ac_next_anchor c + 7500 \<le> ac_next_anchor (schedule_following_event c)
    \<and> ac_selector (schedule_following_event c) = ac_selector c"
  using assms
  by (auto simp: schedule_following_event_def conn_ok_def Let_def ac_interval_def split: option.splits)

lemma receive_close_ge: "ac_next_anchor c \<le> receive_close c"
  by (simp add: receive_close_def Let_def)

lemma skip_loop_ok:
  "conn_ok c \<Longrightarrow> count < 65536 \<Longrightarrow>
   case skip_loop clock now count notify c of
     None \<Rightarrow> False
   | Some (Inl e) \<Rightarrow> e = 0x08 \<and> ac_next_anchor c + (65535 - count) * 7500 < now
   | Some (Inr (n, notify', c')) \<Rightarrow> conn_ok c' \<and> now \<le> receive_close c' \<and> count \<le> n \<and> n < 65536
       \<and> ac_event_counter c' = ac_event_counter c + word_of_nat (n - count)
       \<and> ac_phase c' mod 37 = (ac_phase c + (n - count) * ac_hop c) mod 37 \<and> ac_hop c' = ac_hop c"
proof (induction clock now count notify c rule: skip_loop.induct)
  case (1 clock now count notify c)
  show ?case
  proof (cases "now > receive_close c")
    case False
    with 1(2,3) show ?thesis by (simp add: skip_loop.simps [of clock now count notify c])
  next
    case True
    obtain a ch c1 where i: "apply_instants (clock count) c = Inr ((a, ch), c1)" "conn_ok c1"
        "ac_event_counter c1 = ac_event_counter c" "ac_next_anchor c1 = ac_next_anchor c"
        "ac_phase c1 = ac_phase c" "ac_hop c1 = ac_hop c"
      using apply_instants_ok [OF 1(2), of "clock count"] by (auto)
    define c2 where "c2 = (if a then c1\<lparr>ac_local_connection_param_request := None\<rparr> else c1)"
    have c2: "conn_ok c2" "ac_event_counter c2 = ac_event_counter c" "ac_next_anchor c2 = ac_next_anchor c"
        "ac_phase c2 = ac_phase c" "ac_hop c2 = ac_hop c"
      using i by (simp_all add: c2_def conn_ok_def)
    obtain x c3 where c3: "ac_next_channel c2 = Some (x, c3)" "conn_ok c3" "ac_event_counter c3 = ac_event_counter c"
        "ac_next_anchor c3 = ac_next_anchor c" "ac_phase c3 = (ac_phase c + ac_hop c) mod 37" "ac_hop c3 = ac_hop c"
      using ac_next_channel_ok [OF c2(1)] c2 by auto
    let ?c4 = "schedule_following_event c3"
    note c4 = schedule_following_event_ok [OF c3(2)]
    let ?n = "notify \<or> ch \<or> (a \<and> ac_local_connection_param_request c1 \<noteq> None)"
    have step: "skip_loop clock now count notify c =
        (if count + 1 < 65536 then skip_loop clock now (count + 1) ?n ?c4 else Some (Inl 0x08))"
      using True i(1) c3(1) by (subst skip_loop.simps) (simp add: Let_def c2_def)
    show ?thesis
    proof (cases "count + 1 < 65536")
      case False
      have "count = 65535" using False 1(3) by simp
      moreover have "ac_next_anchor c < now" using True receive_close_ge [of c] by simp
      ultimately show ?thesis unfolding step by simp
    next
      case less: True
      have IH: "case skip_loop clock now (count + 1) ?n ?c4 of
           None \<Rightarrow> False
         | Some (Inl e) \<Rightarrow> e = 0x08 \<and> ac_next_anchor ?c4 + (65535 - (count + 1)) * 7500 < now
         | Some (Inr (n, notify', c')) \<Rightarrow> conn_ok c' \<and> now \<le> receive_close c' \<and> count + 1 \<le> n \<and> n < 65536
             \<and> ac_event_counter c' = ac_event_counter ?c4 + word_of_nat (n - (count + 1))
             \<and> ac_phase c' mod 37 = (ac_phase ?c4 + (n - (count + 1)) * ac_hop ?c4) mod 37 \<and> ac_hop c' = ac_hop ?c4"
        using 1(1) [OF True i(1) refl refl refl c2_def c3(1) refl refl less] c4 less by simp
      show ?thesis
      proof (cases "skip_loop clock now (count + 1) ?n ?c4")
        case None
        with IH show ?thesis by simp
      next
        case (Some r)
        show ?thesis
        proof (cases r)
          case (Inl e)
          then have e: "e = 0x08" "ac_next_anchor ?c4 + (65535 - (count + 1)) * 7500 < now" using IH Some by simp_all
          have "(65535 - count) * 7500 = (65535 - (count + 1)) * 7500 + 7500" using less by simp
          moreover have "ac_next_anchor c + 7500 \<le> ac_next_anchor ?c4" using c4 c3(4) by simp
          ultimately have "ac_next_anchor c + (65535 - count) * 7500 < now" using e(2) by linarith
          then show ?thesis using e(1) Some Inl less unfolding step by simp
        next
          case (Inr t)
          obtain n nt c' where t: "t = (n, nt, c')" by (cases t)
          have r: "conn_ok c'" "now \<le> receive_close c'" "count + 1 \<le> n" "n < 65536"
              "ac_event_counter c' = ac_event_counter ?c4 + word_of_nat (n - (count + 1))"
              "ac_phase c' mod 37 = (ac_phase ?c4 + (n - (count + 1)) * ac_hop ?c4) mod 37" "ac_hop c' = ac_hop ?c4"
            using IH Some Inr t by simp_all
          have k: "n - count = Suc (n - (count + 1))" using r(3) by simp
          have e: "ac_event_counter c' = ac_event_counter c + word_of_nat (n - count)"
            using r(5) c4 c3(3) unfolding k by simp
          have p: "ac_phase c' mod 37 = (ac_phase c + (n - count) * ac_hop c) mod 37"
            using r(6) c4 c3(5,6) unfolding k by (simp add: mod_simps algebra_simps)
          show ?thesis using Some Inr t r e p c4 c3(6) less unfolding step by simp
        qed
      qed
    qed
  qed
qed

section \<open>An example connection\<close>

lemma example_connect_parse:
  "parse_connect_ind_detailed (connect_ind_bytes 0x45 [1, 2, 3, 4, 5, 6] [9, 8, 7, 6, 5, 4] example_connect)
     \<lparr>da_bytes = [9, 8, 7, 6, 5, 4], da_kind = Public\<rparr> = Inr example_connect"
  using parse_connect_ind_layout [of "[1, 2, 3, 4, 5, 6]" "\<lparr>da_bytes = [9, 8, 7, 6, 5, 4], da_kind = Public\<rparr>" example_connect "0x45"]
    example_address full_map_valid example_timing
  by (simp add: example_connect_def)

definition example_connection :: active_connection where
  "example_connection = (case active_connection_new 1000 example_connect 500 of Inr c \<Rightarrow> c | Inl _ \<Rightarrow> undefined)"

lemma example_connection_fields:
  "active_connection_new 1000 example_connect 500 = Inr example_connection"
  "ac_handle example_connection = 1" "ac_next_anchor example_connection = 1750" "ac_last_sync_anchor example_connection = 500"
  "ac_receive_window_size_us example_connection = 2500" "ac_pending_connection_update example_connection = None"
  "ac_request example_connection = example_connect" "ac_pending_channel_map example_connection = None"
  "ac_pending example_connection = None" "ac_queued_acl example_connection = [None, None, None, None]"
  "ac_procedures example_connection = manager_new" "selector_ok (ac_selector example_connection)"
  "ac_event_counter example_connection = 0" "ac_transmitted example_connection = TP_None"
  "ac_pending_control example_connection = None" "ac_queued_control example_connection = None"
  "ac_local_connection_param_request example_connection = None" "ac_next_control_owner_token example_connection = 0x80000001"
proof -
  obtain s where s: "channel_selection1_new (ci_channel_map example_connect) (ci_hop_increment example_connect) = Inr s"
    using full_map by (simp add: example_connect_def)
  then have ok: "selector_ok s" using selector_ok_new [OF _ s] by (simp add: example_connect_def)
  note d = example_connection_def active_connection_new_def active_connection_new_for_def s Let_def
    CONNECTION_HANDLE_def ACL_QUEUE_CAPACITY_def
  show "active_connection_new 1000 example_connect 500 = Inr example_connection"
    "ac_handle example_connection = 1" "ac_last_sync_anchor example_connection = 500"
    "ac_pending_connection_update example_connection = None"
    "ac_request example_connection = example_connect" "ac_pending_channel_map example_connection = None"
    "ac_pending example_connection = None" "ac_procedures example_connection = manager_new"
    "ac_event_counter example_connection = 0" "ac_transmitted example_connection = TP_None"
    "ac_pending_control example_connection = None" "ac_queued_control example_connection = None"
    "ac_local_connection_param_request example_connection = None" "ac_next_control_owner_token example_connection = 0x80000001"
    by (simp_all add: d)
  show "ac_queued_acl example_connection = [None, None, None, None]" by (simp add: d) (simp add: numeral_eq_Suc)
  show "ac_next_anchor example_connection = 1750" "ac_receive_window_size_us example_connection = 2500"
    by (simp_all add: d) (simp_all add: example_connect_def)
  show "selector_ok (ac_selector example_connection)" using ok by (simp add: d)
qed

lemma example_connection_ok: "conn_ok example_connection" "acl_ok example_connection"
  by (simp_all add: conn_ok_def acl_ok_def example_connection_fields manager_ok_def manager_new_def ACL_QUEUE_CAPACITY_def
      example_connect_def)

section \<open>Properties\<close>

text \<open>
  C10. The ACL queue honours the credits it reports: a Host that keeps at most five packets
  outstanding never has one refused, and the payloads leave in the order they came, whatever
  the interleaving of Host packets and peer acknowledgements.
\<close>

theorem acl_credits_fifo:
  assumes "acl_ok c" "list_all (acl_wf (ac_handle c)) (enqueued ops)"
    and "keeps_credits (unat ACL_CREDITS) (length (acl_contents c)) ops"
  shows "\<exists>c'. run_queue acl_enq release_acl ops c = Some c' \<and> acl_ok c'
    \<and> acl_contents c' = drop (dequeues ops) (acl_contents c @ map acl_item (enqueued ops))"
  using acl_queue.run_credit [of c "ac_handle c" ops] assms by (auto simp: ACL_CREDITS_def)

theorem acl_credits_fifo_witness:
  "let p = pad Kind_AclData [1, 0x20, 2, 0, 0xaa, 0xbb]; q = pad Kind_AclData [1, 0x10, 1, 0, 0xcc] in
   \<exists>c'. run_queue acl_enq release_acl [Enq p, Enq q, Deq] example_connection = Some c'
     \<and> acl_contents c' = [(LLID_CONTINUATION, [0xcc])]"
proof -
  let ?p = "pad Kind_AclData [1, 0x20, 2, 0, 0xaa, 0xbb]" and ?q = "pad Kind_AclData [1, 0x10, 1, 0, 0xcc]"
  have wf: "acl_wf (ac_handle example_connection) ?p" "acl_wf (ac_handle example_connection) ?q"
    by (simp_all add: acl_wf_def pad_def HCI_PACKET_CAPACITY_def example_connection_fields u16_from_le_def)
  have e: "acl_contents example_connection = []"
    by (simp add: acl_contents_def acl_list_def example_connection_fields map_filter_simps)
  have q: "acl_item ?q = (LLID_CONTINUATION, [0xcc])"
    by (simp add: acl_item_def pad_def u16_from_le_def slice_of_def)
  have "\<exists>c'. run_queue acl_enq release_acl [Enq ?p, Enq ?q, Deq] example_connection = Some c' \<and> acl_ok c'
    \<and> acl_contents c' = drop (dequeues [Enq ?p, Enq ?q, Deq]) (acl_contents example_connection @ map acl_item (enqueued [Enq ?p, Enq ?q, Deq]))"
    by (rule acl_credits_fifo [OF example_connection_ok(2)]) (simp_all add: wf e ACL_CREDITS_def)
  then show ?thesis by (auto simp: Let_def e q dequeues_def simp del: run_queue.simps)
qed

text \<open>
  C13. The receive window covers the clock drift: it can always be computed, opens no earlier
  than the last synchronised anchor, lasts exactly until \<open>receive_close\<close>, and a transmission
  that starts anywhere in the transmit window widened by the drift of both clocks starts after
  the set-up lead and ends before the window closes.
\<close>

theorem receive_window_covers_drift:
  fixes c :: active_connection
  defines "elapsed \<equiv> ac_next_anchor c - ac_last_sync_anchor c"
    and "ppm \<equiv> unat (sleep_clock_accuracy_ppm (ci_sleep_clock_accuracy (ac_request c))) + 50"
  assumes "ac_last_sync_anchor c + 1250 \<le> ac_next_anchor c" "elapsed < 2 ^ 53"
    and "ac_receive_window_size_us c \<le> 10000"
    and "pred_option (\<lambda>u. cu_instant u \<noteq> ac_event_counter c) (ac_pending_connection_update c)"
  shows "\<exists>t. receive_open c = Some t \<and> ac_last_sync_anchor c \<le> t
    \<and> t + fst (take_receive_timeout c) = receive_close c
    \<and> (\<forall>a. 1000000 * (ac_next_anchor c - a) \<le> elapsed * ppm
         \<and> 1000000 * (a - (ac_next_anchor c + ac_receive_window_size_us c)) \<le> elapsed * ppm
         \<longrightarrow> t + RX_SETUP_LEAD_US \<le> a \<and> a + MAX_DATA_PACKET_AIRTIME_US \<le> receive_close c)"
proof -
  let ?w = "ac_window_widening_us c"
  have lt: "ac_next_anchor c - ac_last_sync_anchor c < 2 ^ 64" using assms(4) unfolding elapsed_def by simp
  have w: "?w = (elapsed * ppm + 999999) div 1000000" unfolding elapsed_def ppm_def by (rule widening_eq [OF lt])
  have cover: "elapsed * ppm \<le> 1000000 * ?w" unfolding w by linarith
  have le: "1000000 * ?w \<le> elapsed * 550 + 999999" unfolding elapsed_def by (rule widening_le [OF lt])
  have small: "?w < 2 ^ 60" using le assms(4) by simp
  have lead: "1000 + ?w \<le> elapsed" using le assms(3) unfolding elapsed_def by linarith
  have open_: "receive_open c = Some (ac_next_anchor c - (1000 + ?w))"
    using lead unfolding elapsed_def by (simp add: receive_open_def receive_setup_lead_us_def RX_SETUP_LEAD_US_def Let_def)
  have win: "(case ac_pending_connection_update c of
      Some update \<Rightarrow> if cu_instant update = ac_event_counter c
        then unat (cu_window_size update) * 1250 else ac_receive_window_size_us c
      | None \<Rightarrow> ac_receive_window_size_us c) = ac_receive_window_size_us c"
    using assms(6) by (auto split: option.splits)
  have air: "MAX_DATA_PACKET_AIRTIME_US = 296"
    by (simp add: MAX_DATA_PACKET_AIRTIME_US_def MAX_DATA_PDU_PAYLOAD_def ACL_PAYLOAD_LEN_def)
  have close: "receive_close c = ac_next_anchor c + ?w + ac_receive_window_size_us c + 296"
    using small assms(5) by (simp add: receive_close_def Let_def win sat_add64_def air)
  have timeout: "fst (take_receive_timeout c) = 1000 + 2 * ?w + ac_receive_window_size_us c + 296"
    using small assms(5)
    by (simp add: take_receive_timeout_def Let_def sat_add64_def sat_mul64_def air receive_setup_lead_us_def RX_SETUP_LEAD_US_def)
  have "t + 1000 \<le> a \<and> a + 296 \<le> receive_close c"
    if "t = ac_next_anchor c - (1000 + ?w)" "1000000 * (ac_next_anchor c - a) \<le> elapsed * ppm"
      "1000000 * (a - (ac_next_anchor c + ac_receive_window_size_us c)) \<le> elapsed * ppm" for a t
    using that cover lead unfolding close elapsed_def by linarith
  moreover have "ac_last_sync_anchor c \<le> ac_next_anchor c - (1000 + ?w)"
    using lead assms(3) unfolding elapsed_def by linarith
  moreover have "ac_next_anchor c - (1000 + ?w) + fst (take_receive_timeout c) = receive_close c"
    using lead unfolding timeout close elapsed_def by linarith
  ultimately show ?thesis using open_ by (auto simp: air RX_SETUP_LEAD_US_def)
qed

theorem receive_window_covers_drift_witness:
  "\<exists>t. receive_open example_connection = Some t \<and> 500 \<le> t
    \<and> t + fst (take_receive_timeout example_connection) = receive_close example_connection"
  using receive_window_covers_drift [of example_connection] by (simp add: example_connection_fields) blast

text \<open>
  C14. Catching up after a long pause keeps in step with the peer: skipping expired events
  always returns, without a panic; it ends with an unexpired event, and the event counter and
  the hop phase have advanced by exactly the number of skipped events. It fails, with the
  supervision error, only when more than 65535 events have expired.
\<close>

theorem skip_expired_in_step:
  assumes "conn_ok c"
  shows "(\<exists>n notify c'. skip_expired_events clock now c = Some (Inr (n, notify, c')) \<and> conn_ok c' \<and> now \<le> receive_close c'
      \<and> n < 65536 \<and> ac_event_counter c' = ac_event_counter c + word_of_nat n
      \<and> ac_phase c' mod 37 = (ac_phase c + n * ac_hop c) mod 37 \<and> ac_hop c' = ac_hop c)
    \<or> (skip_expired_events clock now c = Some (Inl 0x08) \<and> ac_next_anchor c + 65535 * 7500 < now)"
proof -
  have "case skip_loop clock now 0 False c of
     None \<Rightarrow> False
   | Some (Inl e) \<Rightarrow> e = 0x08 \<and> ac_next_anchor c + (65535 - 0) * 7500 < now
   | Some (Inr (n, notify', c')) \<Rightarrow> conn_ok c' \<and> now \<le> receive_close c' \<and> 0 \<le> n \<and> n < 65536
       \<and> ac_event_counter c' = ac_event_counter c + word_of_nat (n - 0)
       \<and> ac_phase c' mod 37 = (ac_phase c + (n - 0) * ac_hop c) mod 37 \<and> ac_hop c' = ac_hop c"
    by (rule skip_loop_ok [OF assms]) simp
  then show ?thesis
    unfolding skip_expired_events_def by (auto split: option.splits sum.splits)
qed

theorem skip_expired_in_step_witness:
  "\<exists>n notify c'. skip_expired_events (\<lambda>_. 5000000) 5000000 example_connection = Some (Inr (n, notify, c'))
     \<and> conn_ok c' \<and> ac_event_counter c' = word_of_nat n"
  using skip_expired_in_step [OF example_connection_ok(1), of "\<lambda>_. 5000000" 5000000]
  by (auto simp: example_connection_fields)

text \<open>
  Every CONNECT\_IND the parser accepts starts a connection: the constructor succeeds, the
  schedule invariant and the empty ACL queue hold, and the first receive window can be opened.
\<close>

theorem connection_setup:
  assumes "parse_connect_ind_detailed p a = Inr r"
  shows "\<exists>c. active_connection_new now r t = Inr c \<and> conn_ok c \<and> acl_ok c \<and> acl_contents c = []
    \<and> ac_last_sync_anchor c + 1250 \<le> ac_next_anchor c \<and> ac_receive_window_size_us c \<le> 10000
    \<and> receive_open c \<noteq> None"
proof -
  have v: "length (ci_channel_map r) = 5" "data_channel_map_is_valid (ci_channel_map r)"
    "5 \<le> ci_hop_increment r" "ci_hop_increment r \<le> 16" "unat (ci_window_size r) \<le> 8" "6 \<le> unat (ci_interval r)"
    "unat (ci_window_offset r) \<le> 3200"
    using parse_connect_ind_detailed_ok [OF assms] by (auto simp: connection_timing_iff)
  obtain s where s: "channel_selection1_new (ci_channel_map r) (ci_hop_increment r) = Inr s"
    using v by (auto simp: channel_selection1_new_def used_table_eq)
  obtain c where c: "active_connection_new now r t = Inr c"
    by (simp add: active_connection_new_def active_connection_new_for_def s Let_def)
  have f: "ac_selector c = s" "ac_request c = r" "ac_next_anchor c = t + (unat (ci_window_offset r) + 1) * 1250"
    "ac_last_sync_anchor c = t" "ac_receive_window_size_us c = unat (ci_window_size r) * 1250"
    "ac_pending_connection_update c = None" "ac_pending_channel_map c = None" "ac_procedures c = manager_new"
    "ac_pending c = None" "ac_queued_acl c = replicate ACL_QUEUE_CAPACITY None"
    using c by (auto simp: active_connection_new_def active_connection_new_for_def s Let_def)
  have "conn_ok c"
    using selector_ok_new [OF v(1) s] v(6) by (simp add: conn_ok_def f manager_ok_def manager_new_def)
  moreover have "acl_ok c" "acl_contents c = []"
    by (simp_all add: acl_ok_def f acl_contents_def acl_list_def ACL_QUEUE_CAPACITY_def map_filter_simps numeral_eq_Suc)
  moreover have "receive_open c \<noteq> None"
  proof -
    have "1000000 * ac_window_widening_us c \<le> (ac_next_anchor c - ac_last_sync_anchor c) * 550 + 999999"
      using v(7) by (intro widening_le) (simp add: f)
    then show ?thesis by (simp add: receive_open_def receive_setup_lead_us_def RX_SETUP_LEAD_US_def Let_def f)
  qed
  ultimately show ?thesis using c v(5) by (simp add: f)
qed

theorem connection_setup_witness:
  "active_connection_new 1000 example_connect 500 = Inr example_connection \<and> conn_ok example_connection
    \<and> receive_open example_connection \<noteq> None"
  using connection_setup [OF example_connect_parse, of 1000 500] by (simp add: example_connection_fields(1))

end
