(* ===== verification/Runner.thy ===== *)
theory Runner
  imports Connection
begin

text \<open>
  The Link Layer runner, \<open>Runner\<close> of \<^verbatim>\<open>crates/ch58x-ble/src/link_layer.rs\<close> and its HCI half in
  \<^verbatim>\<open>crates/ch58x-ble/src/link_layer/hci.rs\<close>. The radio and the random generator are arguments:
  \<open>exchange\<close> maps the requested channel, deadline, timeout and frame to the result of
  \<open>Radio::exchange\<close>, and \<open>fill\<close> is \<open>fill_bytes\<close> of the caller's generator. \<open>clock k\<close> is the
  \<open>k\<close>-th reading of \<open>Instant::now()\<close>. \<open>None\<close> is a panic.
\<close>

section \<open>State\<close>

record advertiser =
  av_address :: device_address
  av_interval :: nat
  av_channels :: "bool list"
  av_data :: advertising_data
  av_scan_response :: advertising_data
  av_enabled :: bool

text \<open>The \<open>unwrap\<close> of the default address is an obligation (lemma \<open>default_address\<close>).\<close>

definition advertiser_default :: advertiser where
  "advertiser_default =
     \<lparr>av_address = (case random_static [0x82, 0x58, 0x2a, 0x01, 0x00, 0xc0] of Inr a \<Rightarrow> a | Inl _ \<Rightarrow> undefined),
      av_interval = 200000, av_channels = [True, True, True], av_data = advertising_data_new,
      av_scan_response = advertising_data_new, av_enabled = False\<rparr>"

record 'g runner =
  rn_access_address :: u32
  rn_crc_init :: u32
  rn_random :: 'g
  rn_advertiser :: advertiser
  rn_link :: host_link
  rn_connected :: bool

definition set_access_address :: "u32 \<Rightarrow> 'g runner \<Rightarrow> 'g runner" where
  "set_access_address access_address r = r\<lparr>rn_access_address := access_address\<rparr>"

definition set_crc_init :: "u32 \<Rightarrow> 'g runner \<Rightarrow> 'g runner" where
  "set_crc_init crc_init r = r\<lparr>rn_crc_init := crc_init AND 0x00ffffff\<rparr>"

text \<open>\<open>Runner::new\<close>, its radio calibrated; the masks and queues are the statics of \<open>controller\<close>.\<close>

definition runner_new :: "'g \<Rightarrow> 'g runner" where
  "runner_new random = \<lparr>rn_access_address = ADV_ACCESS_ADDRESS, rn_crc_init = ADV_CRC_INIT, rn_random = random,
     rn_advertiser = advertiser_default, rn_link = host_link_init, rn_connected = False\<rparr>"

section \<open>HCI commands\<close>

definition set_random_address :: "advertiser \<Rightarrow> bytes \<Rightarrow> u8 + advertiser" where
  "set_random_address a params =
     (if av_enabled a then Inl HCI_COMMAND_DISALLOWED
      else if length params \<noteq> 6 then Inl HCI_INVALID_PARAMETERS
      else (case random_static params of Inl _ \<Rightarrow> Inl HCI_INVALID_PARAMETERS
            | Inr address \<Rightarrow> Inr (a\<lparr>av_address := address\<rparr>)))"

definition set_advertising_parameters :: "advertiser \<Rightarrow> bytes \<Rightarrow> u8 + advertiser" where
  "set_advertising_parameters a params =
     (if av_enabled a then Inl HCI_COMMAND_DISALLOWED
      else (case advertising_parameters_parse params of None \<Rightarrow> Inl HCI_INVALID_PARAMETERS
            | Some parsed \<Rightarrow> Inr (a\<lparr>av_interval := unat (ap_interval_us parsed), av_channels := ap_channels parsed\<rparr>)))"

text \<open>The \<open>while cursor < bytes.len()\<close> loop over already encoded AD structures.\<close>

function ad_copy_loop :: "bytes \<Rightarrow> nat \<Rightarrow> advertising_data \<Rightarrow> u8 + advertising_data" where
  "ad_copy_loop b cursor replacement =
     (if cursor < length b then
        (let len = unat (b ! cursor) in
         if len = 0 then Inr replacement
         else if cursor + len \<ge> length b \<or> len < 1 then Inl HCI_INVALID_PARAMETERS
         else (case push replacement (b ! (cursor + 1)) (slice_of b (cursor + 2) (cursor + 1 + len)) of
                 Inl _ \<Rightarrow> Inl HCI_INVALID_PARAMETERS
               | Inr r \<Rightarrow> ad_copy_loop b (cursor + (len + 1)) r))
      else Inr replacement)"
  by pat_completeness auto
termination
  by (relation "measure (\<lambda>(b, cursor, r). length b - cursor)") auto

declare ad_copy_loop.simps [simp del]

definition set_advertising_data :: "bytes \<Rightarrow> u8 + advertising_data" where
  "set_advertising_data params =
     (if length params \<noteq> 32 \<or> unat (params ! 0) > 31 then Inl HCI_INVALID_PARAMETERS
      else ad_copy_loop (slice_of params 1 (1 + unat (params ! 0))) 0 advertising_data_new)"

definition set_advertising_enable :: "bool \<Rightarrow> advertiser \<Rightarrow> bytes \<Rightarrow> u8 + advertiser" where
  "set_advertising_enable connected a params =
     (if length params \<noteq> 1 \<or> params ! 0 > 1 then Inl HCI_INVALID_PARAMETERS
      else if params ! 0 \<noteq> 0 \<and> connected then Inl HCI_COMMAND_DISALLOWED
      else Inr (a\<lparr>av_enabled := (params ! 0 \<noteq> 0)\<rparr>))"

text \<open>The final \<open>match result\<close>, on the runner with its advertiser already updated.\<close>

definition reply :: "u16 \<Rightarrow> 'g runner \<Rightarrow> u8 + bytes \<Rightarrow> 'g runner option" where
  "reply opcode r result =
     (case (case result of Inr data \<Rightarrow> command_complete opcode HCI_SUCCESS data (rn_link r)
            | Inl status \<Rightarrow> command_complete opcode status [] (rn_link r)) of
        None \<Rightarrow> None | Some h \<Rightarrow> Some (r\<lparr>rn_link := h\<rparr>))"

definition reply_advertiser :: "u16 \<Rightarrow> 'g runner \<Rightarrow> u8 + advertiser \<Rightarrow> 'g runner option" where
  "reply_advertiser opcode r result =
     (case result of Inl status \<Rightarrow> reply opcode r (Inl status)
      | Inr a \<Rightarrow> reply opcode (r\<lparr>rn_advertiser := a\<rparr>) (Inr []))"

definition handle_command :: "('g \<Rightarrow> nat \<Rightarrow> bytes \<times> 'g) \<Rightarrow> 'g runner \<Rightarrow> bytes \<Rightarrow> 'g runner option" where
  "handle_command fill r b =
     (if length b < 3 \<or> length b \<noteq> 3 + unat (b ! 2) then Some r
      else (let opcode = u16_from_le (b ! 0) (b ! 1);
                params = drop 3 b;
                a = rn_advertiser r;
                status_reply = (\<lambda>status. Some (r\<lparr>rn_link := command_status opcode status (rn_link r)\<rparr>))
        in if opcode = 0x0c03 \<and> params = [] then
             reply opcode (set_crc_init ADV_CRC_INIT (set_access_address ADV_ACCESS_ADDRESS
               (r\<lparr>rn_link := set_le_event_mask 0x1f (set_event_mask (- 1) (rn_link r)),
                 rn_advertiser := a\<lparr>av_enabled := False\<rparr>\<rparr>))) (Inr [])
           else if (opcode = 0x0c01 \<or> opcode = 0x2001) \<and> length params = 8 then
             (let m = u64_from_le params in
              reply opcode (r\<lparr>rn_link := (if opcode = 0x0c01 then set_event_mask m else set_le_event_mask m) (rn_link r)\<rparr>) (Inr []))
           else if opcode = 0x0c31 \<and> params = [0] then reply opcode r (Inr [])
           else if opcode = 0x1009 \<and> params = [] then reply opcode r (Inr [0, 0, 0, 0, 0, 0])
           else if opcode = 0x2002 \<and> params = [] then reply opcode r (Inr [0x1b, 0x00, ACL_CREDITS])
           else if opcode = 0x2003 \<and> params = [] then reply opcode r (Inr LE_FEATURES)
           else if opcode = 0x2005 then reply_advertiser opcode r (set_random_address a params)
           else if opcode = 0x2006 then reply_advertiser opcode r (set_advertising_parameters a params)
           else if opcode = 0x2008 then
             reply_advertiser opcode r (map_sum id (\<lambda>d. a\<lparr>av_data := d\<rparr>) (set_advertising_data params))
           else if opcode = 0x2009 then
             reply_advertiser opcode r (map_sum id (\<lambda>d. a\<lparr>av_scan_response := d\<rparr>) (set_advertising_data params))
           else if opcode = 0x200a then reply_advertiser opcode r (set_advertising_enable (rn_connected r) a params)
           else if opcode = 0x200f \<and> params = [] then reply opcode r (Inr [0])
           else if opcode = 0x2010 \<and> params = [] then reply opcode r (Inr [])
           else if opcode = 0x2018 \<and> params = [] then
             (let (random, g) = fill (rn_random r) 8 in
              case command_complete opcode HCI_SUCCESS random (rn_link r) of None \<Rightarrow> None
              | Some h \<Rightarrow> Some (r\<lparr>rn_random := g, rn_link := h\<rparr>))
           else if opcode = 0x2039 then reply opcode r (Inl HCI_COMMAND_DISALLOWED)
           else if opcode = 0x200d then status_reply HCI_COMMAND_DISALLOWED
           else if opcode = 0x2013 \<or> opcode = 0x2019 \<or> opcode = 0x2032 then status_reply HCI_COMMAND_DISALLOWED
           else reply opcode r (Inl HCI_UNKNOWN_COMMAND)))"

text \<open>
  \<open>handle_host_packet\<close>: ACL data is dropped while there is no connection.
\<close>

definition handle_host_packet :: "('g \<Rightarrow> nat \<Rightarrow> bytes \<times> 'g) \<Rightarrow> 'g runner \<Rightarrow> packet \<Rightarrow> 'g runner option" where
  "handle_host_packet fill r p =
     (case pk_kind p of Kind_Cmd \<Rightarrow> handle_command fill r (take (pk_len p) (pk_bytes p)) | _ \<Rightarrow> Some r)"

section \<open>Events to the Host\<close>

text \<open>\<open>let _ = controller::event(..)\<close>: an error leaves the link as it was.\<close>

definition emit :: "u8 \<Rightarrow> bytes \<Rightarrow> host_link \<Rightarrow> host_link" where
  "emit code params h = (case event code params h of Inl _ \<Rightarrow> h | Inr h' \<Rightarrow> h')"

definition emit_connection_complete :: "active_connection \<Rightarrow> host_link \<Rightarrow> host_link" where
  "emit_connection_complete c h =
     (let q = ac_request c;
          p0 = (replicate 19 0)[0 := 0x01, 1 := HCI_SUCCESS];
          p1 = splice p0 2 (u16_to_le (ac_handle c));
          p2 = p1[4 := 0x01, 5 := of_bool (ci_initiator_address_random q)];
          p3 = splice p2 6 (ci_initiator_address q);
          p4 = splice p3 12 (u16_to_le (ci_interval q));
          p5 = splice p4 14 (u16_to_le (ci_latency q));
          p6 = splice p5 16 (u16_to_le (ci_supervision_timeout q));
          p7 = p6[18 := ci_sleep_clock_accuracy q]
      in emit 0x3e p7 h)"

definition emit_disconnection :: "active_connection \<Rightarrow> u8 \<Rightarrow> host_link \<Rightarrow> host_link" where
  "emit_disconnection c reason h =
     (let p0 = (replicate 4 0)[0 := HCI_SUCCESS];
          p1 = splice p0 1 (u16_to_le (ac_handle c));
          p2 = p1[3 := reason]
      in emit 0x05 p2 h)"

definition emit_connection_update_result :: "active_connection \<Rightarrow> u8 \<Rightarrow> host_link \<Rightarrow> host_link" where
  "emit_connection_update_result c status h =
     (let q = ac_request c;
          p0 = (replicate 10 0)[0 := 0x03, 1 := status];
          p1 = splice p0 2 (u16_to_le (ac_handle c));
          p2 = splice p1 4 (u16_to_le (ci_interval q));
          p3 = splice p2 6 (u16_to_le (ci_latency q));
          p4 = splice p3 8 (u16_to_le (ci_supervision_timeout q))
      in emit 0x3e p4 h)"

definition emit_connection_update_complete :: "active_connection \<Rightarrow> host_link \<Rightarrow> host_link" where
  "emit_connection_update_complete c h = emit_connection_update_result c HCI_SUCCESS h"

section \<open>HCI commands while connected\<close>

text \<open>The result is whether the connection must stop at once, and the new runner and connection.\<close>

definition handle_connected_command ::
    "('g \<Rightarrow> nat \<Rightarrow> bytes \<times> 'g) \<Rightarrow> 'g runner \<Rightarrow> active_connection \<Rightarrow> bytes \<Rightarrow> (bool \<times> 'g runner \<times> active_connection) option" where
  "handle_connected_command fill r c b =
     (if length b < 3 \<or> length b \<noteq> 3 + unat (b ! 2) then Some (False, r, c)
      else (let opcode = u16_from_le (b ! 0) (b ! 1);
                params = drop 3 b;
                status = (\<lambda>st c'. Some (False, r\<lparr>rn_link := command_status opcode st (rn_link r)\<rparr>, c'));
                complete = (\<lambda>st ret. map_option (\<lambda>h. (False, r\<lparr>rn_link := h\<rparr>, c)) (command_complete opcode st ret (rn_link r)))
        in if opcode = 0x0c03 \<and> params = [] then
             map_option (\<lambda>r'. (True, r', c)) (handle_command fill r b)
           else if opcode = 0x0406 \<and> length params = 3 then
             (let handle = u16_from_le (params ! 0) (params ! 1) in
              if handle \<noteq> ac_handle c \<or> local_procedure_active c Termination then status HCI_COMMAND_DISALLOWED c
              else (let (ok, c') = queue_local_procedure c Termination [0x02, params ! 2] None None
                    in if ok then status HCI_SUCCESS c' else status HCI_CONTROLLER_BUSY c'))
           else if opcode = 0x1405 \<and> length params = 2 then
             (if u16_from_le (params ! 0) (params ! 1) \<noteq> ac_handle c then complete 0x02 params
              else complete HCI_SUCCESS (u16_to_le (ac_handle c) @ [ac_last_rssi c]))
           else if opcode = 0x2013 \<and> length params = 14 then
             (let handle = u16_from_le (params ! 0) (params ! 1);
                  interval_min = u16_from_le (params ! 2) (params ! 3);
                  interval_max = u16_from_le (params ! 4) (params ! 5);
                  latency = u16_from_le (params ! 6) (params ! 7);
                  timeout = u16_from_le (params ! 8) (params ! 9)
              in if handle \<noteq> ac_handle c \<or> \<not> connection_parameter_range_is_valid interval_min interval_max latency timeout
                 then status HCI_INVALID_PARAMETERS c
                 else if ac_local_connection_param_request c \<noteq> None \<or> remote_connection_parameters_active c
                    \<or> ac_pending_connection_update c \<noteq> None \<or> ac_pending_channel_map c \<noteq> None
                 then status HCI_CONTROLLER_BUSY c
                 else (let request = \<lparr>cp_interval_min = interval_min, cp_interval_max = interval_max,
                              cp_latency = latency, cp_supervision_timeout = timeout, cp_preferred_periodicity = 0,
                              cp_reference_event_count = ac_event_counter c, cp_offsets = replicate 6 (- 1)\<rparr>;
                           pdu = connection_param_write request REQUEST_OPCODE;
                           (ok, c') = queue_local_procedure_request c ConnectionParameters pdu 0x00
                       in if \<not> ok then status HCI_CONTROLLER_BUSY c'
                          else status HCI_SUCCESS (c'\<lparr>ac_local_connection_param_request := Some
                            \<lparr>lr_interval_min = interval_min, lr_interval_max = interval_max,
                             lr_latency = latency, lr_supervision_timeout = timeout\<rparr>\<rparr>)))
           else map_option (\<lambda>r'. (False, r', c)) (handle_command fill r b)))"

definition process_connected_host_packet ::
    "('g \<Rightarrow> nat \<Rightarrow> bytes \<times> 'g) \<Rightarrow> 'g runner \<Rightarrow> active_connection \<Rightarrow> packet \<Rightarrow> (bool \<times> 'g runner \<times> active_connection) option" where
  "process_connected_host_packet fill r c p =
     (case pk_kind p of
        Kind_AclData \<Rightarrow> Some (False, r, case queue_acl c p of Inl _ \<Rightarrow> c | Inr c' \<Rightarrow> c')
      | Kind_Cmd \<Rightarrow> handle_connected_command fill r c (take (pk_len p) (pk_bytes p))
      | _ \<Rightarrow> Some (False, r, c))"

section \<open>Link Layer control PDUs\<close>

definition fail_local :: "active_connection \<Rightarrow> u8 \<Rightarrow> active_connection" where
  "fail_local c error = c\<lparr>ac_procedures :=
     (case fail (ac_procedures c) Local error of Inl _ \<Rightarrow> ac_procedures c | Inr m \<Rightarrow> m)\<rparr>"

definition fail_remote :: "active_connection \<Rightarrow> u8 \<Rightarrow> active_connection" where
  "fail_remote c error = c\<lparr>ac_procedures :=
     (case fail (ac_procedures c) Remote error of Inl _ \<Rightarrow> ac_procedures c | Inr m \<Rightarrow> m)\<rparr>"

text \<open>Ending the local parameter request: cleared, its procedure failed, the Host told.\<close>

definition abandon_local_request :: "active_connection \<Rightarrow> host_link \<Rightarrow> u8 \<Rightarrow> active_connection \<times> host_link" where
  "abandon_local_request c h error =
     (let c' = fail_local (c\<lparr>ac_local_connection_param_request := None\<rparr>) error
      in (c', emit_connection_update_result c' error h))"

type_synonym ll_result = "u8 option \<times> active_connection \<times> host_link"

definition connection_update_owner :: "active_connection \<Rightarrow> u16 \<Rightarrow> u8 option \<times> active_connection" where
  "connection_update_owner c instant =
     (let expect = (\<lambda>who. case expected_response_with_instant (ac_procedures c) who 0x00 instant of
            Inl _ \<Rightarrow> (Some 0x3d, c) | Inr m \<Rightarrow> (None, c\<lparr>ac_procedures := m\<rparr>))
      in if ac_local_connection_param_request c \<noteq> None then expect Local
         else if remote_connection_parameters_active c then expect Remote
         else start_remote_instant_procedure c ConnectionUpdate 0x00 instant)"

definition handle_connection_update_ind :: "active_connection \<Rightarrow> host_link \<Rightarrow> bytes \<Rightarrow> ll_result" where
  "handle_connection_update_ind c h p =
     (case connection_update_parse p (ac_event_counter c) of
        Inr update \<Rightarrow>
          if ac_pending_connection_update c \<noteq> None then (Some 0x1e, c, h)
          else if (case ac_local_connection_param_request c of None \<Rightarrow> False | Some q \<Rightarrow> \<not> lr_accepts q update)
          then (Some 0x20, c, h)
          else (case connection_update_owner c (cu_instant update) of
                  (Some error, c') \<Rightarrow> (Some error, c', h)
                | (None, c') \<Rightarrow> (None, c'\<lparr>ac_pending_connection_update := Some update\<rparr>, h))
      | Inl InstantPassed \<Rightarrow> (Some 0x28, c, h)
      | Inl _ \<Rightarrow> (Some 0x1e, c, h))"

definition handle_channel_map_ind :: "active_connection \<Rightarrow> host_link \<Rightarrow> bytes \<Rightarrow> ll_result" where
  "handle_channel_map_ind c h p =
     (case channel_map_parse p (ac_event_counter c) of
        Inr update \<Rightarrow>
          if ac_pending_channel_map c \<noteq> None then (Some 0x1e, c, h)
          else (let (c1, h1) =
                  (if ac_local_connection_param_request c \<noteq> None
                   then abandon_local_request c h (procedure_collision_error IP_ConnectionParametersRequest IP_ChannelMapUpdate)
                   else (c, h))
                in case start_remote_instant_procedure c1 ChannelMapUpdate 0x01 (cm_instant update) of
                     (Some error, c2) \<Rightarrow> (Some error, c2, h1)
                   | (None, c2) \<Rightarrow> (None, c2\<lparr>ac_pending_channel_map := Some update\<rparr>, h1))
      | Inl InstantPassed \<Rightarrow> (Some 0x28, c, h)
      | Inl _ \<Rightarrow> (Some 0x1e, c, h))"

text \<open>\<open>None\<close> is the \<open>unreachable!()\<close> arm.\<close>

definition handle_connection_param_req :: "active_connection \<Rightarrow> host_link \<Rightarrow> bytes \<Rightarrow> ll_result option" where
  "handle_connection_param_req c h p =
     (case parse_request p (ac_event_counter c) of
        Inr request \<Rightarrow>
          (let collision_code =
                 (if ac_pending_channel_map c \<noteq> None
                  then Some (procedure_collision_error IP_ChannelMapUpdate IP_ConnectionParametersRequest)
                  else if ac_pending_connection_update c \<noteq> None
                  then Some (procedure_collision_error IP_ConnectionUpdate IP_ConnectionParametersRequest)
                  else None)
           in case collision_code of
                Some error \<Rightarrow> Some (None, snd (queue_control c [0x11, 0x0f, error]), h)
              | None \<Rightarrow>
                  (let (c1, h1) =
                     (if ac_local_connection_param_request c \<noteq> None
                      then abandon_local_request c h
                        (procedure_collision_error IP_ConnectionParametersRequest IP_ConnectionParametersRequest)
                      else (c, h));
                       response = connection_param_write request RESPONSE_OPCODE
                   in Some (None, snd (queue_remote_procedure_response_with_followup c1 ConnectionParameters 0x0f response
                        (Some 0x00) (Some PROCEDURE_RESPONSE_TIMEOUT_US)), h1)))
      | Inl InstantPassed \<Rightarrow> None
      | Inl _ \<Rightarrow> Some (None, snd (queue_control c [0x11, 0x0f, 0x1e]), h))"

definition handle_reject_ext :: "active_connection \<Rightarrow> host_link \<Rightarrow> bytes \<Rightarrow> active_connection \<times> host_link" where
  "handle_reject_ext c h p =
     (if p ! 1 = 0x0f \<and> ac_local_connection_param_request c \<noteq> None then abandon_local_request c h (p ! 2)
      else if p ! 1 = 0x10 \<and> remote_connection_parameters_active c then
        (let c' = fail_remote c (p ! 2) in (c', emit_connection_update_result c' (p ! 2) h))
      else (c, h))"

definition handle_ll_control :: "active_connection \<Rightarrow> host_link \<Rightarrow> bytes \<Rightarrow> ll_result option" where
  "handle_ll_control c h p =
     (case p of [] \<Rightarrow> Some (None, c, h)
      | opcode # _ \<Rightarrow>
         if opcode = 0x00 then Some (handle_connection_update_ind c h p)
         else if opcode = 0x01 then Some (handle_channel_map_ind c h p)
         else if opcode = 0x02 \<and> length p = 2 then Some (Some (p ! 1), c, h)
         else if opcode = 0x02 then Some (Some 0x1e, c, h)
         else if opcode = 0x07 \<and> length p = 2 then
           (if p ! 1 = 0x0f \<and> ac_local_connection_param_request c \<noteq> None
            then (let (c', h') = abandon_local_request c h 0x1a in Some (None, c', h'))
            else Some (None, c, h))
         else if opcode = 0x11 \<and> length p = 3 then
           (let (c', h') = handle_reject_ext c h p in Some (None, c', h'))
         else if opcode = 0x08 \<and> length p = 9 then
           Some (None, snd (queue_remote_procedure_response c FeatureExchange 0x08
             [0x09, p ! 1 AND 0x06, 0, 0, 0, 0, 0, 0, 0]), h)
         else if opcode = 0x0c \<and> length p = 6 then
           Some (None, snd (queue_remote_procedure_response c VersionExchange 0x0c [0x0c, 0x09, 0xff, 0xff, 0x00, 0x00]), h)
         else if opcode = 0x0f then handle_connection_param_req c h p
         else if opcode = 0x10 then Some (None, snd (queue_control c [0x11, 0x10, 0x1e]), h)
         else if opcode = 0x12 \<and> length p = 1 then
           Some (None, snd (queue_remote_procedure_response c Ping 0x12 [0x13]), h)
         else Some (None, snd (queue_control c [0x07, opcode]), h))"

section \<open>A connection event\<close>

record exchange_result =
  ex_transmitted :: bool
  ex_received :: received_packet

type_synonym radio_exchange = "channel \<Rightarrow> nat \<Rightarrow> nat \<Rightarrow> bytes \<Rightarrow> exchange_result option"

definition build_transmit_frame :: "active_connection \<Rightarrow> active_connection option" where
  "build_transmit_frame c =
     (case (if ac_transmitted c = TP_Control then plan_pending_control_procedure c else Some c) of
        None \<Rightarrow> None
      | Some c1 \<Rightarrow>
          (let selected = (case ac_transmitted c1 of TP_Control \<Rightarrow> ac_pending_control c1 | TP_Acl \<Rightarrow> ac_pending c1 | _ \<Rightarrow> None);
               (llid, pl) = (case selected of Some d \<Rightarrow> (pd_llid d, take (pd_len d) (pd_bytes d)) | None \<Rightarrow> (LLID_CONTINUATION, []));
               f1 = (ac_tx_frame c1)[0 := llid OR push_bit 2 (ac_expected_sn c1) OR push_bit 3 (ac_transmit_sn c1)];
               f2 = f1[1 := word_of_nat (length pl)];
               f3 = splice f2 2 pl
           in Some (c1\<lparr>ac_tx_frame := f3, ac_tx_frame_len := length pl + 2, ac_tx_frame_fresh := True\<rparr>)))"

text \<open>Applying the instants of this event and notifying the Host, at both ends of the event.\<close>

definition instants_step :: "nat \<Rightarrow> active_connection \<Rightarrow> host_link \<Rightarrow> u8 + (active_connection \<times> host_link)" where
  "instants_step now c h =
     (case apply_instants now c of Inl e \<Rightarrow> Inl e
      | Inr ((applied, changed), c1) \<Rightarrow>
          (let notify = (changed \<or> (applied \<and> ac_local_connection_param_request c1 \<noteq> None));
               c2 = (if applied then c1\<lparr>ac_local_connection_param_request := None\<rparr> else c1)
           in Inr (c2, if notify then emit_connection_update_complete c2 h else h)))"

definition choose_transmit :: "active_connection \<Rightarrow> active_connection" where
  "choose_transmit c =
     (if ac_transmitted c = TP_None
      then c\<lparr>ac_transmitted := (if ac_pending_control c \<noteq> None then TP_Control
              else if ac_pending c \<noteq> None then TP_Acl else TP_Empty)\<rparr>
      else c)"

text \<open>The peer acknowledged the outstanding PDU. \<open>None\<close> is the return with reason 0x1f.\<close>

definition ack_step :: "nat \<Rightarrow> active_connection \<Rightarrow> host_link \<Rightarrow> (active_connection \<times> host_link) option" where
  "ack_step now c h =
     (case (if ac_transmitted c = TP_Control then acknowledge_pending_control c (word_of_nat now) else Some c) of
        None \<Rightarrow> None
      | Some c1 \<Rightarrow>
          (let (c2, h2) =
             (case ac_transmitted c1 of
                TP_Control \<Rightarrow>
                  (case ac_priority_control c1 of
                     Some p \<Rightarrow> (c1\<lparr>ac_pending_control := Some p, ac_priority_control := None\<rparr>, h)
                   | None \<Rightarrow> (c1\<lparr>ac_pending_control := ac_queued_control c1, ac_queued_control := None\<rparr>, h))
              | TP_Acl \<Rightarrow> (release_acl c1, completed_acl (ac_handle c1) 1 h)
              | _ \<Rightarrow> (c1, h))
           in Some (c2\<lparr>ac_transmitted := TP_None, ac_tx_frame_len := 0, ac_tx_frame_fresh := False,
                       ac_transmit_sn := ac_transmit_sn c2 XOR 1\<rparr>, h2)))"

text \<open>A new payload from the peer.\<close>

definition receive_step :: "active_connection \<Rightarrow> host_link \<Rightarrow> u8 \<Rightarrow> bytes \<Rightarrow> ll_result option" where
  "receive_step c h header pl =
     (let c1 = c\<lparr>ac_expected_sn := ac_expected_sn c XOR 1\<rparr>; llid = header AND 0x03 in
      if (llid = LLID_CONTINUATION \<or> llid = LLID_START) \<and> pl \<noteq> [] then
        (let flags = (if llid = LLID_CONTINUATION then HCI_PB_CONTINUING else HCI_PB_FIRST_FLUSHABLE) in
         Some (None, c1, case send_acl (ac_handle c1 OR flags) pl h of Inl _ \<Rightarrow> h | Inr h' \<Rightarrow> h'))
      else if llid = LLID_CONTROL then handle_ll_control c1 h pl
      else Some (None, c1, h))"

definition after_packet ::
    "(nat \<Rightarrow> nat) \<Rightarrow> active_connection \<Rightarrow> host_link \<Rightarrow> bool \<Rightarrow> bool \<Rightarrow> received_packet \<Rightarrow> u8 \<Rightarrow> bytes \<Rightarrow> ll_result option" where
  "after_packet clock c h outstanding sent_terminate received header pl =
     (let c2 = c\<lparr>ac_last_rssi := rssi_dbm received,
                 ac_supervision_deadline := clock 1 + unat (ci_supervision_timeout (ac_request c)) * 10000\<rparr>;
          anchor = timestamp_us received - (1 + 4 + 2 + length pl + 3) * 8
      in case (if acknowledges_transmit_owner header (ac_transmit_sn c2) outstanding False
               then ack_step (clock 2) c2 h else Some (c2, h)) of
           None \<Rightarrow> Some (Some 0x1f, c2, h)
         | Some (c3, h3) \<Rightarrow>
             (case (if drop_bit 3 header AND 1 = ac_expected_sn c3 then receive_step c3 h3 header pl else Some (None, c3, h3)) of
                None \<Rightarrow> None
              | Some (terminated, c4, h4) \<Rightarrow>
                  (case instants_step (clock 3) c4 h4 of
                     Inl reason \<Rightarrow> Some (Some reason, c4, h4)
                   | Inr (c5, h5) \<Rightarrow>
                       Some (if sent_terminate then Some 0x16 else terminated, synchronize c5 anchor, h5))))"

definition after_exchange ::
    "(nat \<Rightarrow> nat) \<Rightarrow> active_connection \<Rightarrow> host_link \<Rightarrow> bool \<Rightarrow> exchange_result \<Rightarrow> ll_result option" where
  "after_exchange clock c h outstanding ex =
     (case (if ac_tx_frame_fresh c \<and> ex_transmitted ex then
              map_option (\<lambda>c'. c'\<lparr>ac_tx_frame_fresh := False\<rparr>)
                (if ac_transmitted c = TP_Control then complete_pending_control_transmit c else Some c)
            else Some c) of
        None \<Rightarrow> Some (Some 0x1f, c, h)
      | Some c1 \<Rightarrow>
          (let sent_terminate = (ex_transmitted ex \<and> ac_transmitted c1 = TP_Control \<and> local_procedure_active c1 Termination
                 \<and> (case ac_pending_control c1 of Some pdu \<Rightarrow> pd_bytes pdu ! 0 = 0x02 | None \<Rightarrow> False));
               received = ex_received ex
           in if \<not> crc_ok received then Some (None, c1, h)
              else (case payload received of
                      header # len # body \<Rightarrow>
                        if unat len > MAX_DATA_PDU_PAYLOAD \<or> header AND 0x03 = 0 then Some (None, c1, h)
                        else if length body < unat len then Some (None, c1, h)
                        else after_packet clock c1 h outstanding sent_terminate received header (take (unat len) body)
                    | _ \<Rightarrow> Some (None, c1, h))))"

text \<open>
  Everything before the radio: \<open>Inl\<close> is an early return, \<open>Inr\<close> the channel, deadline and timeout of
  the exchange with the connection whose frame is staged.
\<close>

definition stage_event ::
    "(nat \<Rightarrow> nat) \<Rightarrow> active_connection \<Rightarrow> host_link
     \<Rightarrow> (ll_result + (channel \<times> nat \<times> nat \<times> active_connection \<times> host_link)) option" where
  "stage_event clock c h =
     (case instants_step (clock 0) c h of Inl reason \<Rightarrow> Some (Inl (Some reason, c, h))
      | Inr (c1, h1) \<Rightarrow>
        (case ac_next_channel c1 of None \<Rightarrow> None
         | Some (ch, c2) \<Rightarrow>
           (let deadline = receive_close c2;
                (timeout, c3) = take_receive_timeout c2;
                c4 = choose_transmit (promote_priority_control_if_idle c3)
            in case (if ac_tx_frame_len c4 = 0 then build_transmit_frame c4 else Some c4) of
                 None \<Rightarrow> Some (Inl (Some 0x1f, c4, h1))
               | Some c5 \<Rightarrow>
                   Some (Inr (ch, deadline, timeout, c5\<lparr>ac_tx_frame := (ac_tx_frame c5)[0 :=
                     refresh_transmit_sequence_header (ac_tx_frame c5 ! 0) (ac_transmit_sn c5) (ac_expected_sn c5)]\<rparr>, h1)))))"

definition connection_event ::
    "radio_exchange \<Rightarrow> (nat \<Rightarrow> nat) \<Rightarrow> active_connection \<Rightarrow> host_link \<Rightarrow> ll_result option" where
  "connection_event exchange clock c h =
     (case stage_event clock c h of None \<Rightarrow> None
      | Some (Inl early) \<Rightarrow> Some early
      | Some (Inr (ch, deadline, timeout, c1, h1)) \<Rightarrow>
          (let outstanding = (\<not> ac_tx_frame_fresh c1) in
           case exchange ch deadline timeout (take (ac_tx_frame_len c1) (ac_tx_frame c1)) of
             None \<Rightarrow> Some (None, c1, h1)
           | Some ex \<Rightarrow> after_exchange clock c1 h1 outstanding ex))"

section \<open>Advertising and the connection loop\<close>

text \<open>
  The advertising radio: channel, ADV\_IND, SCAN\_RSP and own address to the received packet.
  The result carries the connection that \<open>run_connection\<close> then owns.
\<close>

type_synonym adv_exchange = "channel \<Rightarrow> bytes \<Rightarrow> bytes \<Rightarrow> bytes \<Rightarrow> received_packet option"

fun advertising_channels ::
    "adv_exchange \<Rightarrow> nat \<Rightarrow> 'g runner \<Rightarrow> (channel \<times> bool) list \<Rightarrow> 'g runner \<times> active_connection option" where
  "advertising_channels radio now r [] = (r, None)"
| "advertising_channels radio now r ((ch, used) # rest) =
     (if \<not> used \<or> \<not> av_enabled (rn_advertiser r) then advertising_channels radio now r rest
      else (let a = rn_advertiser r in
        case (build_adv_ind (av_address a) (av_data a) (replicate MAX_LEGACY_ADV_PDU_LEN 0),
              build_scan_rsp (av_address a) (av_scan_response a) (replicate MAX_LEGACY_ADV_PDU_LEN 0)) of
          (Inr pdu, Inr scan_response) \<Rightarrow>
            (case radio ch pdu scan_response (da_bytes (av_address a)) of
               None \<Rightarrow> advertising_channels radio now r rest
             | Some received \<Rightarrow>
                 if is_scan_request (payload received) (av_address a) then advertising_channels radio now r rest
                 else if (case payload received of [] \<Rightarrow> False | header # _ \<Rightarrow> header AND 0x0f = 0x05) then
                   (if \<not> crc_ok received then advertising_channels radio now r rest
                    else (case parse_connect_ind_detailed (payload received) (av_address a) of
                            Inl _ \<Rightarrow> advertising_channels radio now r rest
                          | Inr request \<Rightarrow>
                              (case active_connection_new now request (timestamp_us received) of
                                 Inl _ \<Rightarrow> (r, None)
                               | Inr c \<Rightarrow>
                                   ((set_crc_init (ci_crc_init (ac_request c))
                                       (set_access_address (ci_access_address (ac_request c)) r))
                                      \<lparr>rn_advertiser := a\<lparr>av_enabled := False\<rparr>, rn_connected := True,
                                       rn_link := emit_connection_complete c (rn_link r)\<rparr>, Some c))))
                 else advertising_channels radio now r rest)
        | _ \<Rightarrow> (r, None)))"

definition advertising_event :: "adv_exchange \<Rightarrow> nat \<Rightarrow> 'g runner \<Rightarrow> 'g runner \<times> active_connection option" where
  "advertising_event radio now r =
     advertising_channels radio now r
       [(ADV_37, av_channels (rn_advertiser r) ! 0), (ADV_38, av_channels (rn_advertiser r) ! 1),
        (ADV_39, av_channels (rn_advertiser r) ! 2)]"

text \<open>One turn of \<open>Runner::run\<close>: \<open>wake\<close> is the Host packet received or, while advertising is
  enabled, the expiry of the advertising interval.\<close>

definition run_turn ::
    "('g \<Rightarrow> nat \<Rightarrow> bytes \<times> 'g) \<Rightarrow> adv_exchange \<Rightarrow> nat \<Rightarrow> packet option \<Rightarrow> 'g runner
     \<Rightarrow> ('g runner \<times> active_connection option) option" where
  "run_turn fill radio now wake r =
     (case wake of
        Some p \<Rightarrow> map_option (\<lambda>r'. (r', None)) (handle_host_packet fill r p)
      | None \<Rightarrow> Some (if av_enabled (rn_advertiser r) then advertising_event radio now r else (r, None)))"

text \<open>The end of a connection: \<open>emit_disconnection\<close>, then the advertising channel again.\<close>

definition end_connection :: "'g runner \<Rightarrow> active_connection \<Rightarrow> u8 \<Rightarrow> 'g runner" where
  "end_connection r c reason =
     set_crc_init ADV_CRC_INIT (set_access_address ADV_ACCESS_ADDRESS
       (r\<lparr>rn_link := emit_disconnection c reason (rn_link r), rn_connected := False\<rparr>))"

text \<open>One turn of the \<open>run_connection\<close> loop. The packets are those \<open>try_receive_host_packet\<close> drains;
  \<open>wake\<close> is what the \<open>select\<close> returns: a Host packet or (\<open>None\<close>) the receive timer.\<close>

fun drain_host_packets ::
    "('g \<Rightarrow> nat \<Rightarrow> bytes \<times> 'g) \<Rightarrow> 'g runner \<Rightarrow> active_connection \<Rightarrow> packet list \<Rightarrow> (bool \<times> 'g runner \<times> active_connection) option" where
  "drain_host_packets fill r c [] = Some (False, r, c)"
| "drain_host_packets fill r c (p # ps) =
     (case process_connected_host_packet fill r c p of None \<Rightarrow> None
      | Some (True, r', c') \<Rightarrow> Some (True, r', c')
      | Some (False, r', c') \<Rightarrow> drain_host_packets fill r' c' ps)"

datatype turn = Ended u8 | Again

definition skip_and_notify ::
    "(nat \<Rightarrow> nat) \<Rightarrow> nat \<Rightarrow> 'g runner \<Rightarrow> active_connection \<Rightarrow> (u8 + (nat \<times> 'g runner \<times> active_connection)) option" where
  "skip_and_notify clock now r c =
     (case skip_expired_events clock now c of None \<Rightarrow> None
      | Some (Inl _) \<Rightarrow> Some (Inl 0x08)
      | Some (Inr (n, notify, c')) \<Rightarrow>
          Some (Inr (n, if notify then r\<lparr>rn_link := emit_connection_update_complete c' (rn_link r)\<rparr> else r, c')))"

definition timer_turn ::
    "radio_exchange \<Rightarrow> (nat \<Rightarrow> nat) \<Rightarrow> nat \<Rightarrow> 'g runner \<Rightarrow> active_connection \<Rightarrow> (turn \<times> 'g runner \<times> active_connection) option" where
  "timer_turn exchange clock now r c =
     (case skip_and_notify clock now r c of None \<Rightarrow> None
      | Some (Inl reason) \<Rightarrow> Some (Ended reason, r, c)
      | Some (Inr (n, r1, c1)) \<Rightarrow>
          if n \<noteq> 0 then Some (Again, r1, c1)
          else (case connection_event exchange clock c1 (rn_link r1) of None \<Rightarrow> None
                | Some (Some reason, c2, h) \<Rightarrow> Some (Ended reason, r1\<lparr>rn_link := h\<rparr>, c2)
                | Some (None, c2, h) \<Rightarrow> Some (Again, r1\<lparr>rn_link := h\<rparr>, schedule_following_event c2)))"

definition run_connection_turn ::
    "('g \<Rightarrow> nat \<Rightarrow> bytes \<times> 'g) \<Rightarrow> radio_exchange \<Rightarrow> (nat \<Rightarrow> nat) \<Rightarrow> nat \<Rightarrow> nat \<Rightarrow> packet list \<Rightarrow> packet option
     \<Rightarrow> 'g runner \<Rightarrow> active_connection \<Rightarrow> (turn \<times> 'g runner \<times> active_connection) option" where
  "run_connection_turn fill exchange clock now later drained wake r c =
     (case drain_host_packets fill r c drained of None \<Rightarrow> None
      | Some (True, r1, c1) \<Rightarrow> Some (Ended 0x16, r1, c1)
      | Some (False, r1, c1) \<Rightarrow>
        (let (expired, m) = check_timeouts (ac_procedures c1) (word_of_nat now) 0x22;
             c2 = c1\<lparr>ac_procedures := m\<rparr>
         in if expired then Some (Ended 0x22, r1, c2)
            else if now \<ge> ac_supervision_deadline c2 then Some (Ended 0x08, r1, c2)
            else (case skip_and_notify clock now r1 c2 of None \<Rightarrow> None
                  | Some (Inl reason) \<Rightarrow> Some (Ended reason, r1, c2)
                  | Some (Inr (n, r3, c3)) \<Rightarrow>
                      if n \<noteq> 0 then Some (Again, r3, c3)
                      else (case scheduler_open c3 of None \<Rightarrow> None
                            | Some _ \<Rightarrow>
                               (case wake of
                                  Some p \<Rightarrow> (case process_connected_host_packet fill r3 c3 p of None \<Rightarrow> None
                                     | Some (stop, r4, c4) \<Rightarrow> Some (if stop then Ended 0x16 else Again, r4, c4))
                                | None \<Rightarrow> timer_turn exchange clock later r3 c3)))))"

section \<open>Lemmas: the invariant through the control handlers\<close>

lemma default_address:
  "random_static [0x82, 0x58, 0x2a, 0x01, 0x00, 0xc0] =
     Inr \<lparr>da_bytes = [0x82, 0x58, 0x2a, 0x01, 0x00, 0xc0], da_kind = Random\<rparr>"
  by (simp add: random_static_def)

lemma conn_ok_fields:
  "ac_selector c' = ac_selector c \<Longrightarrow> ac_procedures c' = ac_procedures c \<Longrightarrow> ac_request c' = ac_request c \<Longrightarrow>
   ac_pending_connection_update c' = ac_pending_connection_update c \<Longrightarrow>
   ac_pending_channel_map c' = ac_pending_channel_map c \<Longrightarrow> conn_ok c' = conn_ok c"
  by (simp add: conn_ok_def)

lemma acl_ok_fields: "ac_pending c' = ac_pending c \<Longrightarrow> ac_queued_acl c' = ac_queued_acl c \<Longrightarrow> acl_ok c' = acl_ok c"
  by (simp add: acl_ok_def)

text \<open>
  The transmit side: every queued PDU fits the frame buffer, and a non-empty frame is the PDU
  selected by \<open>ac_transmitted\<close> under its header, which the sequence bits alone may change.
\<close>

definition pd_ok :: "pending_data \<Rightarrow> bool" where
  "pd_ok d \<longleftrightarrow> pd_len d \<le> MAX_DATA_PDU_PAYLOAD \<and> length (pd_bytes d) = MAX_DATA_PDU_PAYLOAD
     \<and> (pd_llid d = LLID_CONTINUATION \<or> pd_llid d = LLID_START \<or> pd_llid d = LLID_CONTROL)"

definition selected_pdu :: "active_connection \<Rightarrow> u8 \<times> bytes" where
  "selected_pdu c =
     (case (case ac_transmitted c of TP_Control \<Rightarrow> ac_pending_control c | TP_Acl \<Rightarrow> ac_pending c | _ \<Rightarrow> None) of
        Some d \<Rightarrow> (pd_llid d, take (pd_len d) (pd_bytes d)) | None \<Rightarrow> (LLID_CONTINUATION, []))"

definition frame_holds :: "active_connection \<Rightarrow> bool" where
  "frame_holds c \<longleftrightarrow> ac_transmitted c \<noteq> TP_None \<and> ac_tx_frame_len c = length (snd (selected_pdu c)) + 2
     \<and> ac_tx_frame c ! 0 AND 0xf3 = fst (selected_pdu c)
     \<and> ac_tx_frame c ! 1 = word_of_nat (length (snd (selected_pdu c)))
     \<and> take (length (snd (selected_pdu c))) (drop 2 (ac_tx_frame c)) = snd (selected_pdu c)"

definition frame_ok :: "active_connection \<Rightarrow> bool" where
  "frame_ok c \<longleftrightarrow> length (ac_tx_frame c) = MAX_DATA_PDU_WIRE_LEN
     \<and> pred_option pd_ok (ac_pending c) \<and> list_all (pred_option pd_ok) (ac_queued_acl c)
     \<and> pred_option pd_ok (ac_pending_control c) \<and> pred_option pd_ok (ac_priority_control c)
     \<and> pred_option pd_ok (ac_queued_control c)
     \<and> (ac_transmitted c = TP_Control \<longrightarrow> ac_pending_control c \<noteq> None)
     \<and> (ac_transmitted c = TP_Acl \<longrightarrow> ac_pending c \<noteq> None)
     \<and> (ac_tx_frame_len c = 0 \<or> frame_holds c)
     \<and> ac_transmit_sn c \<le> 1 \<and> ac_expected_sn c \<le> 1"

lemma frame_holds_fields:
  "ac_transmitted c' = ac_transmitted c \<Longrightarrow> ac_pending c' = ac_pending c \<Longrightarrow> ac_pending_control c' = ac_pending_control c \<Longrightarrow>
   ac_tx_frame c' = ac_tx_frame c \<Longrightarrow> ac_tx_frame_len c' = ac_tx_frame_len c \<Longrightarrow> frame_holds c' = frame_holds c"
proof -
  assume *: "ac_transmitted c' = ac_transmitted c" "ac_pending c' = ac_pending c" "ac_pending_control c' = ac_pending_control c"
    "ac_tx_frame c' = ac_tx_frame c" "ac_tx_frame_len c' = ac_tx_frame_len c"
  have "selected_pdu c' = selected_pdu c" unfolding selected_pdu_def * ..
  then show ?thesis unfolding frame_holds_def * by simp
qed

text \<open>The transmit state, as the fields \<open>frame_ok\<close> reads.\<close>

definition same_tx :: "active_connection \<Rightarrow> active_connection \<Rightarrow> bool" where
  "same_tx c c' \<longleftrightarrow> ac_transmitted c' = ac_transmitted c \<and> ac_pending c' = ac_pending c \<and> ac_queued_acl c' = ac_queued_acl c
     \<and> ac_pending_control c' = ac_pending_control c \<and> ac_priority_control c' = ac_priority_control c
     \<and> ac_queued_control c' = ac_queued_control c \<and> ac_tx_frame c' = ac_tx_frame c \<and> ac_tx_frame_len c' = ac_tx_frame_len c
     \<and> ac_tx_frame_fresh c' = ac_tx_frame_fresh c
     \<and> ac_transmit_sn c' = ac_transmit_sn c \<and> ac_expected_sn c' = ac_expected_sn c"

lemma frame_ok_same_tx: "same_tx c c' \<Longrightarrow> frame_ok c' = frame_ok c"
  unfolding frame_ok_def same_tx_def using frame_holds_fields [of c' c] by simp

text \<open>What the control path never touches: everything but procedures, control queues and tokens.\<close>

definition same_data :: "active_connection \<Rightarrow> active_connection \<Rightarrow> bool" where
  "same_data c c' \<longleftrightarrow> ac_transmitted c' = ac_transmitted c \<and> ac_tx_frame c' = ac_tx_frame c
     \<and> ac_tx_frame_len c' = ac_tx_frame_len c \<and> ac_tx_frame_fresh c' = ac_tx_frame_fresh c \<and> ac_selector c' = ac_selector c \<and> ac_request c' = ac_request c \<and> ac_handle c' = ac_handle c
     \<and> ac_pending c' = ac_pending c \<and> ac_queued_acl c' = ac_queued_acl c
     \<and> ac_transmit_sn c' = ac_transmit_sn c \<and> ac_expected_sn c' = ac_expected_sn c
     \<and> ac_event_counter c' = ac_event_counter c \<and> ac_next_anchor c' = ac_next_anchor c
     \<and> ac_last_sync_anchor c' = ac_last_sync_anchor c"

definition ctrl_ok :: "active_connection \<Rightarrow> active_connection \<Rightarrow> bool" where
  "ctrl_ok c c' \<longleftrightarrow> same_data c c' \<and> (conn_ok c \<longrightarrow> conn_ok c') \<and> (frame_ok c \<longrightarrow> frame_ok c')"

lemma same_data_refl [simp]: "same_data c c"
  by (simp add: same_data_def)

lemma ctrl_ok_refl [simp]: "ctrl_ok c c"
  by (simp add: ctrl_ok_def)

lemma ctrl_ok_trans: "ctrl_ok c c1 \<Longrightarrow> ctrl_ok c1 c2 \<Longrightarrow> ctrl_ok c c2"
  by (auto simp: ctrl_ok_def same_data_def)

lemma ctrl_okI: "same_tx c c' \<Longrightarrow> same_data c c' \<Longrightarrow> (conn_ok c \<Longrightarrow> conn_ok c') \<Longrightarrow> ctrl_ok c c'"
  using frame_ok_same_tx [of c c'] by (simp add: ctrl_ok_def)

lemma ctrl_ok_procedures:
  "(manager_ok (ac_procedures c) \<Longrightarrow> manager_ok m) \<Longrightarrow> ctrl_ok c (c\<lparr>ac_procedures := m\<rparr>)"
  by (rule ctrl_okI) (auto simp: same_tx_def same_data_def conn_ok_def)

lemma ctrl_ok_queues:
  "ctrl_ok c (c\<lparr>ac_next_control_owner_token := t\<rparr>)" "ctrl_ok c (c\<lparr>ac_local_connection_param_request := l\<rparr>)"
  by (rule ctrl_okI; simp add: same_tx_def same_data_def conn_ok_def)+

lemma ctrl_ok_pending_control:
  "ac_pending_control c = None \<Longrightarrow> pd_ok d \<Longrightarrow> ctrl_ok c (c\<lparr>ac_pending_control := Some d\<rparr>)"
  by (auto simp: ctrl_ok_def same_data_def conn_ok_def frame_ok_def frame_holds_def selected_pdu_def split: transmitted_pdu.splits)

lemma ctrl_ok_queued_control: "pd_ok d \<Longrightarrow> ctrl_ok c (c\<lparr>ac_queued_control := Some d\<rparr>)"
  using frame_holds_fields [of "c\<lparr>ac_queued_control := Some d\<rparr>" c]
  by (simp add: ctrl_ok_def same_data_def conn_ok_def frame_ok_def)

lemma ctrl_ok_allocate: "allocate_control_token c = (t, c') \<Longrightarrow> ctrl_ok c c'"
  by (auto simp: allocate_control_token_def Let_def ctrl_ok_queues)

lemma ctrl_ok_queue_with_token: "queue_control_with_token c b t = (ok, c') \<Longrightarrow> ctrl_ok c c'"
  using ctrl_ok_pending_control ctrl_ok_queued_control
  by (auto simp: queue_control_with_token_def Let_def pd_ok_def split: if_splits)

lemma ctrl_ok_queue_control: "queue_control c b = (ok, c') \<Longrightarrow> ctrl_ok c c'"
  unfolding queue_control_def queue_control_owned_def Let_def
  by (auto split: prod.splits intro: ctrl_ok_trans ctrl_ok_allocate ctrl_ok_queue_with_token)

lemma ctrl_ok_fail: "ctrl_ok c (c\<lparr>ac_procedures := (case fail (ac_procedures c) who er of Inl _ \<Rightarrow> ac_procedures c | Inr m \<Rightarrow> m)\<rparr>)"
  using procedure_call_ok [of "ac_procedures c" "FailEv who er"]
  by (intro ctrl_ok_procedures) (auto split: sum.splits)

lemma ctrl_ok_start_remote:
  assumes "start_remote (ac_procedures c) (context_new k Remote t op ex i to) = Inr m"
  shows "ctrl_ok c (c\<lparr>ac_procedures := m\<rparr>)"
  using start_ok(2) [OF _ assms] by (rule ctrl_ok_procedures)

lemma ctrl_ok_response_queued:
  assumes "response_queued (ac_procedures c) t op = Inr m"
  shows "ctrl_ok c (c\<lparr>ac_procedures := m\<rparr>)"
  using procedure_call_ok [of "ac_procedures c" "ResponseQueuedEv t op" m] assms by (intro ctrl_ok_procedures) simp

lemma ctrl_ok_remote_response:
  "ctrl_ok c (snd (queue_remote_procedure_response_with_followup c kind op resp ex to))"
proof (cases resp)
  case Nil
  then show ?thesis by (simp add: queue_remote_procedure_response_with_followup_def)
next
  case (Cons rop rest)
  obtain tok c1 where a: "allocate_control_token c = (tok, c1)" by (cases "allocate_control_token c")
  note c1 = ctrl_ok_allocate [OF a]
  let ?ctx = "context_new kind Remote tok rop ex None to"
  have qc: "ctrl_ok c (snd (queue_control c1 b))" for b
    using ctrl_ok_queue_control [of c1 b] c1 by (cases "queue_control c1 b") (auto intro: ctrl_ok_trans)
  show ?thesis
  proof (cases "start_remote (ac_procedures c1) ?ctx")
    case (Inl e)
    then show ?thesis using qc a Cons
      by (cases e) (simp_all add: queue_remote_procedure_response_with_followup_def)
  next
    case (Inr m)
    let ?c2 = "c1\<lparr>ac_procedures := m\<rparr>"
    have c2: "ctrl_ok c ?c2" using ctrl_ok_trans [OF c1 ctrl_ok_start_remote [OF Inr]] .
    show ?thesis
    proof (cases "response_queued (ac_procedures ?c2) tok rop")
      case Inl': (Inl e)
      then show ?thesis using ctrl_ok_trans [OF c2 ctrl_ok_fail] Inr a Cons
        by (simp add: queue_remote_procedure_response_with_followup_def Let_def)
    next
      case Inr': (Inr m2)
      let ?c3 = "?c2\<lparr>ac_procedures := m2\<rparr>"
      obtain ok c4 where q: "queue_control_with_token ?c3 resp tok = (ok, c4)" by (cases "queue_control_with_token ?c3 resp tok")
      have c4: "ctrl_ok c c4"
        using ctrl_ok_trans [OF ctrl_ok_trans [OF c2 ctrl_ok_response_queued [OF Inr']] ctrl_ok_queue_with_token [OF q]] .
      then show ?thesis using ctrl_ok_trans [OF c4 ctrl_ok_fail [of _ Remote "0x3a"]] Inr Inr' a Cons q
        by (simp add: queue_remote_procedure_response_with_followup_def Let_def)
    qed
  qed
qed

lemma ctrl_ok_start_instant: "start_remote_instant_procedure c k op i = (e, c') \<Longrightarrow> ctrl_ok c c'"
proof -
  assume s: "start_remote_instant_procedure c k op i = (e, c')"
  obtain tok c1 where a: "allocate_control_token c = (tok, c1)" by (cases "allocate_control_token c")
  note c1 = ctrl_ok_allocate [OF a]
  show ?thesis
  proof (cases "start_remote (ac_procedures c1) (context_new k Remote tok op None (Some i) None)")
    case (Inl e')
    then show ?thesis using s a c1 by (cases e') (auto simp: start_remote_instant_procedure_def)
  next
    case (Inr m)
    then show ?thesis using s a ctrl_ok_trans [OF c1 ctrl_ok_start_remote [OF Inr]]
      by (auto simp: start_remote_instant_procedure_def)
  qed
qed

lemma ctrl_ok_abandon: "abandon_local_request c h er = (c', h') \<Longrightarrow> ctrl_ok c c'"
  using ctrl_ok_trans [OF ctrl_ok_queues(2) ctrl_ok_fail]
  by (auto simp: abandon_local_request_def fail_local_def Let_def)

lemma ctrl_ok_update_owner: "connection_update_owner c i = (e, c') \<Longrightarrow> ctrl_ok c c'"
proof -
  assume o: "connection_update_owner c i = (e, c')"
  have x: "ctrl_ok c (c\<lparr>ac_procedures := m\<rparr>)" if "expected_response_with_instant (ac_procedures c) who 0 i = Inr m" for who m
    using procedure_call_ok [of "ac_procedures c" "ExpectedInstantEv who 0 i" m] that by (intro ctrl_ok_procedures) simp
  show ?thesis
    using o x ctrl_ok_start_instant
    by (auto simp: connection_update_owner_def Let_def split: if_splits sum.splits)
qed

lemma ctrl_ok_pending_update:
  "ctrl_ok c c' \<Longrightarrow> cu_parameters_are_valid u \<Longrightarrow> ctrl_ok c (c'\<lparr>ac_pending_connection_update := Some u\<rparr>)"
  by (erule ctrl_ok_trans, rule ctrl_okI) (auto simp: same_tx_def same_data_def conn_ok_def)

lemma ctrl_ok_pending_map:
  "ctrl_ok c c' \<Longrightarrow> length (cm_map m) = 5 \<Longrightarrow> data_channel_map_is_valid (cm_map m) \<Longrightarrow>
   ctrl_ok c (c'\<lparr>ac_pending_channel_map := Some m\<rparr>)"
  by (erule ctrl_ok_trans, rule ctrl_okI) (auto simp: same_tx_def same_data_def conn_ok_def)

lemma ctrl_ok_update_ind: "handle_connection_update_ind c h p = (e, c', h') \<Longrightarrow> ctrl_ok c c'"
proof (cases "connection_update_parse p (ac_event_counter c)")
  case (Inl er)
  assume "handle_connection_update_ind c h p = (e, c', h')"
  then show ?thesis using Inl by (cases er) (auto simp: handle_connection_update_ind_def)
next
  case (Inr u)
  assume r: "handle_connection_update_ind c h p = (e, c', h')"
  have v: "cu_parameters_are_valid u" using connection_update_parse_ok [OF Inr] by simp
  obtain e1 c1 where o: "connection_update_owner c (cu_instant u) = (e1, c1)" by (cases "connection_update_owner c (cu_instant u)")
  note c1 = ctrl_ok_update_owner [OF o]
  show ?thesis
    using r Inr o c1 ctrl_ok_pending_update [OF c1 v]
    by (cases e1) (auto simp: handle_connection_update_ind_def split: if_split_asm)
qed

lemma ctrl_ok_map_ind: "handle_channel_map_ind c h p = (e, c', h') \<Longrightarrow> ctrl_ok c c'"
proof (cases "channel_map_parse p (ac_event_counter c)")
  case (Inl er)
  assume "handle_channel_map_ind c h p = (e, c', h')"
  then show ?thesis using Inl by (cases er) (auto simp: handle_channel_map_ind_def)
next
  case (Inr u)
  assume r: "handle_channel_map_ind c h p = (e, c', h')"
  have v: "length (cm_map u) = 5" "data_channel_map_is_valid (cm_map u)" using channel_map_parse_ok [OF Inr] by auto
  define x where "x = (if ac_local_connection_param_request c \<noteq> None
    then abandon_local_request c h (procedure_collision_error IP_ConnectionParametersRequest IP_ChannelMapUpdate) else (c, h))"
  obtain c1 h1 where x1: "x = (c1, h1)" by (cases x)
  have c1: "ctrl_ok c c1" using x1 ctrl_ok_abandon by (auto simp: x_def split: if_split_asm)
  obtain e2 c2 where s: "start_remote_instant_procedure c1 ChannelMapUpdate 1 (cm_instant u) = (e2, c2)"
    by (cases "start_remote_instant_procedure c1 ChannelMapUpdate 1 (cm_instant u)")
  have c2: "ctrl_ok c c2" using ctrl_ok_trans [OF c1 ctrl_ok_start_instant [OF s]] .
  show ?thesis
    using r c2 ctrl_ok_pending_map [OF c2 v]
    unfolding handle_channel_map_ind_def Inr sum.case Let_def x_def [symmetric] x1 prod.case s
    by (cases e2) (auto split: if_split_asm)
qed

lemma parse_request_not_passed: "parse_request p e \<noteq> Inl InstantPassed"
  by (simp add: parse_request_def connection_param_parse_def Let_def)

lemma ctrl_ok_param_req: "\<exists>e c' h'. handle_connection_param_req c h p = Some (e, c', h') \<and> ctrl_ok c c'"
proof -
  have qc: "ctrl_ok c (snd (queue_control c b))" for b
    using ctrl_ok_queue_control [of c b] by (cases "queue_control c b") auto
  show ?thesis
  proof (cases "parse_request p (ac_event_counter c)")
    case (Inl er)
    then show ?thesis using parse_request_not_passed [of p "ac_event_counter c"] qc
      by (cases er) (auto simp: handle_connection_param_req_def)
  next
    case (Inr q)
    define x where "x = (if ac_local_connection_param_request c \<noteq> None
      then abandon_local_request c h (procedure_collision_error IP_ConnectionParametersRequest IP_ConnectionParametersRequest) else (c, h))"
    obtain c1 h1 where x1: "x = (c1, h1)" by (cases x)
    have c1: "ctrl_ok c c1" using x1 ctrl_ok_abandon by (auto simp: x_def split: if_split_asm)
    show ?thesis
      using qc ctrl_ok_trans [OF c1 ctrl_ok_remote_response]
      unfolding handle_connection_param_req_def Inr sum.case Let_def x_def [symmetric] x1 prod.case
      by simp
  qed
qed

lemma ctrl_ok_reject: "handle_reject_ext c h p = (c', h') \<Longrightarrow> ctrl_ok c c'"
  using ctrl_ok_abandon [of c h "p ! 2"] ctrl_ok_fail [of c Remote "p ! 2"]
  by (auto simp: handle_reject_ext_def fail_remote_def Let_def split: if_split_asm)

lemma handle_ll_control_ok: "\<exists>e c' h'. handle_ll_control c h p = Some (e, c', h') \<and> ctrl_ok c c'"
proof (cases p)
  case Nil
  then show ?thesis by (simp add: handle_ll_control_def)
next
  case (Cons opc rest)
  have qc: "ctrl_ok c (snd (queue_control c b))" for b
    using ctrl_ok_queue_control [of c b] by (cases "queue_control c b") auto
  have qr: "ctrl_ok c (snd (queue_remote_procedure_response c k o' b))" for k o' b
    unfolding queue_remote_procedure_response_def by (rule ctrl_ok_remote_response)
  have ui: "\<exists>e c' h'. handle_connection_update_ind c h p = (e, c', h') \<and> ctrl_ok c c'"
    using ctrl_ok_update_ind by (metis prod_cases3)
  have mi: "\<exists>e c' h'. handle_channel_map_ind c h p = (e, c', h') \<and> ctrl_ok c c'"
    using ctrl_ok_map_ind by (metis prod_cases3)
  have ab: "\<exists>c' h'. abandon_local_request c h er = (c', h') \<and> ctrl_ok c c'" for er
    using ctrl_ok_abandon by (metis surj_pair)
  have rj: "\<exists>c' h'. handle_reject_ext c h p = (c', h') \<and> ctrl_ok c c'"
    using ctrl_ok_reject by (metis surj_pair)
  show ?thesis
    using qc qr ui mi ab [of "0x1a"] rj ctrl_ok_param_req [of c h p] unfolding handle_ll_control_def Cons list.case
    by (auto simp: Let_def)
qed

section \<open>New connections\<close>

lemma new_connection_fields:
  assumes "active_connection_new now r t = Inr c"
  shows "ac_tx_frame_len c = 0" "ac_transmit_sn c = 0" "ac_expected_sn c = 0" "frame_ok c"
proof -
  note d = active_connection_new_def active_connection_new_for_def Let_def
  show "ac_tx_frame_len c = 0" "ac_transmit_sn c = 0" "ac_expected_sn c = 0"
    using assms by (auto simp: d split: sum.splits)
  show "frame_ok c" using assms by (auto simp: d frame_ok_def list_all_iff split: sum.splits)
qed

lemmas example_tx_fields = new_connection_fields [OF example_connection_fields(1)]

end
