(* ===== verification/Host_Interface.thy ===== *)
theory Host_Interface
  imports Runner
begin

text \<open>
  The Host's side of the runner: every well-formed HCI command gets exactly one reply, with its
  opcode, in both command handlers, and advertising data is stored octet for octet.
\<close>

section \<open>Replies\<close>

definition command_wf :: "bytes \<Rightarrow> bool" where
  "command_wf b \<longleftrightarrow> 3 \<le> length b \<and> length b = 3 + unat (b ! 2)"

definition command_opcode :: "bytes \<Rightarrow> u16" where
  "command_opcode b = u16_from_le (b ! 0) (b ! 1)"

text \<open>Command Complete (0x0e) or Command Status (0x0f) for an opcode.\<close>

definition reply_to :: "u16 \<Rightarrow> packet \<Rightarrow> bool" where
  "reply_to opcode p \<longleftrightarrow>
     (\<exists>st ret. p = pad Kind_Event ([0x0e, word_of_nat (4 + length ret), 1] @ u16_to_le opcode @ [st] @ ret))
     \<or> (\<exists>st. p = pad Kind_Event ([0x0f, 4, st, 1] @ u16_to_le opcode))"

definition replied :: "u16 \<Rightarrow> 'g runner \<Rightarrow> 'g runner \<Rightarrow> bool" where
  "replied opcode r r' \<longleftrightarrow> (\<exists>p. reply_to opcode p \<and> hl_to_host (rn_link r') = hl_to_host (rn_link r) @ [p])"

lemma mask_to_host [simp]:
  "hl_to_host (set_event_mask m h) = hl_to_host h" "hl_to_host (set_le_event_mask m h) = hl_to_host h"
  "rn_link (set_crc_init x r) = rn_link r" "rn_link (set_access_address y r) = rn_link r"
  by (simp_all add: set_event_mask_def set_le_event_mask_def set_crc_init_def set_access_address_def)

lemma command_complete_replies:
  "length ret \<le> 58 \<Longrightarrow> \<exists>h' p. command_complete opcode st ret h = Some h' \<and> reply_to opcode p
     \<and> hl_to_host h' = hl_to_host h @ [p]"
  using command_complete_pad [of ret opcode st h]
  by (auto simp: send_controller_packet_def reply_to_def u16_to_le_def)

lemma command_status_replies: "\<exists>p. reply_to opcode p \<and> hl_to_host (command_status opcode st h) = hl_to_host h @ [p]"
  by (auto simp: command_status_pad send_controller_packet_def reply_to_def u16_to_le_def)

lemma reply_replies:
  assumes "hl_to_host (rn_link r) = hl_to_host (rn_link r0)" "case result of Inl _ \<Rightarrow> True | Inr ret \<Rightarrow> length ret \<le> 58"
  shows "\<exists>r'. reply opcode r result = Some r' \<and> replied opcode r0 r'"
proof (cases result)
  case (Inl st)
  then show ?thesis using command_complete_replies [of "[]" opcode st "rn_link r"] assms(1)
    by (auto simp: reply_def replied_def)
next
  case (Inr ret)
  then show ?thesis using command_complete_replies [of ret opcode HCI_SUCCESS "rn_link r"] assms
    by (auto simp: reply_def replied_def)
qed

lemma reply_advertiser_replies: "\<exists>r'. reply_advertiser opcode r result = Some r' \<and> replied opcode r r'"
  by (cases result) (simp_all add: reply_advertiser_def reply_replies)

lemma handle_command_replies:
  assumes "length (fst (fill (rn_random r) 8)) = 8" "command_wf b"
  shows "\<exists>r'. handle_command fill r b = Some r' \<and> replied (command_opcode b) r r'"
proof -
  have wf: "\<not> (length b < 3 \<or> length b \<noteq> 3 + unat (b ! 2))" using assms(2) by (auto simp: command_wf_def)
  define P where "P x \<longleftrightarrow> (\<exists>r'. x = Some r' \<and> replied (command_opcode b) r r')" for x
  have rp: "P (reply op r' result)"
    if "op = command_opcode b" "hl_to_host (rn_link r') = hl_to_host (rn_link r)"
      "case result of Inl _ \<Rightarrow> True | Inr ret \<Rightarrow> length ret \<le> 58" for op r' result
    unfolding P_def that(1) using that(2,3) by (rule reply_replies)
  have ra: "P (reply_advertiser op r result)" if "op = command_opcode b" for op result
    unfolding P_def that by (rule reply_advertiser_replies)
  have st: "P (Some (r\<lparr>rn_link := command_status op st (rn_link r)\<rparr>))" if "op = command_opcode b" for op st
    unfolding P_def replied_def that using command_status_replies by auto
  obtain rnd g where f: "fill (rn_random r) 8 = (rnd, g)" "length rnd = 8" using assms(1) by (cases "fill (rn_random r) 8") auto
  have rn: "P (case command_complete op HCI_SUCCESS rnd (rn_link r) of None \<Rightarrow> None
      | Some h \<Rightarrow> Some (r\<lparr>rn_random := g, rn_link := h\<rparr>))" if "op = command_opcode b" for op
    unfolding P_def replied_def that
    using command_complete_replies [of rnd "command_opcode b" HCI_SUCCESS "rn_link r"] f by auto
  have "P (handle_command fill r b)"
    unfolding handle_command_def Let_def if_not_P [OF wf] command_opcode_def [symmetric]
    by (simp add: rp ra st rn f LE_FEATURES_def del: replicate.simps)
  then show ?thesis unfolding P_def .
qed

lemma handle_command_malformed: "\<not> command_wf b \<Longrightarrow> handle_command fill r b = Some r"
  by (auto simp: handle_command_def command_wf_def)

section \<open>Commands on a connection\<close>

lemma ctrl_ok_queue_local: "ctrl_ok c (snd (queue_local_procedure c kind req ex to))"
proof (cases req)
  case Nil
  then show ?thesis by (simp add: queue_local_procedure_def)
next
  case (Cons op rest)
  obtain tok c1 where a: "allocate_control_token c = (tok, c1)" by (cases "allocate_control_token c")
  note c1 = ctrl_ok_allocate [OF a]
  show ?thesis
  proof (cases "start_local (ac_procedures c1) (context_new kind Local tok op ex None to)")
    case (Inl e)
    then show ?thesis using a Cons c1 by (simp add: queue_local_procedure_def)
  next
    case (Inr m)
    have "ctrl_ok c1 (c1\<lparr>ac_procedures := m\<rparr>)" using start_ok(1) [OF _ Inr] by (rule ctrl_ok_procedures)
    note c2 = ctrl_ok_trans [OF c1 this]
    obtain ok c3 where q: "queue_control_with_token (c1\<lparr>ac_procedures := m\<rparr>) req tok = (ok, c3)"
      by (cases "queue_control_with_token (c1\<lparr>ac_procedures := m\<rparr>) req tok")
    have c3: "ctrl_ok c c3" using ctrl_ok_trans [OF c2 ctrl_ok_queue_with_token [OF q]] .
    then show ?thesis using a Cons Inr q ctrl_ok_trans [OF c3 ctrl_ok_fail [of c3 Local "0x3a"]]
      by (simp add: queue_local_procedure_def)
  qed
qed

lemma handle_connected_command_ok:
  assumes "length (fst (fill (rn_random r) 8)) = 8"
  shows "\<exists>stop r' c'. handle_connected_command fill r c b = Some (stop, r', c') \<and> ctrl_ok c c'
    \<and> (stop \<longleftrightarrow> command_wf b \<and> command_opcode b = 0x0c03 \<and> length b = 3)
    \<and> (if command_wf b then replied (command_opcode b) r r' else r' = r)"
proof (cases "command_wf b")
  case False
  then show ?thesis by (auto simp: handle_connected_command_def command_wf_def)
next
  case True
  then have wf: "\<not> (length b < 3 \<or> length b \<noteq> 3 + unat (b ! 2))" by (auto simp: command_wf_def)
  obtain r1 where h: "handle_command fill r b = Some r1" "replied (command_opcode b) r r1"
    using handle_command_replies [of fill r b] assms True by blast
  define P where "P x \<longleftrightarrow> (\<exists>stop r' c'. x = Some (stop, r', c') \<and> ctrl_ok c c'
    \<and> (stop \<longleftrightarrow> command_opcode b = 0x0c03 \<and> length b = 3) \<and> replied (command_opcode b) r r')" for x
  have st: "P (Some (False, r\<lparr>rn_link := command_status op st (rn_link r)\<rparr>, c'))"
    if "op = command_opcode b" "op \<noteq> 0x0c03" "ctrl_ok c c'" for op st c'
    unfolding P_def replied_def using that command_status_replies by auto
  have cm: "P (map_option (\<lambda>h. (False, r\<lparr>rn_link := h\<rparr>, c)) (command_complete op st ret (rn_link r)))"
    if "op = command_opcode b" "op \<noteq> 0x0c03" "length ret \<le> 58" for op st ret
    unfolding P_def replied_def using command_complete_replies [OF that(3), of op st "rn_link r"] that by auto
  have hc: "P (map_option (\<lambda>r'. (stop, r', c)) (handle_command fill r b))"
    if "stop \<longleftrightarrow> command_opcode b = 0x0c03 \<and> length b = 3" for stop
    unfolding P_def h(1) using that h(2) by auto
  have tm: "P (case queue_local_procedure c Termination pdu None None of (ok, c') \<Rightarrow>
      if ok then Some (False, r\<lparr>rn_link := command_status op HCI_SUCCESS (rn_link r)\<rparr>, c')
         else Some (False, r\<lparr>rn_link := command_status op HCI_CONTROLLER_BUSY (rn_link r)\<rparr>, c'))"
    if "op = command_opcode b" "op \<noteq> 0x0c03" for op pdu
    using ctrl_ok_queue_local [of c Termination pdu None None] st that
    by (cases "queue_local_procedure c Termination pdu None None") simp
  have upd: "P (case queue_local_procedure_request c ConnectionParameters pdu 0 of (ok, c') \<Rightarrow>
      if \<not> ok then Some (False, r\<lparr>rn_link := command_status op HCI_CONTROLLER_BUSY (rn_link r)\<rparr>, c')
         else Some (False, r\<lparr>rn_link := command_status op HCI_SUCCESS (rn_link r)\<rparr>,
           c'\<lparr>ac_local_connection_param_request := Some q\<rparr>))"
    if "op = command_opcode b" "op \<noteq> 0x0c03" for op pdu q
    using ctrl_ok_queue_local [of c ConnectionParameters pdu "Some 0" "Some PROCEDURE_RESPONSE_TIMEOUT_US"] st that
      ctrl_ok_trans [OF _ ctrl_ok_queues(2)]
    unfolding queue_local_procedure_request_def
    by (cases "queue_local_procedure c ConnectionParameters pdu (Some 0) (Some PROCEDURE_RESPONSE_TIMEOUT_US)") simp
  have len: "length b = 3 \<longleftrightarrow> drop 3 b = []" using wf by auto
  have "P (handle_connected_command fill r c b)"
    unfolding handle_connected_command_def if_not_P [OF wf] command_opcode_def [symmetric]
    by (simp add: Let_def st cm hc tm upd len)
  then show ?thesis using True unfolding P_def by auto
qed

section \<open>Advertising data\<close>

text \<open>A position at which an AD structure starts: complete structures fill the octets before it.\<close>

definition ad_boundary :: "bytes \<Rightarrow> nat \<Rightarrow> bool" where
  "ad_boundary b k \<longleftrightarrow> k \<le> length b \<and> (\<exists>fs. take k b = concat (map ad_field fs))"

lemma ad_boundary_0 [simp]: "ad_boundary b 0"
  unfolding ad_boundary_def by (intro conjI exI [of _ "[]"]) simp_all

text \<open>The loop copies whole AD structures: what it has stored is the prefix before the cursor.\<close>

lemma ad_copy_loop_ok:
  assumes "ad_ok r" "as_bytes r = take cursor b" "ad_boundary b cursor" "length b \<le> 31" "ad_len r = cursor"
  shows "case ad_copy_loop b cursor r of
      Inr d \<Rightarrow> ad_ok d \<and> (\<exists>k. ad_boundary b k \<and> as_bytes d = take k b \<and> (k = length b \<or> b ! k = 0))
    | Inl e \<Rightarrow> e = HCI_INVALID_PARAMETERS \<and> (\<exists>k. ad_boundary b k \<and> k < length b \<and> length b \<le> k + unat (b ! k))"
  using assms
proof (induction b cursor r rule: ad_copy_loop.induct)
  case (1 b cursor r)
  let ?n = "unat (b ! cursor)"
  show ?case
  proof (cases "cursor < length b \<and> ?n \<noteq> 0 \<and> cursor + ?n < length b")
    case False
    then show ?thesis using 1(2-) by (subst ad_copy_loop.simps) (auto simp: Let_def unat_eq_zero ad_boundary_def intro!: exI [of _ "ad_len r"])
  next
    case True
    let ?v = "slice_of b (cursor + 2) (cursor + 1 + ?n)"
    have lv: "length ?v = ?n - 1" using True by simp
    have p: "push r (b ! (cursor + 1)) ?v \<noteq> Inl e" for e
      unfolding push_ok [OF 1(2)] using True 1(5,6) lv by simp
    then obtain r' where r': "push r (b ! (cursor + 1)) ?v = Inr r'" by (cases "push r (b ! (cursor + 1)) ?v") auto
    have len: "word_of_nat (length ?v + 1) = b ! cursor" using lv True by simp
    have f: "ad_field (b ! (cursor + 1), ?v) = take (?n + 1) (drop cursor b)"
    proof -
      have "take (?n + 1) (drop cursor b) = b ! cursor # b ! (cursor + 1) # take (?n - 1) (drop (cursor + 2) b)"
        using True by (cases ?n) (simp_all add: Cons_nth_drop_Suc [symmetric])
      then show ?thesis using len by (simp add: slice_of_def)
    qed
    have ok': "ad_ok r'" "as_bytes r' = take (cursor + (?n + 1)) b" "ad_len r' = cursor + (?n + 1)"
      using push_as_bytes [OF 1(2) r'] 1(3,6) f True lv take_add [of cursor "?n + 1" b] by simp_all
    have bd: "ad_boundary b (cursor + (?n + 1))"
    proof -
      obtain fs where "take cursor b = concat (map ad_field fs)" using 1(4) by (auto simp: ad_boundary_def)
      then have "take (cursor + (?n + 1)) b = concat (map ad_field (fs @ [(b ! (cursor + 1), ?v)]))"
        using f take_add [of cursor "?n + 1" b] by simp
      moreover have "cursor + (?n + 1) \<le> length b" using True by simp
      ultimately show ?thesis unfolding ad_boundary_def by blast
    qed
    have step: "ad_copy_loop b cursor r = ad_copy_loop b (cursor + (?n + 1)) r'"
      using True r' by (subst ad_copy_loop.simps) (simp add: Let_def)
    show ?thesis unfolding step using 1(1) [OF _ refl] True r' ok' bd 1(5) by auto
  qed
qed

lemma set_advertising_data_ok: "set_advertising_data p = Inr d \<Longrightarrow> ad_ok d"
proof -
  assume a: "set_advertising_data p = Inr d"
  let ?b = "slice_of p 1 (1 + unat (p ! 0))"
  have l: "length p = 32" "unat (p ! 0) \<le> 31" "ad_copy_loop ?b 0 advertising_data_new = Inr d"
    using a by (auto simp: set_advertising_data_def split: if_split_asm)
  then show ?thesis
    using ad_copy_loop_ok [of advertising_data_new 0 ?b]
    by (simp add: ad_ok_def advertising_data_new_def MAX_LEGACY_ADV_DATA_LEN_def as_bytes_def)
qed

section \<open>Advertising\<close>

lemma crc_init_24: "parse_connect_ind_detailed p a = Inr q \<Longrightarrow> ci_crc_init q AND 0x00ffffff = ci_crc_init q"
proof -
  assume "parse_connect_ind_detailed p a = Inr q"
  then obtain x y z :: u8 where "ci_crc_init q = ucast x OR push_bit 8 (ucast y) OR push_bit 16 (ucast z)"
    by (auto simp: parse_connect_ind_detailed_def Let_def split: if_split_asm)
  moreover have "(0x00ffffff :: u32) = mask 24" by (simp add: mask_eq_exp_minus_1)
  moreover have "(ucast x OR push_bit 8 (ucast y) OR push_bit 16 (ucast z) :: u32) AND mask 24
      = ucast x OR push_bit 8 (ucast y) OR push_bit 16 (ucast z)"
    by (rule bit_eqI) (auto simp: bit_simps dest: bit_imp_le_length)
  ultimately show ?thesis by simp
qed

definition connects :: "adv_exchange \<Rightarrow> nat \<Rightarrow> 'g runner \<Rightarrow> channel \<Rightarrow> 'g runner \<Rightarrow> active_connection \<Rightarrow> bool" where
  "connects radio now r ch r' c \<longleftrightarrow>
     (\<exists>pdu scan_response rx request. av_enabled (rn_advertiser r)
        \<and> build_adv_ind (av_address (rn_advertiser r)) (av_data (rn_advertiser r)) (replicate MAX_LEGACY_ADV_PDU_LEN 0) = Inr pdu
        \<and> build_scan_rsp (av_address (rn_advertiser r)) (av_scan_response (rn_advertiser r)) (replicate MAX_LEGACY_ADV_PDU_LEN 0)
            = Inr scan_response
        \<and> radio ch pdu scan_response (da_bytes (av_address (rn_advertiser r))) = Some rx \<and> crc_ok rx
        \<and> parse_connect_ind_detailed (payload rx) (av_address (rn_advertiser r)) = Inr request
        \<and> active_connection_new now request (timestamp_us rx) = Inr c
        \<and> \<not> av_enabled (rn_advertiser r') \<and> rn_connected r'
        \<and> rn_access_address r' = ci_access_address request \<and> rn_crc_init r' = ci_crc_init request
        \<and> hl_to_host (rn_link r') = hl_to_host (emit_connection_complete c (rn_link r)))"

lemma new_request: "active_connection_new now q t = Inr c \<Longrightarrow> ac_request c = q"
  by (auto simp: active_connection_new_def active_connection_new_for_def Let_def split: sum.splits)

lemma advertising_channels_ok:
  "case advertising_channels radio now r chs of (r', None) \<Rightarrow> r' = r
   | (r', Some c) \<Rightarrow> \<exists>ch. (ch, True) \<in> set chs \<and> connects radio now r ch r' c"
proof (induction chs)
  case (Cons x rest)
  obtain ch used where x: "x = (ch, used)" by (cases x)
  define Q where "Q x \<longleftrightarrow> (case x of (r', None) \<Rightarrow> r' = r
     | (r', Some c) \<Rightarrow> \<exists>ch'. (ch', True) \<in> set ((ch, used) # rest) \<and> connects radio now r ch' r' c)"
    for x :: "'a runner \<times> active_connection option"
  let ?skip = "advertising_channels radio now r rest"
  let ?a = "rn_advertiser r"
  obtain pdu sr where b: "build_adv_ind (av_address ?a) (av_data ?a) (replicate MAX_LEGACY_ADV_PDU_LEN 0) = Inr pdu"
      "build_scan_rsp (av_address ?a) (av_scan_response ?a) (replicate MAX_LEGACY_ADV_PDU_LEN 0) = Inr sr"
    by (simp add: build_adv_ind_def build_scan_rsp_def Let_def)
  have skip: "Q ?skip"
    using Cons.IH unfolding Q_def by (auto split: prod.splits option.splits)
  have new: "Q (case active_connection_new now q (timestamp_us rx) of Inl _ \<Rightarrow> (r, None)
       | Inr c \<Rightarrow> ((set_crc_init (ci_crc_init (ac_request c)) (set_access_address (ci_access_address (ac_request c)) r))
            \<lparr>rn_advertiser := ?a\<lparr>av_enabled := False\<rparr>, rn_connected := True,
             rn_link := emit_connection_complete c (rn_link r)\<rparr>, Some c))"
    if "used" "av_enabled ?a" "radio ch pdu sr (da_bytes (av_address ?a)) = Some rx" "crc_ok rx"
      "parse_connect_ind_detailed (payload rx) (av_address ?a) = Inr q" for rx q
  proof (cases "active_connection_new now q (timestamp_us rx)")
    case (Inl e)
    then show ?thesis by (simp add: Q_def)
  next
    case (Inr c)
    then show ?thesis using that b new_request [OF Inr] crc_init_24 [OF that(5)]
      by (auto simp: Q_def connects_def set_crc_init_def set_access_address_def intro!: exI [of _ ch])
  qed
  have "Q (advertising_channels radio now r ((ch, used) # rest))"
  proof (cases "used \<and> av_enabled ?a")
    case False
    then show ?thesis using skip by simp
  next
    case True
    show ?thesis
    proof (cases "radio ch pdu sr (da_bytes (av_address ?a))")
      case None
      then show ?thesis using True b skip by simp
    next
      case (Some rx)
      note n = new [OF _ _ Some]
      show ?thesis
      proof (cases "parse_connect_ind_detailed (payload rx) (av_address ?a)")
        case (Inl e)
        then show ?thesis using True b Some skip by (simp add: Let_def split: list.split)
      next
        case (Inr q)
        then show ?thesis using True b Some skip n [OF _ _ _ Inr] by (simp add: Let_def split: list.split)
      qed
    qed
  qed
  then show ?case unfolding Q_def x .
qed simp

section \<open>Properties\<close>

text \<open>
  C16. Command flow control: for any generator that fills the octets it is asked for, both command handlers
  return (no panic), answer a well-formed command with exactly one Command Complete or Command Status event
  for its opcode, and ignore a malformed one. On a connection only \<open>HCI_Reset\<close> ends the link, and no command
  touches the data path or breaks the connection's invariant.
\<close>

theorem commands_one_reply:
  assumes "length (fst (fill (rn_random r) 8)) = 8" "conn_ok c" "frame_ok c"
  shows "(\<exists>r'. handle_command fill r b = Some r' \<and> (if command_wf b then replied (command_opcode b) r r' else r' = r))
    \<and> (\<exists>stop r' c'. handle_connected_command fill r c b = Some (stop, r', c')
        \<and> (if command_wf b then replied (command_opcode b) r r' else r' = r)
        \<and> (stop \<longleftrightarrow> command_wf b \<and> command_opcode b = 0x0c03 \<and> length b = 3)
        \<and> same_data c c' \<and> conn_ok c' \<and> frame_ok c')"
proof
  show "\<exists>r'. handle_command fill r b = Some r' \<and> (if command_wf b then replied (command_opcode b) r r' else r' = r)"
    using handle_command_replies [of fill r b] handle_command_malformed [of b fill r] assms(1) by (cases "command_wf b") auto
  obtain stop r' c' where "handle_connected_command fill r c b = Some (stop, r', c')" "ctrl_ok c c'"
    "stop \<longleftrightarrow> command_wf b \<and> command_opcode b = 0x0c03 \<and> length b = 3"
    "if command_wf b then replied (command_opcode b) r r' else r' = r"
    using handle_connected_command_ok [of fill r c b] assms(1) by blast
  then show "\<exists>stop r' c'. handle_connected_command fill r c b = Some (stop, r', c')
        \<and> (if command_wf b then replied (command_opcode b) r r' else r' = r)
        \<and> (stop \<longleftrightarrow> command_wf b \<and> command_opcode b = 0x0c03 \<and> length b = 3)
        \<and> same_data c c' \<and> conn_ok c' \<and> frame_ok c'"
    using assms(2,3) by (auto simp: ctrl_ok_def)
qed

definition zero_fill :: "unit \<Rightarrow> nat \<Rightarrow> bytes \<times> unit" where
  "zero_fill g n = (replicate n 0, g)"

theorem commands_one_reply_witness:
  "\<exists>stop r' c' p. handle_connected_command zero_fill (runner_new ()) example_connection [0x18, 0x20, 0] = Some (stop, r', c')
     \<and> \<not> stop \<and> reply_to 0x2018 p \<and> hl_to_host (rn_link r') = [p]"
proof -
  have w: "command_wf [0x18, 0x20, 0]" "command_opcode [0x18, 0x20, 0] = 0x2018"
    by (simp_all add: command_wf_def command_opcode_def u16_from_le_def)
  show ?thesis
    using commands_one_reply [of zero_fill "runner_new ()" example_connection "[0x18, 0x20, 0]"] w example_connection_ok(1)
      example_tx_fields(4)
    by (auto simp: zero_fill_def replied_def runner_new_def host_link_init_def)
qed

text \<open>
  C27. \<open>HCI_LE_Set_Advertising_Data\<close> stores what the Host sent: on success the advertiser's data is an exact
  prefix of the significant octets, the whole of them or up to the first zero length octet; it is rejected
  exactly for a wrong parameter length or an AD structure that runs over the end, and then nothing is
  stored.
\<close>

theorem advertising_data_stored:
  fixes params :: bytes
  defines "data \<equiv> take (unat (params ! 0)) (tl params)"
  shows "case set_advertising_data params of
      Inr d \<Rightarrow> length params = 32 \<and> unat (params ! 0) \<le> 31
        \<and> (\<exists>k. ad_boundary data k \<and> as_bytes d = take k data \<and> (k = length data \<or> data ! k = 0))
    | Inl e \<Rightarrow> e = HCI_INVALID_PARAMETERS
        \<and> (length params \<noteq> 32 \<or> unat (params ! 0) > 31 \<or> (\<exists>k. ad_boundary data k \<and> k < length data \<and> length data \<le> k + unat (data ! k)))"
proof (cases "length params \<noteq> 32 \<or> unat (params ! 0) > 31")
  case True
  then show ?thesis by (auto simp: set_advertising_data_def)
next
  case False
  have d: "slice_of params 1 (1 + unat (params ! 0)) = data" by (simp add: slice_of_def data_def drop_Suc)
  have "length data \<le> 31" using False by (simp add: data_def)
  then have "case ad_copy_loop data 0 advertising_data_new of
      Inr d \<Rightarrow> ad_ok d \<and> (\<exists>k. ad_boundary data k \<and> as_bytes d = take k data \<and> (k = length data \<or> data ! k = 0))
    | Inl e \<Rightarrow> e = HCI_INVALID_PARAMETERS \<and> (\<exists>k. ad_boundary data k \<and> k < length data \<and> length data \<le> k + unat (data ! k))"
    by (intro ad_copy_loop_ok) (simp_all add: ad_ok_def advertising_data_new_def MAX_LEGACY_ADV_DATA_LEN_def as_bytes_def)
  then show ?thesis using False unfolding set_advertising_data_def d by (auto split: sum.splits)
qed

theorem advertising_data_stored_witness:
  "\<exists>d k. set_advertising_data (3 # 2 # replicate 30 0) = Inr d \<and> as_bytes d = take k [2, 0, 0] \<and> 1 \<le> k"
proof -
  have d: "replicate 2 (0 :: u8) = [0, 0]" by (simp add: numeral_eq_Suc)
  have no: "\<not> (k < length [2, 0, 0 :: u8] \<and> length [2, 0, 0 :: u8] \<le> k + unat ([2, 0, 0 :: u8] ! k))" for k :: nat
    by (cases "k = 0 \<or> k = 1 \<or> k = 2") auto
  note t = advertising_data_stored [of "3 # 2 # replicate 30 0", unfolded nth_Cons_0 list.sel]
  show ?thesis
  proof (cases "set_advertising_data (3 # 2 # replicate 30 0)")
    case (Inl e)
    with t no show ?thesis by (auto simp: d)
  next
    case (Inr x)
    then obtain k where k: "as_bytes x = take k [2, 0, 0]" "k = length [2, 0, 0 :: u8] \<or> [2, 0, 0 :: u8] ! k = 0"
      using t by (simp add: d) blast
    then have "k \<noteq> 0" by (cases k) simp_all
    with Inr k show ?thesis by auto
  qed
qed

text \<open>
  C18. Advertising accepts only a valid request: an advertising event leaves the runner as it was, or it ends
  in a connection made from a packet received with a correct CRC on an enabled channel in answer to the
  advertiser's own ADV\_IND, parsed as a CONNECT\_IND for its address; then advertising is off, the link is
  connected, and the radio uses the access address and CRC of the request.
\<close>

theorem advertising_event_connects:
  "case advertising_event radio now r of (r', None) \<Rightarrow> r' = r
   | (r', Some c) \<Rightarrow> \<exists>k. k < 3 \<and> av_channels (rn_advertiser r) ! k
       \<and> connects radio now r ([ADV_37, ADV_38, ADV_39] ! k) r' c"
proof -
  let ?u = "\<lambda>k. av_channels (rn_advertiser r) ! k"
  have "\<exists>k. k < 3 \<and> ?u k \<and> ch = [ADV_37, ADV_38, ADV_39] ! k"
    if m: "(ch, True) \<in> set [(ADV_37, ?u 0), (ADV_38, ?u 1), (ADV_39, ?u 2)]" for ch
  proof -
    consider "ch = ADV_37" "?u 0" | "ch = ADV_38" "?u 1" | "ch = ADV_39" "?u 2" using m by auto
    then show ?thesis
    proof cases
      case 1 then show ?thesis by (intro exI [of _ 0]) simp
    next
      case 2 then show ?thesis by (intro exI [of _ 1]) simp
    next
      case 3 then show ?thesis by (intro exI [of _ 2]) simp
    qed
  qed
  then show ?thesis
    using advertising_channels_ok [where radio = radio and now = now and r = r and chs = "[(ADV_37, ?u 0), (ADV_38, ?u 1), (ADV_39, ?u 2)]"]
    unfolding advertising_event_def by (force split: prod.splits option.splits)
qed

end
