(* ===== verification/Link_Safety.thy ===== *)
theory Link_Safety
  imports Runner
begin

text \<open>
  What a connection event and one turn of \<open>run_connection\<close> guarantee: they always return, they
  keep the invariant of the connection, the frame on air is the PDU of the event, the data path
  (sequence bits, ACL queue, credits, deliveries to the Host) follows \<open>observe\<close>, and the link ends with
  reason 0x1f exactly where the procedure that owns the control PDU of the event refuses it.
\<close>

definition link_inv :: "active_connection \<Rightarrow> bool" where
  "link_inv c \<longleftrightarrow> conn_ok c \<and> acl_ok c \<and> frame_ok c"

section \<open>Traffic to the Host\<close>

text \<open>The data path towards the Host: ACL packets and credit events, in order.\<close>

definition is_traffic :: "packet \<Rightarrow> bool" where
  "is_traffic p \<longleftrightarrow> pk_kind p = Kind_AclData \<or> take 1 (packet_data p) = [0x13]"

definition traffic :: "host_link \<Rightarrow> packet list" where
  "traffic h = filter is_traffic (hl_to_host h)"

lemma traffic_event: "code \<noteq> 0x13 \<Longrightarrow> traffic (emit code params h) = traffic h"
  by (cases "62 < length params")
     (simp_all add: emit_def event_too_large event_pad not_less traffic_def send_controller_packet_def is_traffic_def)

lemma traffic_emit [simp]:
  "traffic (emit_connection_update_result c st h) = traffic h"
  "traffic (emit_connection_update_complete c h) = traffic h"
  "traffic (emit_disconnection c st h) = traffic h"
  "traffic (emit_connection_complete c h) = traffic h"
  by (simp_all add: emit_connection_update_complete_def emit_connection_update_result_def emit_disconnection_def
      emit_connection_complete_def Let_def traffic_event)

lemma traffic_abandon: "abandon_local_request c h er = (c', h') \<Longrightarrow> traffic h' = traffic h"
  by (auto simp: abandon_local_request_def Let_def)

lemma traffic_update_ind: "handle_connection_update_ind c h p = (e, c', h') \<Longrightarrow> h' = h"
  unfolding handle_connection_update_ind_def
  by (auto split: sum.splits control_pdu_error.splits if_split_asm prod.splits option.splits)

lemma traffic_map_ind: "handle_channel_map_ind c h p = (e, c', h') \<Longrightarrow> traffic h' = traffic h"
  unfolding handle_channel_map_ind_def
  by (auto simp: Let_def dest: traffic_abandon
      split: sum.splits control_pdu_error.splits if_split_asm prod.splits option.splits)

lemma traffic_param_req: "handle_connection_param_req c h p = Some (e, c', h') \<Longrightarrow> traffic h' = traffic h"
  unfolding handle_connection_param_req_def
  by (auto simp: Let_def dest: traffic_abandon
      split: sum.splits control_pdu_error.splits if_split_asm prod.splits option.splits)

lemma traffic_reject: "handle_reject_ext c h p = (c', h') \<Longrightarrow> traffic h' = traffic h"
  by (auto simp: handle_reject_ext_def Let_def dest: traffic_abandon split: if_split_asm)

lemma traffic_ll_control: "handle_ll_control c h p = Some (e, c', h') \<Longrightarrow> traffic h' = traffic h"
  unfolding handle_ll_control_def
  by (auto simp: Let_def dest: traffic_abandon traffic_update_ind traffic_map_ind traffic_param_req traffic_reject
      split: list.splits if_split_asm prod.splits)

lemma traffic_instants: "instants_step now c h = Inr (c', h') \<Longrightarrow> traffic h' = traffic h"
  by (auto simp: instants_step_def Let_def split: sum.splits prod.splits)

section \<open>Steps that keep the transmit state\<close>

definition keeps :: "active_connection \<Rightarrow> active_connection \<Rightarrow> bool" where
  "keeps c c' \<longleftrightarrow> same_tx c c' \<and> ac_handle c' = ac_handle c \<and> (conn_ok c \<longrightarrow> conn_ok c')"

lemma same_tx_trans: "same_tx c c1 \<Longrightarrow> same_tx c1 c2 \<Longrightarrow> same_tx c c2"
  by (simp add: same_tx_def)

lemma keeps_refl [simp]: "keeps c c"
  by (simp add: keeps_def same_tx_def)

lemma keeps_trans: "keeps c c1 \<Longrightarrow> keeps c1 c2 \<Longrightarrow> keeps c c2"
  using same_tx_trans [of c c1 c2] by (simp add: keeps_def)

lemma same_tx_acl: "same_tx c c' \<Longrightarrow> acl_ok c' = acl_ok c \<and> acl_list c' = acl_list c \<and> acl_contents c' = acl_contents c"
  by (simp add: same_tx_def acl_ok_def acl_list_def acl_contents_def)

lemma keeps_inv: "keeps c c' \<Longrightarrow> link_inv c \<Longrightarrow> link_inv c'"
  using same_tx_acl [of c c'] frame_ok_same_tx [of c c'] by (simp add: keeps_def link_inv_def)

lemma ctrl_inv: "ctrl_ok c c' \<Longrightarrow> link_inv c \<Longrightarrow> link_inv c'"
  using acl_ok_fields [of c' c] by (simp add: ctrl_ok_def link_inv_def same_data_def)

lemma apply_instants_same:
  assumes "apply_instants now c = Inr (r, c')"
  shows "same_tx c c' \<and> ac_handle c' = ac_handle c"
proof -
  obtain c1 where c1: "apply_channel_map c = Inr c1" using assms by (auto simp: apply_instants_def split: sum.splits)
  have s1: "same_tx c c1 \<and> ac_handle c1 = ac_handle c"
    using c1 by (auto simp: apply_channel_map_def same_tx_def split: option.splits if_split_asm sum.splits)
  obtain r2 c2 where c2: "apply_connection_update now c1 = (r2, c2)" by (cases "apply_connection_update now c1")
  have s2: "same_tx c1 c2 \<and> ac_handle c2 = ac_handle c1"
    using c2 by (auto simp: apply_connection_update_def Let_def same_tx_def split: option.splits if_split_asm)
  have "same_tx c2 c' \<and> ac_handle c' = ac_handle c2"
    using assms c1 c2 by (auto simp: apply_instants_def same_tx_def)
  with s1 s2 show ?thesis using same_tx_trans by metis
qed

lemma instants_step_ok:
  assumes "conn_ok c"
  shows "\<exists>c' h'. instants_step now c h = Inr (c', h') \<and> conn_ok c' \<and> keeps c c'"
proof -
  obtain a ch c1 where i: "apply_instants now c = Inr ((a, ch), c1)" "conn_ok c1"
    using apply_instants_ok [OF assms, of now] by auto
  let ?c2 = "if a then c1\<lparr>ac_local_connection_param_request := None\<rparr> else c1"
  have "conn_ok ?c2" using i(2) by (simp add: conn_ok_def)
  moreover have "keeps c ?c2"
    using apply_instants_same [OF i(1)] \<open>conn_ok ?c2\<close> by (simp add: keeps_def same_tx_def)
  ultimately show ?thesis using i(1) by (simp add: instants_step_def Let_def)
qed

lemma with_pending_procedure_ok:
  assumes "with_pending_procedure c f = Some c'"
    and "\<And>who t m. manager_ok (ac_procedures c) \<Longrightarrow> f (ac_procedures c) who t = Inr m \<Longrightarrow> manager_ok m"
  shows "keeps c c'"
proof -
  have "c' = c \<or> (\<exists>who t m. f (ac_procedures c) who t = Inr m \<and> c' = c\<lparr>ac_procedures := m\<rparr>)"
    using assms(1) by (auto simp: with_pending_procedure_def split: option.splits sum.splits) blast
  then show ?thesis using assms(2) by (auto simp: keeps_def same_tx_def conn_ok_def)
qed

lemma plan_ok: "plan_pending_control_procedure c = Some c' \<Longrightarrow> keeps c c'"
  unfolding plan_pending_control_procedure_def
  by (erule with_pending_procedure_ok) (use procedure_call_ok [of _ "TxPlannedEv who t" for who t] in auto)

lemma complete_control_ok: "complete_pending_control_transmit c = Some c' \<Longrightarrow> keeps c c'"
  unfolding complete_pending_control_transmit_def
  by (erule with_pending_procedure_ok) (use procedure_call_ok [of _ "TxDoneEv who t" for who t] in auto)

lemma acknowledge_control_ok: "acknowledge_pending_control c now = Some c' \<Longrightarrow> keeps c c'"
  unfolding acknowledge_pending_control_def
  by (erule with_pending_procedure_ok) (use procedure_call_ok [of _ "NesnAckEv who t now" for who t] in auto)

section \<open>The procedure that owns a control PDU\<close>

text \<open>
  The hooks of the planner, the transmitter and the acknowledgement fail, and end the link with reason
  0x1f, only on a control PDU that a procedure owns and that this procedure is not waiting to send
  (\<open>unqueued\<close>) or to see acknowledged (\<open>unawaited\<close>).
\<close>

definition owning_procedure :: "active_connection \<Rightarrow> pending_data \<Rightarrow> procedure_context option" where
  "owning_procedure c pd =
     find (\<lambda>ctx. pt_owner_token (pc_token ctx) = pd_owner_token pd)
       ((case pm_local (ac_procedures c) of Some ctx \<Rightarrow> [ctx] | None \<Rightarrow> [])
        @ (case pm_remote (ac_procedures c) of Some ctx \<Rightarrow> [ctx] | None \<Rightarrow> []))"

definition unqueued :: "active_connection \<Rightarrow> pending_data \<Rightarrow> bool" where
  "unqueued c pd = (case owning_procedure c pd of None \<Rightarrow> False
     | Some ctx \<Rightarrow> pc_phase ctx \<noteq> Queued \<and> pc_phase ctx \<noteq> ResponseQueued)"

definition unawaited :: "active_connection \<Rightarrow> pending_data \<Rightarrow> bool" where
  "unawaited c pd = (case owning_procedure c pd of None \<Rightarrow> False | Some ctx \<Rightarrow> pc_phase ctx \<noteq> AwaitingTxAck)"

lemma with_pending_none:
  assumes "\<And>m who t. f m who t = with_context m who (g t)"
  shows "with_pending_procedure c f = None \<longleftrightarrow>
    (\<exists>pd ctx e. ac_pending_control c = Some pd \<and> owning_procedure c pd = Some ctx \<and> g (pc_token ctx) ctx = Inl e)"
  by (auto simp: with_pending_procedure_def assms procedure_for_control_owner_def owning_procedure_def with_context_def
      split: option.splits if_split_asm sum.splits)

lemma plan_none: "plan_pending_control_procedure c = None \<longleftrightarrow> (\<exists>pd. ac_pending_control c = Some pd \<and> unqueued c pd)"
  unfolding plan_pending_control_procedure_def
  by (subst with_pending_none [where g = "\<lambda>token ctx. if pc_token ctx \<noteq> token then Inl StaleToken
        else if \<not> (pc_phase ctx = Queued \<or> pc_phase ctx = ResponseQueued) then Inl InvalidPhase else Inr ctx"])
     (auto simp: tx_planned_def unqueued_def split: option.splits)

lemma complete_none: "complete_pending_control_transmit c = None \<longleftrightarrow> (\<exists>pd. ac_pending_control c = Some pd \<and> unqueued c pd)"
  unfolding complete_pending_control_transmit_def
  by (subst with_pending_none [where g = tx_done_context])
     (auto simp: tx_done_def tx_done_context_def unqueued_def split: option.splits)

lemma acknowledge_none: "acknowledge_pending_control c now = None \<longleftrightarrow> (\<exists>pd. ac_pending_control c = Some pd \<and> unawaited c pd)"
  unfolding acknowledge_pending_control_def
  by (subst with_pending_none [where g = "\<lambda>token. nesn_ack_context token now"])
     (auto simp: nesn_ack_def nesn_ack_context_def unawaited_def split: option.splits)

text \<open>Instants leave both predicates alone: they only end procedures that await an instant.\<close>

definition same_hooks :: "active_connection \<Rightarrow> active_connection \<Rightarrow> bool" where
  "same_hooks c c' \<longleftrightarrow> unqueued c' = unqueued c \<and> unawaited c' = unawaited c"

lemma same_hooks_procedures: "ac_procedures c' = ac_procedures c \<Longrightarrow> same_hooks c c'"
  by (simp add: same_hooks_def unqueued_def unawaited_def owning_procedure_def fun_eq_iff)

lemma same_hooks_trans: "same_hooks c c1 \<Longrightarrow> same_hooks c1 c2 \<Longrightarrow> same_hooks c c2"
  by (simp add: same_hooks_def)

lemma instant_context_hooks:
  "pc_token (instant_context n er ctx) = pc_token ctx"
  "pc_phase (instant_context n er ctx) = Queued \<longleftrightarrow> pc_phase ctx = Queued"
  "pc_phase (instant_context n er ctx) = ResponseQueued \<longleftrightarrow> pc_phase ctx = ResponseQueued"
  "pc_phase (instant_context n er ctx) = AwaitingTxAck \<longleftrightarrow> pc_phase ctx = AwaitingTxAck"
  by (auto simp: instant_context_def split: option.splits instant_relation.splits)

lemma same_hooks_instants: "same_hooks c (c\<lparr>ac_procedures := on_connection_event (ac_procedures c) n er\<rparr>)"
  by (auto simp: same_hooks_def unqueued_def unawaited_def owning_procedure_def on_connection_event_def
      instant_context_hooks fun_eq_iff split: option.splits)

lemma instants_step_hooks:
  assumes "instants_step now c h = Inr (c', h')"
  shows "same_hooks c c'"
proof -
  obtain c1 where c1: "apply_channel_map c = Inr c1"
    using assms by (auto simp: instants_step_def apply_instants_def split: sum.splits)
  obtain r c2 where c2: "apply_connection_update now c1 = (r, c2)" by (cases "apply_connection_update now c1")
  have "ac_procedures c1 = ac_procedures c"
    using c1 by (auto simp: apply_channel_map_def split: option.splits if_split_asm sum.splits)
  moreover have "ac_procedures c2 = ac_procedures c1"
    using c2 by (auto simp: apply_connection_update_def Let_def split: option.splits if_split_asm)
  ultimately have "same_hooks c c2" by (simp add: same_hooks_procedures)
  moreover have "ac_procedures c' = on_connection_event (ac_procedures c2) (ac_event_counter c2) 0x28"
    using assms c1 c2 by (auto simp: instants_step_def apply_instants_def Let_def split: prod.splits if_split_asm)
  then have "same_hooks (c2\<lparr>ac_procedures := on_connection_event (ac_procedures c2) (ac_event_counter c2) 0x28\<rparr>) c'"
    by (intro same_hooks_procedures) simp
  ultimately show ?thesis using same_hooks_instants same_hooks_trans by blast
qed

lemma plan_procedures: "plan_pending_control_procedure c = Some c' \<Longrightarrow> ac_procedures c' = ac_procedures c"
  by (auto simp: plan_pending_control_procedure_def with_pending_procedure_def tx_planned_def with_context_def
      split: option.splits if_split_asm sum.splits initiator.splits)

section \<open>The frame\<close>

lemma one_bit_cases: "(x :: u8) \<le> 1 \<longleftrightarrow> x = 0 \<or> x = 1"
  by (simp add: word_le_nat_alt le_Suc_eq unat_eq_zero) (metis unat_1 word_unat_eq_iff One_nat_def)

lemma xor_one_le: "(x :: u8) \<le> 1 \<Longrightarrow> x XOR 1 \<le> 1"
  by (auto simp: one_bit_cases)

lemma built_header_mask:
  "l \<in> {LLID_CONTINUATION, LLID_START, LLID_CONTROL} \<Longrightarrow> e \<le> 1 \<Longrightarrow> t \<le> 1 \<Longrightarrow>
   (l OR push_bit 2 e OR push_bit 3 t) AND 0xf3 = l"
  by (auto simp: one_bit_cases LLID_CONTINUATION_def LLID_START_def LLID_CONTROL_def)

lemma refresh_header:
  "e \<le> 1 \<Longrightarrow> t \<le> 1 \<Longrightarrow> refresh_transmit_sequence_header h t e = (h AND 0xf3) OR push_bit 2 e OR push_bit 3 t"
proof -
  have m: "h AND - 13 = h AND 243" by (rule arg_cong [where f = "(AND) h"]) simp
  show "e \<le> 1 \<Longrightarrow> t \<le> 1 \<Longrightarrow> ?thesis"
    by (auto simp: m one_bit_cases refresh_transmit_sequence_header_def DATA_HEADER_SEQUENCE_MASK_def DATA_HEADER_NESN_def
      DATA_HEADER_SN_def)
qed

lemma selected_pdu_ok:
  assumes "frame_ok c"
  shows "fst (selected_pdu c) \<in> {LLID_CONTINUATION, LLID_START, LLID_CONTROL}"
    "length (snd (selected_pdu c)) \<le> MAX_DATA_PDU_PAYLOAD"
  using assms by (auto simp: frame_ok_def selected_pdu_def pd_ok_def split: transmitted_pdu.splits option.splits)

lemma same_tx_selected: "same_tx c c' \<Longrightarrow> selected_pdu c' = selected_pdu c"
  by (simp add: same_tx_def selected_pdu_def cong: option.case_cong transmitted_pdu.case_cong)

definition same_queues :: "active_connection \<Rightarrow> active_connection \<Rightarrow> bool" where
  "same_queues c c' \<longleftrightarrow> ac_pending c' = ac_pending c \<and> ac_queued_acl c' = ac_queued_acl c
     \<and> ac_transmit_sn c' = ac_transmit_sn c \<and> ac_expected_sn c' = ac_expected_sn c \<and> ac_handle c' = ac_handle c"

lemma build_transmit_frame_ok:
  assumes "build_transmit_frame c = Some c'" "link_inv c" "ac_transmitted c \<noteq> TP_None"
  shows "link_inv c' \<and> frame_holds c' \<and> ac_tx_frame_fresh c' \<and> same_queues c c' \<and> ac_transmitted c' = ac_transmitted c
    \<and> selected_pdu c' = selected_pdu c"
proof -
  obtain c1 where c1: "(if ac_transmitted c = TP_Control then plan_pending_control_procedure c else Some c) = Some c1"
    using assms(1) by (auto simp: build_transmit_frame_def split: option.splits if_split_asm)
  have k: "keeps c c1" using c1 plan_ok by (auto split: if_split_asm)
  then have tx: "same_tx c c1" and i1: "link_inv c1" using keeps_inv assms(2) by (auto simp: keeps_def)
  obtain l pl where sel: "selected_pdu c1 = (l, pl)" by (cases "selected_pdu c1")
  have ok: "l \<in> {LLID_CONTINUATION, LLID_START, LLID_CONTROL}" "length pl \<le> MAX_DATA_PDU_PAYLOAD"
    using selected_pdu_ok [of c1] i1 sel by (simp_all add: link_inv_def)
  let ?h = "l OR push_bit 2 (ac_expected_sn c1) OR push_bit 3 (ac_transmit_sn c1)"
  define f where "f = splice ((ac_tx_frame c1)[0 := ?h, 1 := word_of_nat (length pl)]) 2 pl"
  have c': "c' = c1\<lparr>ac_tx_frame := f, ac_tx_frame_len := length pl + 2, ac_tx_frame_fresh := True\<rparr>"
    using assms(1) c1 sel unfolding build_transmit_frame_def selected_pdu_def f_def
    by (simp add: Let_def)
  have len: "length (ac_tx_frame c1) = 29" "length pl \<le> 27"
    using i1 ok(2) by (simp_all add: link_inv_def frame_ok_def MAX_DATA_PDU_WIRE_LEN_def MAX_DATA_PDU_PAYLOAD_def ACL_PAYLOAD_LEN_def)
  obtain a b rest where abr: "ac_tx_frame c1 = a # b # rest" "length rest = 27"
    using len(1) by (cases "ac_tx_frame c1" rule: list.exhaust [case_product list.exhaust]) (auto simp: length_Suc_conv numeral_eq_Suc)
  have fv: "f = ?h # word_of_nat (length pl) # pl @ drop (length pl) rest"
    unfolding f_def abr(1) splice_def by (simp add: numeral_2_eq_2)
  have sn: "ac_expected_sn c1 \<le> 1" "ac_transmit_sn c1 \<le> 1" using i1 by (simp_all add: link_inv_def frame_ok_def)
  have sel': "selected_pdu c' = (l, pl)" using sel unfolding c' by (simp add: selected_pdu_def cong: option.case_cong transmitted_pdu.case_cong)
  have holds: "frame_holds c'"
    using assms(3) tx built_header_mask [OF ok(1) sn] unfolding frame_holds_def sel' by (simp add: c' fv same_tx_def)
  have "frame_ok c'" using i1 holds len abr by (simp add: link_inv_def frame_ok_def c' fv)
  moreover have "conn_ok c'" "acl_ok c'" using i1 by (simp_all add: c' link_inv_def conn_ok_def acl_ok_def)
  ultimately show ?thesis
    using holds tx k sel sel' same_tx_selected [OF tx] by (simp add: link_inv_def same_queues_def c' same_tx_def keeps_def)
qed

lemma choose_ok:
  assumes "link_inv c"
  defines "c' \<equiv> choose_transmit (promote_priority_control_if_idle c)"
  shows "link_inv c' \<and> ac_transmitted c' \<noteq> TP_None \<and> same_queues c c' \<and> ac_tx_frame_len c' = ac_tx_frame_len c
    \<and> ac_tx_frame_fresh c' = ac_tx_frame_fresh c \<and> (ac_transmitted c \<noteq> TP_None \<longrightarrow> c' = c)"
proof (cases "ac_transmitted c = TP_None")
  case False
  then show ?thesis using assms(1)
    by (simp add: c'_def choose_transmit_def promote_priority_control_if_idle_def same_queues_def)
next
  case True
  then have len: "ac_tx_frame_len c = 0" using assms(1) by (auto simp: link_inv_def frame_ok_def frame_holds_def)
  define c1 where "c1 = promote_priority_control_if_idle c"
  have c1: "link_inv c1" "ac_transmitted c1 = TP_None" "same_queues c c1" "ac_tx_frame_len c1 = 0"
    "ac_tx_frame_fresh c1 = ac_tx_frame_fresh c"
    using assms(1) True len unfolding c1_def promote_priority_control_if_idle_def
    by (auto simp: link_inv_def conn_ok_def acl_ok_def frame_ok_def same_queues_def)
  have "link_inv c'" using c1 unfolding c'_def c1_def [symmetric] choose_transmit_def
    by (simp add: link_inv_def conn_ok_def acl_ok_def frame_ok_def)
  then show ?thesis using c1 True len unfolding c'_def c1_def [symmetric] choose_transmit_def
    by (simp add: same_queues_def)
qed

text \<open>
  The PDU of the event, read off the state the event starts with: what is already selected, and else the
  first of the priority control PDU, the control PDU and the ACL payload that is there, and else the empty
  PDU. \<open>event_control\<close> is the control PDU among them.
\<close>

definition event_control :: "active_connection \<Rightarrow> pending_data option" where
  "event_control c = (case ac_transmitted c of
       TP_Control \<Rightarrow> ac_pending_control c
     | TP_None \<Rightarrow> (case ac_priority_control c of Some p \<Rightarrow> Some p | None \<Rightarrow> ac_pending_control c)
     | _ \<Rightarrow> None)"

definition event_pdu :: "active_connection \<Rightarrow> u8 \<times> bytes" where
  "event_pdu c =
     (case (case event_control c of Some d \<Rightarrow> Some d
            | None \<Rightarrow> if ac_transmitted c = TP_None \<or> ac_transmitted c = TP_Acl then ac_pending c else None) of
        Some d \<Rightarrow> (pd_llid d, take (pd_len d) (pd_bytes d)) | None \<Rightarrow> (LLID_CONTINUATION, []))"

text \<open>The control PDU that a connection with a selection sends.\<close>

definition selected_control :: "active_connection \<Rightarrow> pending_data option" where
  "selected_control c = (if ac_transmitted c = TP_Control then ac_pending_control c else None)"

lemma selected_control_fields:
  "ac_transmitted c' = ac_transmitted c \<Longrightarrow> ac_pending_control c' = ac_pending_control c \<Longrightarrow>
   selected_control c' = selected_control c"
  by (simp add: selected_control_def)

text \<open>The control PDU of this event is refused by its procedure before the radio is touched.\<close>

definition stage_refused :: "active_connection \<Rightarrow> bool" where
  "stage_refused c = (ac_tx_frame_len c = 0 \<and> (case event_control c of Some pd \<Rightarrow> unqueued c pd | None \<Rightarrow> False))"

lemma choose_selects:
  assumes "link_inv c"
  defines "c' \<equiv> choose_transmit (promote_priority_control_if_idle c)"
  shows "selected_pdu c' = event_pdu c \<and> ac_procedures c' = ac_procedures c
    \<and> selected_control c' = event_control c"
proof -
  have "ac_transmitted c = TP_None \<Longrightarrow> ac_tx_frame_len c = 0"
    and "ac_transmitted c = TP_Control \<Longrightarrow> ac_pending_control c \<noteq> None"
    using assms(1) by (auto simp: link_inv_def frame_ok_def frame_holds_def)
  then show ?thesis
    by (cases "ac_transmitted c"; cases "ac_priority_control c"; cases "ac_pending_control c"; cases "ac_pending c")
       (simp_all add: c'_def choose_transmit_def promote_priority_control_if_idle_def selected_pdu_def event_pdu_def
          event_control_def selected_control_def)
qed

lemma event_control_same: "same_tx c c' \<Longrightarrow> event_control c' = event_control c"
  by (simp add: same_tx_def event_control_def cong: option.case_cong transmitted_pdu.case_cong)

lemma event_pdu_same: "same_tx c c' \<Longrightarrow> event_pdu c' = event_pdu c"
  using event_control_same [of c c'] by (simp add: event_pdu_def same_tx_def cong: option.case_cong)

lemma build_transmit_frame_none:
  "build_transmit_frame c = None \<longleftrightarrow> ac_transmitted c = TP_Control \<and> (\<exists>pd. ac_pending_control c = Some pd \<and> unqueued c pd)"
  using plan_none [of c] by (auto simp: build_transmit_frame_def Let_def split: option.splits prod.splits if_split_asm)

lemma build_transmit_frame_control:
  assumes "build_transmit_frame c = Some c'"
  shows "ac_procedures c' = ac_procedures c \<and> ac_pending_control c' = ac_pending_control c"
proof -
  obtain c1 where c1: "(if ac_transmitted c = TP_Control then plan_pending_control_procedure c else Some c) = Some c1"
    using assms by (auto simp: build_transmit_frame_def split: option.splits if_split_asm)
  have "ac_procedures c1 = ac_procedures c \<and> ac_pending_control c1 = ac_pending_control c"
    using c1 plan_procedures [of c c1] plan_ok [of c c1] by (auto simp: keeps_def same_tx_def split: if_split_asm)
  then show ?thesis using assms c1 by (auto simp: build_transmit_frame_def Let_def split: prod.splits)
qed

definition air_header :: "active_connection \<Rightarrow> u8" where
  "air_header c = fst (selected_pdu c) OR push_bit 2 (ac_expected_sn c) OR push_bit 3 (ac_transmit_sn c)"

lemma refresh_frame:
  assumes "link_inv c" "frame_holds c"
  defines "c' \<equiv> c\<lparr>ac_tx_frame := (ac_tx_frame c)[0 :=
    refresh_transmit_sequence_header (ac_tx_frame c ! 0) (ac_transmit_sn c) (ac_expected_sn c)]\<rparr>"
  shows "link_inv c' \<and> frame_holds c' \<and> selected_pdu c' = selected_pdu c
    \<and> take (ac_tx_frame_len c') (ac_tx_frame c') = [air_header c, word_of_nat (length (snd (selected_pdu c)))] @ snd (selected_pdu c)"
proof -
  obtain l pl where sel: "selected_pdu c = (l, pl)" by (cases "selected_pdu c")
  have sel': "selected_pdu c' = (l, pl)" using sel unfolding c'_def by (simp add: selected_pdu_def cong: option.case_cong transmitted_pdu.case_cong)
  have ok: "l \<in> {LLID_CONTINUATION, LLID_START, LLID_CONTROL}" "length pl \<le> MAX_DATA_PDU_PAYLOAD"
    using selected_pdu_ok [of c] assms(1) sel by (simp_all add: link_inv_def)
  have len: "length (ac_tx_frame c) = 29" "length pl \<le> 27"
    using assms(1) ok(2) by (simp_all add: link_inv_def frame_ok_def MAX_DATA_PDU_WIRE_LEN_def MAX_DATA_PDU_PAYLOAD_def ACL_PAYLOAD_LEN_def)
  obtain a b rest where abr: "ac_tx_frame c = a # b # rest" "length rest = 27"
    using len(1) by (cases "ac_tx_frame c" rule: list.exhaust [case_product list.exhaust]) (auto simp: length_Suc_conv numeral_eq_Suc)
  have sn: "ac_expected_sn c \<le> 1" "ac_transmit_sn c \<le> 1" using assms(1) by (simp_all add: link_inv_def frame_ok_def)
  have fh: "ac_transmitted c \<noteq> TP_None" "ac_tx_frame_len c = length pl + 2" "a AND 0xf3 = l" "b = word_of_nat (length pl)"
      "take (length pl) rest = pl"
    using assms(2) sel abr(1) by (simp_all add: frame_holds_def)
  have hd: "refresh_transmit_sequence_header a (ac_transmit_sn c) (ac_expected_sn c) = air_header c"
    using refresh_header [OF sn, of a] fh(3) sel by (simp add: air_header_def)
  have m: "air_header c AND 0xf3 = l" using built_header_mask [OF ok(1) sn] sel by (simp add: air_header_def)
  have c': "c' = c\<lparr>ac_tx_frame := air_header c # b # rest\<rparr>" unfolding c'_def abr(1) by (simp add: hd)
  have h': "frame_holds c'" using fh m unfolding frame_holds_def sel' by (simp add: c')
  have "link_inv c'" using assms(1) h' abr by (simp add: c' link_inv_def conn_ok_def acl_ok_def frame_ok_def)
  moreover have "take (ac_tx_frame_len c') (ac_tx_frame c') = [air_header c, word_of_nat (length pl)] @ pl"
    using fh by (simp add: c')
  ultimately show ?thesis using h' sel sel' by simp
qed

lemma receive_timeout_ok: "take_receive_timeout c = (t, c') \<Longrightarrow> keeps c c'"
  by (auto simp: take_receive_timeout_def Let_def keeps_def same_tx_def conn_ok_def)

lemma next_channel_keeps:
  assumes "conn_ok c"
  shows "\<exists>ch c'. ac_next_channel c = Some (ch, c') \<and> keeps c c'"
proof -
  obtain ch c' where n: "ac_next_channel c = Some (ch, c')" "conn_ok c'" using ac_next_channel_ok [OF assms] by blast
  moreover have "same_tx c c' \<and> ac_handle c' = ac_handle c"
    using n(1) by (auto simp: ac_next_channel_def same_tx_def split: option.splits)
  ultimately show ?thesis by (simp add: keeps_def)
qed

lemma same_queues_trans: "same_queues c c1 \<Longrightarrow> same_queues c1 c2 \<Longrightarrow> same_queues c c2"
  by (simp add: same_queues_def)

lemma keeps_queues: "keeps c c' \<Longrightarrow> same_queues c c'"
  by (simp add: keeps_def same_tx_def same_queues_def)

definition staged_ok ::
    "active_connection \<Rightarrow> host_link \<Rightarrow> (ll_result + (channel \<times> nat \<times> nat \<times> active_connection \<times> host_link)) option \<Rightarrow> bool" where
  "staged_ok c h r \<longleftrightarrow> (case r of None \<Rightarrow> False
     | Some (Inl (e, c', h')) \<Rightarrow> stage_refused c \<and> e = Some 0x1f \<and> link_inv c' \<and> same_queues c c' \<and> traffic h' = traffic h
     | Some (Inr (ch, d, t, c', h')) \<Rightarrow> \<not> stage_refused c
         \<and> link_inv c' \<and> frame_holds c' \<and> same_queues c c' \<and> traffic h' = traffic h \<and> same_hooks c c'
         \<and> selected_control c' = event_control c \<and> selected_pdu c' = event_pdu c
         \<and> take (ac_tx_frame_len c') (ac_tx_frame c')
             = [air_header c', word_of_nat (length (snd (selected_pdu c')))] @ snd (selected_pdu c')
         \<and> (if ac_tx_frame_len c = 0 then ac_tx_frame_fresh c'
            else selected_pdu c' = selected_pdu c \<and> ac_tx_frame_fresh c' = ac_tx_frame_fresh c
              \<and> ac_transmitted c' = ac_transmitted c))"

lemma stage_event_ok:
  assumes "link_inv c"
  shows "staged_ok c h (stage_event clock c h)"
proof -
  have "conn_ok c" using assms by (simp add: link_inv_def)
  then obtain c1 h1 where i: "instants_step (clock 0) c h = Inr (c1, h1)" "conn_ok c1" "keeps c c1"
    using instants_step_ok by blast
  obtain ch c2 where n: "ac_next_channel c1 = Some (ch, c2)" "keeps c1 c2" using next_channel_keeps [OF i(2)] by blast
  obtain t c3 where t: "take_receive_timeout c2 = (t, c3)" by (cases "take_receive_timeout c2")
  have k: "keeps c c3" using keeps_trans [OF keeps_trans [OF i(3) n(2)] receive_timeout_ok [OF t]] .
  have tx: "same_tx c c3" and i3: "link_inv c3" using k keeps_inv assms by (auto simp: keeps_def)
  define c4 where "c4 = choose_transmit (promote_priority_control_if_idle c3)"
  have c4: "link_inv c4" "ac_transmitted c4 \<noteq> TP_None" "same_queues c3 c4" "ac_tx_frame_len c4 = ac_tx_frame_len c"
      "ac_tx_frame_fresh c4 = ac_tx_frame_fresh c" "ac_transmitted c3 \<noteq> TP_None \<longrightarrow> c4 = c3"
    using choose_ok [OF i3] tx unfolding c4_def same_tx_def by simp_all
  have s4: "selected_pdu c4 = event_pdu c" "ac_procedures c4 = ac_procedures c3"
      "selected_control c4 = event_control c"
    using choose_selects [OF i3] event_pdu_same [OF tx] event_control_same [OF tx] unfolding c4_def by simp_all
  have "ac_procedures c3 = ac_procedures c1"
    using n(1) t by (auto simp: ac_next_channel_def take_receive_timeout_def Let_def split: option.splits)
  then have hk: "same_hooks c c4"
    using same_hooks_trans [OF instants_step_hooks [OF i(1)] same_hooks_procedures [of c4 c1]] s4(2) by simp
  have q4: "same_queues c c4" using same_queues_trans [OF keeps_queues [OF k] c4(3)] .
  have tr: "traffic h1 = traffic h" using traffic_instants [OF i(1)] .
  define b where "b = (if ac_tx_frame_len c4 = 0 then build_transmit_frame c4 else Some c4)"
  have se: "stage_event clock c h = (case b of None \<Rightarrow> Some (Inl (Some 0x1f, c4, h1))
      | Some c5 \<Rightarrow> Some (Inr (ch, receive_close c2, t, c5\<lparr>ac_tx_frame := (ac_tx_frame c5)[0 :=
          refresh_transmit_sequence_header (ac_tx_frame c5 ! 0) (ac_transmit_sn c5) (ac_expected_sn c5)]\<rparr>, h1)))"
    unfolding stage_event_def i(1) sum.case prod.case n(1) option.case Let_def t b_def c4_def ..
  have refused: "b = None \<longleftrightarrow> stage_refused c"
    using build_transmit_frame_none [of c4] c4(4) s4(3) hk
    by (auto simp: b_def stage_refused_def same_hooks_def selected_control_def split: option.splits if_split_asm)
  show ?thesis
  proof (cases b)
    case None
    then show ?thesis using c4 q4 tr refused by (simp add: se staged_ok_def)
  next
    case (Some c5)
    have old: "selected_pdu c4 = selected_pdu c \<and> ac_transmitted c4 = ac_transmitted c" if "ac_tx_frame_len c \<noteq> 0"
    proof -
      have "ac_transmitted c3 \<noteq> TP_None"
        using that i3 tx by (auto simp: link_inv_def frame_ok_def frame_holds_def same_tx_def)
      then show ?thesis using c4(6) same_tx_selected [OF tx] tx by (simp add: same_tx_def)
    qed
    have c5: "link_inv c5 \<and> frame_holds c5 \<and> same_queues c4 c5
        \<and> (if ac_tx_frame_len c = 0 then ac_tx_frame_fresh c5 else c5 = c4)
        \<and> selected_pdu c5 = selected_pdu c4 \<and> ac_transmitted c5 = ac_transmitted c4
        \<and> ac_procedures c5 = ac_procedures c4 \<and> ac_pending_control c5 = ac_pending_control c4"
    proof (cases "ac_tx_frame_len c = 0")
      case True
      then show ?thesis
        using build_transmit_frame_ok [OF _ c4(1,2)] build_transmit_frame_control Some c4(4) by (simp add: b_def)
    next
      case False
      then have "c5 = c4" "frame_holds c4" using Some c4(1,4) by (auto simp: b_def link_inv_def frame_ok_def)
      with False c4(1) show ?thesis by (simp add: same_queues_def)
    qed
    let ?c6 = "c5\<lparr>ac_tx_frame := (ac_tx_frame c5)[0 :=
      refresh_transmit_sequence_header (ac_tx_frame c5 ! 0) (ac_transmit_sn c5) (ac_expected_sn c5)]\<rparr>"
    have c6: "link_inv ?c6" "frame_holds ?c6" "selected_pdu ?c6 = selected_pdu c5"
      "take (ac_tx_frame_len ?c6) (ac_tx_frame ?c6) =
         [air_header c5, word_of_nat (length (snd (selected_pdu c5)))] @ snd (selected_pdu c5)"
      using refresh_frame [of c5] c5 by blast+
    have "air_header ?c6 = air_header c5" unfolding air_header_def c6(3) by simp
    moreover have "same_queues c ?c6" using same_queues_trans [OF q4, of c5] c5 by (simp add: same_queues_def)
    moreover have "same_hooks c ?c6"
      using same_hooks_trans [OF hk same_hooks_procedures [of ?c6 c4]] c5 by simp
    moreover have "\<not> stage_refused c" "selected_pdu ?c6 = event_pdu c" using refused Some c6(3) c5 s4(1) by simp_all
    moreover have "selected_control ?c6 = event_control c"
      using c5 s4(3) selected_control_fields [of ?c6 c4] by simp
    ultimately show ?thesis
      unfolding se Some option.case staged_ok_def sum.case prod.case
      using c6 c5 tr old c4(5) by auto
  qed
qed

text \<open>The frame on air, read off the state at the start of the event.\<close>

definition air_frame :: "active_connection \<Rightarrow> bytes" where
  "air_frame c = [fst (event_pdu c) OR push_bit 2 (ac_expected_sn c) OR push_bit 3 (ac_transmit_sn c),
     word_of_nat (length (snd (event_pdu c)))] @ snd (event_pdu c)"

lemma event_pdu_len:
  assumes "link_inv c"
  shows "length (snd (event_pdu c)) \<le> 27"
  using selected_pdu_ok(2) [of "choose_transmit (promote_priority_control_if_idle c)"] choose_ok [OF assms] choose_selects [OF assms]
  by (simp add: link_inv_def MAX_DATA_PDU_PAYLOAD_def ACL_PAYLOAD_LEN_def)

lemma staged_frame:
  assumes "link_inv c"
  shows "case stage_event clock c h of None \<Rightarrow> False
     | Some (Inl (e, c', h')) \<Rightarrow> stage_refused c
     | Some (Inr (ch, d, t, c', h')) \<Rightarrow> \<not> stage_refused c \<and> take (ac_tx_frame_len c') (ac_tx_frame c') = air_frame c
         \<and> length (snd (event_pdu c)) \<le> 27"
proof -
  have "air_header c1 # word_of_nat (length (snd (selected_pdu c1))) # snd (selected_pdu c1) = air_frame c"
    if "same_queues c c1" "selected_pdu c1 = event_pdu c" for c1
    using that by (simp add: air_header_def air_frame_def same_queues_def)
  then show ?thesis using stage_event_ok [OF assms, of h clock] event_pdu_len [OF assms]
    unfolding staged_ok_def by (auto split: option.splits sum.splits)
qed

section \<open>Acknowledgement and reception\<close>

definition credit_events :: "active_connection \<Rightarrow> packet list" where
  "credit_events c = (if ac_transmitted c = TP_Acl
     then [pad Kind_Event ([0x13, 5, 1] @ u16_to_le (ac_handle c) @ u16_to_le 1)] else [])"

definition deliveries :: "active_connection \<Rightarrow> u8 \<Rightarrow> bytes \<Rightarrow> packet list" where
  "deliveries c header pl =
     (if (header AND 3 = LLID_CONTINUATION \<or> header AND 3 = LLID_START) \<and> pl \<noteq> []
      then [pad Kind_AclData (u16_to_le (ac_handle c OR (if header AND 3 = LLID_CONTINUATION then HCI_PB_CONTINUING else HCI_PB_FIRST_FLUSHABLE))
              @ u16_to_le (word_of_nat (length pl)) @ pl)]
      else [])"

lemma traffic_send [simp]:
  "traffic (send_controller_packet p h) = traffic h @ (if is_traffic p then [p] else [])"
  by (simp add: traffic_def send_controller_packet_def)

lemma release_acl_frame:
  assumes "frame_ok c" "acl_ok c"
  shows "pred_option pd_ok (ac_pending (release_acl c)) \<and> list_all (pred_option pd_ok) (ac_queued_acl (release_acl c))"
proof -
  obtain q qs where q: "ac_queued_acl c = q # qs"
    using assms(2) by (cases "ac_queued_acl c") (auto simp: acl_ok_def ACL_QUEUE_CAPACITY_def)
  then show ?thesis using assms(1) by (simp add: release_acl_def frame_ok_def shift_queue_eq)
qed

lemma ack_step_ok:
  assumes "ack_step now c h = Some (c', h')" "link_inv c"
  shows "link_inv c' \<and> ac_transmit_sn c' = ac_transmit_sn c XOR 1 \<and> ac_expected_sn c' = ac_expected_sn c
    \<and> ac_handle c' = ac_handle c \<and> ac_transmitted c' = TP_None \<and> ac_tx_frame_len c' = 0
    \<and> acl_contents c' = (if ac_transmitted c = TP_Acl then tl (acl_contents c) else acl_contents c)
    \<and> traffic h' = traffic h @ credit_events c"
proof -
  obtain c1 where c1: "(if ac_transmitted c = TP_Control then acknowledge_pending_control c (word_of_nat now) else Some c) = Some c1"
    using assms by (auto simp: ack_step_def split: option.splits)
  have k: "keeps c c1" using c1 acknowledge_control_ok by (auto split: if_split_asm)
  then have i1: "link_inv c1" and tx: "same_tx c c1" using keeps_inv assms(2) by (auto simp: keeps_def)
  have sn: "ac_transmit_sn c1 XOR 1 \<le> 1" using i1 xor_one_le by (simp add: link_inv_def frame_ok_def)
  define idle where "idle x = x\<lparr>ac_transmitted := TP_None, ac_tx_frame_len := 0, ac_tx_frame_fresh := False,
    ac_transmit_sn := ac_transmit_sn x XOR 1\<rparr>" for x :: active_connection
  show ?thesis
  proof (cases "ac_transmitted c")
    case TP_Acl
    have i: "conn_ok c" "acl_ok c" "frame_ok c" using assms(2) by (simp_all add: link_inv_def)
    have "c1 = c" using c1 TP_Acl by simp
    then have r: "c' = idle (release_acl c)" "h' = completed_acl (ac_handle c) 1 h"
      using assms(1) TP_Acl by (auto simp: ack_step_def idle_def)
    have "frame_ok c'" using release_acl_frame [OF i(3,2)] i(3) sn \<open>c1 = c\<close>
      by (simp add: r(1) idle_def frame_ok_def release_acl_def)
    moreover have "acl_ok c'" "acl_list c' = tl (acl_list c)"
      using release_acl_ok [OF i(2)] by (simp_all add: r(1) idle_def acl_ok_def acl_list_def)
    moreover have "conn_ok c'" using i(1) by (simp add: r(1) idle_def release_acl_def conn_ok_def)
    ultimately show ?thesis using TP_Acl r(2)
      by (simp add: link_inv_def r(1) idle_def release_acl_def completed_acl_pad is_traffic_def credit_events_def
          acl_contents_def map_tl)
  next
    case TP_Control
    define c2 where "c2 = (case ac_priority_control c1 of
         Some p \<Rightarrow> c1\<lparr>ac_pending_control := Some p, ac_priority_control := None\<rparr>
       | None \<Rightarrow> c1\<lparr>ac_pending_control := ac_queued_control c1, ac_queued_control := None\<rparr>)"
    have t1: "ac_transmitted c1 = TP_Control" using TP_Control tx by (simp add: same_tx_def)
    have r: "c' = idle c2" "h' = h"
      using assms(1) c1 unfolding ack_step_def c1 option.case t1 idle_def c2_def
      by (simp_all add: t1 split: option.splits)
    have "link_inv c'" using i1 sn unfolding r(1) c2_def
      by (cases "ac_priority_control c1") (auto simp: link_inv_def idle_def conn_ok_def acl_ok_def frame_ok_def)
    then show ?thesis using TP_Control r tx k unfolding c2_def
      by (cases "ac_priority_control c1")
         (simp_all add: idle_def credit_events_def same_tx_def keeps_def acl_contents_def acl_list_def)
  next
    case TP_None
    then show ?thesis using assms c1 sn
      by (auto simp: ack_step_def link_inv_def conn_ok_def acl_ok_def frame_ok_def credit_events_def acl_contents_def acl_list_def
          cong: option.case_cong)
  next
    case TP_Empty
    then show ?thesis using assms c1 sn
      by (auto simp: ack_step_def link_inv_def conn_ok_def acl_ok_def frame_ok_def credit_events_def acl_contents_def acl_list_def
          cong: option.case_cong)
  qed
qed

lemma receive_step_ok:
  assumes "link_inv c" "length pl \<le> MAX_DATA_PDU_PAYLOAD"
  shows "\<exists>e c' h'. receive_step c h header pl = Some (e, c', h') \<and> link_inv c' \<and> ac_transmit_sn c' = ac_transmit_sn c
     \<and> ac_expected_sn c' = ac_expected_sn c XOR 1 \<and> ac_handle c' = ac_handle c \<and> acl_contents c' = acl_contents c
     \<and> ac_tx_frame c' = ac_tx_frame c \<and> ac_tx_frame_len c' = ac_tx_frame_len c
     \<and> traffic h' = traffic h @ deliveries c header pl \<and> (header AND 3 \<noteq> LLID_CONTROL \<longrightarrow> e = None)"
proof -
  let ?c1 = "c\<lparr>ac_expected_sn := ac_expected_sn c XOR 1\<rparr>"
  have "frame_holds ?c1 = frame_holds c" by (rule frame_holds_fields) simp_all
  then have k: "link_inv ?c1"
    using assms(1) xor_one_le by (simp add: link_inv_def conn_ok_def acl_ok_def frame_ok_def)
  obtain e c' h' where l: "handle_ll_control ?c1 h pl = Some (e, c', h')" "ctrl_ok ?c1 c'"
    using handle_ll_control_ok by blast
  have i': "link_inv c'" using ctrl_inv [OF l(2) k] .
  have len: "length pl \<le> 60" using assms(2) by (simp add: MAX_DATA_PDU_PAYLOAD_def ACL_PAYLOAD_LEN_def)
  show ?thesis
  proof (cases "header AND 3 = LLID_CONTROL")
    case True
    then have "header AND 3 \<noteq> LLID_CONTINUATION" "header AND 3 \<noteq> LLID_START"
      by (simp_all add: LLID_CONTROL_def LLID_CONTINUATION_def LLID_START_def)
    then show ?thesis using True l i' traffic_ll_control [OF l(1)]
      by (simp add: receive_step_def Let_def deliveries_def ctrl_ok_def same_data_def acl_contents_def acl_list_def
          cong: option.case_cong)
  next
    case False
    then show ?thesis using k send_acl_pad [OF len]
      by (simp add: receive_step_def Let_def deliveries_def is_traffic_def acl_contents_def acl_list_def
          cong: option.case_cong)
  qed
qed

text \<open>A frame determines the PDU it holds.\<close>

lemma frame_determines:
  assumes "link_inv c" "link_inv c'" "ac_tx_frame c' = ac_tx_frame c" "ac_tx_frame_len c' = ac_tx_frame_len c"
    and "ac_tx_frame_len c \<noteq> 0"
  shows "selected_pdu c' = selected_pdu c"
proof -
  have "frame_holds c" "frame_holds c'" using assms by (auto simp: link_inv_def frame_ok_def)
  then show ?thesis using assms(3,4) by (intro prod_eqI) (simp_all add: frame_holds_def)
qed

text \<open>
  The data path of one received packet. \<open>outstanding\<close> is whether the staged frame was already
  sent before this packet: only then does an acknowledgement count.
\<close>

abbreviation sequence_of :: "active_connection \<Rightarrow> data_sequence_state" where
  "sequence_of c \<equiv> \<lparr>transmit_sn = ac_transmit_sn c, expected_sn = ac_expected_sn c\<rparr>"

definition data_step ::
    "bool \<Rightarrow> u8 \<Rightarrow> bytes \<Rightarrow> active_connection \<Rightarrow> host_link \<Rightarrow> active_connection \<Rightarrow> host_link \<Rightarrow> bool" where
  "data_step outstanding header pl c h c' h' \<longleftrightarrow>
     (let (seen, next) = observe (sequence_of c) header;
          acked = (outstanding \<and> acknowledged_transmit seen)
      in ac_expected_sn c' = expected_sn next
         \<and> ac_transmit_sn c' = (if outstanding then transmit_sn next else ac_transmit_sn c)
         \<and> acl_contents c' = (if acked \<and> ac_transmitted c = TP_Acl then tl (acl_contents c) else acl_contents c)
         \<and> ac_handle c' = ac_handle c
         \<and> (if acked then ac_tx_frame_len c' = 0
            else ac_tx_frame_len c = 0 \<or> ac_tx_frame_len c' = ac_tx_frame_len c \<and> selected_pdu c' = selected_pdu c)
         \<and> traffic h' = traffic h @ (if acked then credit_events c else [])
              @ (if accepted_receive seen then deliveries c header pl else []))"

lemma data_step_from:
  assumes "same_queues c c1" "traffic h1 = traffic h" "outstanding \<Longrightarrow> ac_transmitted c1 = ac_transmitted c"
    and "ac_tx_frame_len c = 0 \<or> ac_tx_frame_len c1 = ac_tx_frame_len c \<and> selected_pdu c1 = selected_pdu c"
    and "data_step outstanding header pl c1 h1 c' h'"
  shows "data_step outstanding header pl c h c' h'"
proof -
  have s: "acl_contents c1 = acl_contents c" "ac_transmit_sn c1 = ac_transmit_sn c" "ac_expected_sn c1 = ac_expected_sn c"
      "deliveries c1 header pl = deliveries c header pl" "ac_handle c1 = ac_handle c"
    using assms(1) by (simp_all add: same_queues_def acl_contents_def acl_list_def deliveries_def)
  obtain seen nxt where o: "observe (sequence_of c) header = (seen, nxt)" by (cases "observe (sequence_of c) header")
  show ?thesis
  proof (cases outstanding)
    case True
    then have t: "ac_transmitted c1 = ac_transmitted c" "credit_events c1 = credit_events c"
      using assms(3) s by (simp_all add: credit_events_def)
    show ?thesis using assms(2,4,5) True unfolding data_step_def s t o Let_def prod.case
      by (cases "acknowledged_transmit seen") auto
  next
    case False
    then show ?thesis using assms(2,4,5) unfolding data_step_def s o Let_def prod.case by auto
  qed
qed

text \<open>The header acknowledges the frame under the current sequence number.\<close>

definition acks :: "active_connection \<Rightarrow> u8 \<Rightarrow> bool" where
  "acks c header = acknowledged_transmit (fst (observe (sequence_of c) header))"

lemma ack_step_none:
  "ack_step now c h = None \<longleftrightarrow> (case selected_control c of Some pd \<Rightarrow> unawaited c pd | None \<Rightarrow> False)"
  using acknowledge_none [of c]
  by (auto simp: ack_step_def selected_control_def Let_def split: option.splits prod.splits if_split_asm)

lemma after_packet_ok:
  assumes "link_inv c" "length pl \<le> MAX_DATA_PDU_PAYLOAD"
  shows "\<exists>e c' h'. after_packet clock c h outstanding st rx header pl = Some (e, c', h') \<and> link_inv c'
    \<and> (if outstanding \<and> acks c header \<and> (case selected_control c of Some pd \<Rightarrow> unawaited c pd | None \<Rightarrow> False)
       then e = Some 0x1f \<and> same_queues c c' \<and> traffic h' = traffic h
       else data_step outstanding header pl c h c' h' \<and> (\<not> st \<and> header AND 3 \<noteq> LLID_CONTROL \<longrightarrow> e = None))"
proof -
  let ?c2 = "c\<lparr>ac_last_rssi := rssi_dbm rx,
    ac_supervision_deadline := clock 1 + unat (ci_supervision_timeout (ac_request c)) * 10000\<rparr>"
  let ?ack = "acknowledges_transmit_owner header (ac_transmit_sn ?c2) outstanding False"
  have k2: "keeps c ?c2" by (simp add: keeps_def same_tx_def conn_ok_def)
  have i2: "link_inv ?c2" using keeps_inv [OF k2 assms(1)] .
  define a where "a = (if ?ack then ack_step (clock 2) ?c2 h else Some (?c2, h))"
  let ?refused = "outstanding \<and> acks c header \<and> (case selected_control c of Some pd \<Rightarrow> unawaited c pd | None \<Rightarrow> False)"
  have "unawaited ?c2 = unawaited c" using same_hooks_procedures [of ?c2 c] by (simp add: same_hooks_def)
  then have refused: "a = None \<longleftrightarrow> ?refused"
    using ack_step_none [of "clock 2" ?c2 h] selected_control_fields [of ?c2 c]
    by (auto simp: a_def acks_def observe_def Let_def acknowledges_transmit_owner_def split: option.splits)
  show ?thesis
  proof (cases a)
    case None
    have "after_packet clock c h outstanding st rx header pl = Some (Some 0x1f, ?c2, h)"
      using None unfolding after_packet_def Let_def a_def [symmetric] by simp
    then show ?thesis using i2 refused None by (simp add: same_queues_def)
  next
    case (Some x)
    obtain c3 h3 where x: "x = (c3, h3)" by (cases x)
    have c3: "link_inv c3 \<and> ac_transmit_sn c3 = (if ?ack then ac_transmit_sn c XOR 1 else ac_transmit_sn c)
      \<and> ac_expected_sn c3 = ac_expected_sn c \<and> ac_handle c3 = ac_handle c
      \<and> (if ?ack then ac_tx_frame_len c3 = 0
         else ac_tx_frame c3 = ac_tx_frame c \<and> ac_tx_frame_len c3 = ac_tx_frame_len c \<and> selected_pdu c3 = selected_pdu c)
      \<and> acl_contents c3 = (if ?ack \<and> ac_transmitted c = TP_Acl then tl (acl_contents c) else acl_contents c)
      \<and> traffic h3 = traffic h @ (if ?ack then credit_events c else [])"
    proof (cases ?ack)
      case True
      have "ack_step (clock 2) ?c2 h = Some (c3, h3)" using Some x True by (simp add: a_def)
      moreover have "acl_contents ?c2 = acl_contents c" "credit_events ?c2 = credit_events c"
        using same_tx_acl [of c ?c2] k2 by (simp_all add: keeps_def credit_events_def)
      ultimately show ?thesis using ack_step_ok [OF _ i2] True by simp
    next
      case False
      then have "c3 = ?c2" "h3 = h" using Some x by (auto simp: a_def)
      then show ?thesis using False i2 same_tx_acl [of c ?c2] same_tx_selected [of c ?c2] k2
        by (simp add: keeps_def same_tx_def)
    qed
    let ?acc = "drop_bit 3 header AND 1 = ac_expected_sn c3"
    define b where "b = (if ?acc then receive_step c3 h3 header pl else Some (None, c3, h3))"
    obtain e c4 h4 where b: "b = Some (e, c4, h4)" "link_inv c4" "ac_transmit_sn c4 = ac_transmit_sn c3"
        "ac_expected_sn c4 = (if ?acc then ac_expected_sn c3 XOR 1 else ac_expected_sn c3)" "ac_handle c4 = ac_handle c"
        "acl_contents c4 = acl_contents c3" "ac_tx_frame_len c4 = ac_tx_frame_len c3" "ac_tx_frame c4 = ac_tx_frame c3"
        "traffic h4 = traffic h3 @ (if ?acc then deliveries c3 header pl else [])"
        "header AND 3 \<noteq> LLID_CONTROL \<longrightarrow> e = None"
      using receive_step_ok [of c3 pl h3 header] c3 assms(2) unfolding b_def by (cases ?acc) auto
    obtain c5 h5 where i: "instants_step (clock 3) c4 h4 = Inr (c5, h5)" "keeps c4 c5"
      using instants_step_ok [of c4 "clock 3" h4] b(2) unfolding link_inv_def by blast
    define c6 where "c6 = synchronize c5 (timestamp_us rx - (1 + 4 + 2 + length pl + 3) * 8)"
    have k: "keeps c4 c6" using keeps_trans [OF i(2), of c6] by (simp add: c6_def synchronize_def keeps_def same_tx_def conn_ok_def)
    have tx: "same_tx c4 c6" "ac_handle c6 = ac_handle c4" using k by (simp_all add: keeps_def)
    have "link_inv c6" using keeps_inv [OF k b(2)] .
    moreover have "ac_tx_frame_len c3 = 0 \<or> selected_pdu c6 = selected_pdu c3"
      using frame_determines [of c3 c4] c3 b(2,7,8) same_tx_selected [OF tx(1)] by auto
    then have fr: "if ?ack then ac_tx_frame_len c6 = 0
        else ac_tx_frame_len c = 0 \<or> ac_tx_frame_len c6 = ac_tx_frame_len c \<and> selected_pdu c6 = selected_pdu c"
      using c3 b(7) tx(1) by (cases ?ack) (auto simp: same_tx_def)
    have dl: "deliveries c3 header pl = deliveries c header pl" using c3 by (simp add: deliveries_def)
    have s6: "ac_transmit_sn c6 = (if ?ack then ac_transmit_sn c XOR 1 else ac_transmit_sn c)"
        "ac_expected_sn c6 = (if drop_bit 3 header AND 1 = ac_expected_sn c then ac_expected_sn c XOR 1 else ac_expected_sn c)"
        "acl_contents c6 = (if ?ack \<and> ac_transmitted c = TP_Acl then tl (acl_contents c) else acl_contents c)"
        "ac_handle c6 = ac_handle c"
        "traffic h5 = traffic h @ (if ?ack then credit_events c else [])
           @ (if drop_bit 3 header AND 1 = ac_expected_sn c then deliveries c header pl else [])"
      using c3 b(1-9) tx same_tx_acl [OF tx(1)] traffic_instants [OF i(1)] by (simp_all add: same_tx_def dl)
    have ak: "?ack = (outstanding \<and> drop_bit 2 header AND 1 \<noteq> ac_transmit_sn c)"
      by (simp add: acknowledges_transmit_owner_def)
    have "data_step outstanding header pl c h c6 h5"
      using fr unfolding data_step_def observe_def Let_def s6 ak by (cases outstanding) simp_all
    moreover have "after_packet clock c h outstanding st rx header pl = Some (if st then Some 0x16 else e, c6, h5)"
      unfolding after_packet_def Let_def a_def [symmetric] Some x option.case prod.case b_def [symmetric] b(1) i(1) sum.case c6_def ..
    moreover have "\<not> ?refused" using refused Some by simp
    moreover have "\<not> st \<and> header AND 3 \<noteq> LLID_CONTROL \<longrightarrow> (if st then Some 0x16 else e) = None" using b(10) by simp
    ultimately show ?thesis unfolding if_not_P [OF \<open>\<not> ?refused\<close>] by blast
  qed
qed

text \<open>The packets that count: correct CRC, a known LLID and a complete payload that fits.\<close>

definition data_packet :: "received_packet \<Rightarrow> (u8 \<times> bytes) option" where
  "data_packet rx =
     (if \<not> crc_ok rx then None
      else (case payload rx of
              header # len # body \<Rightarrow>
                if unat len \<le> MAX_DATA_PDU_PAYLOAD \<and> header AND 0x03 \<noteq> 0 \<and> unat len \<le> length body
                then Some (header, take (unat len) body) else None
            | _ \<Rightarrow> None))"

text \<open>
  The data path of an exchange. \<open>refused\<close> says that a procedure refused the control PDU of the event: then,
  and only then, the event ends the link with reason 0x1f and leaves the data path alone. With \<open>quiet\<close>, when
  no control PDU is on air, only a control PDU of the peer can end the link.
\<close>

definition data_path ::
    "bool \<Rightarrow> bool \<Rightarrow> bool \<Rightarrow> (u8 \<times> bytes) option \<Rightarrow> u8 option \<Rightarrow> active_connection \<Rightarrow> host_link \<Rightarrow> active_connection \<Rightarrow> host_link \<Rightarrow> bool" where
  "data_path refused quiet outstanding pkt e c h c' h' \<longleftrightarrow>
     (if refused then e = Some 0x1f \<and> same_queues c c' \<and> traffic h' = traffic h
      else case pkt of Some (header, pl) \<Rightarrow> data_step outstanding header pl c h c' h'
          \<and> (quiet \<and> header AND 3 \<noteq> LLID_CONTROL \<longrightarrow> e = None)
      | None \<Rightarrow> e = None \<and> same_queues c c' \<and> traffic h' = traffic h
          \<and> (ac_tx_frame_len c = 0 \<or> ac_tx_frame_len c' = ac_tx_frame_len c \<and> selected_pdu c' = selected_pdu c))"

text \<open>
  The procedure refuses the transmission of a fresh frame, or the acknowledgement of one sent before.
\<close>

definition transfer_refused :: "active_connection \<Rightarrow> exchange_result option \<Rightarrow> pending_data \<Rightarrow> bool" where
  "transfer_refused c r pd = (case r of None \<Rightarrow> False
     | Some ex \<Rightarrow> if ac_tx_frame_fresh c then ex_transmitted ex \<and> unqueued c pd
         else (case data_packet (ex_received ex) of Some (header, pl) \<Rightarrow> acks c header \<and> unawaited c pd | None \<Rightarrow> False))"

definition exchange_refused :: "active_connection \<Rightarrow> exchange_result option \<Rightarrow> bool" where
  "exchange_refused c r = (case selected_control c of Some pd \<Rightarrow> transfer_refused c r pd | None \<Rightarrow> False)"

text \<open>The same read off the state at the start of the event.\<close>

definition control_refused :: "active_connection \<Rightarrow> exchange_result option \<Rightarrow> bool" where
  "control_refused c r = (case event_control c of None \<Rightarrow> False
     | Some pd \<Rightarrow> if ac_tx_frame_len c = 0 then unqueued c pd else transfer_refused c r pd)"

lemma after_exchange_ok:
  assumes "link_inv c" "frame_holds c"
  shows "\<exists>e c' h'. after_exchange clock c h (\<not> ac_tx_frame_fresh c) ex = Some (e, c', h') \<and> link_inv c'
    \<and> data_path (exchange_refused c (Some ex)) (selected_control c = None) (\<not> ac_tx_frame_fresh c) (data_packet (ex_received ex)) e c h c' h'"
proof -
  define out where "out = (\<not> ac_tx_frame_fresh c)"
  define a where "a = (if ac_tx_frame_fresh c \<and> ex_transmitted ex then
      map_option (\<lambda>c'. c'\<lparr>ac_tx_frame_fresh := False\<rparr>)
        (if ac_transmitted c = TP_Control then complete_pending_control_transmit c else Some c) else Some c)"
  let ?rx = "ex_received ex" and ?ref = "exchange_refused c (Some ex)" and ?quiet = "selected_control c = None"
  have a_none: "a = None \<longleftrightarrow> ac_tx_frame_fresh c \<and> ?ref"
    using complete_none [of c]
    by (auto simp: a_def exchange_refused_def transfer_refused_def selected_control_def split: option.splits)
  show ?thesis
  proof (cases a)
    case None
    then show ?thesis using assms a_none
      unfolding after_exchange_def a_def [symmetric] data_path_def by (simp add: same_queues_def)
  next
    case (Some c1)
    have "\<exists>c0. keeps c c0 \<and> (c1 = c0 \<or> c1 = c0\<lparr>ac_tx_frame_fresh := False\<rparr>)"
      using Some complete_control_ok [of c] keeps_refl [of c] unfolding a_def by (auto split: if_split_asm; blast)
    then obtain c0 where c0: "keeps c c0" "c1 = c0 \<or> c1 = c0\<lparr>ac_tx_frame_fresh := False\<rparr>" by blast
    have i0: "link_inv c0" using keeps_inv [OF c0(1) assms(1)] .
    have h1: "frame_holds c1 = frame_holds c0" using c0(2) by (intro frame_holds_fields) auto
    then have i1: "link_inv c1" using i0 c0(2) by (auto simp: link_inv_def conn_ok_def acl_ok_def frame_ok_def)
    have s1: "same_queues c c1" "ac_tx_frame_len c1 = ac_tx_frame_len c" "acl_contents c1 = acl_contents c"
        "ac_transmitted c1 = ac_transmitted c" "selected_pdu c1 = selected_pdu c"
      using c0 same_tx_acl [of c c0] same_tx_selected [of c c0]
      by (auto simp: keeps_def same_tx_def same_queues_def acl_contents_def acl_list_def selected_pdu_def
          cong: option.case_cong transmitted_pdu.case_cong)
    have ds: "data_step out header pl c h c' h'" if "data_step out header pl c1 h c' h'" for header pl c' h'
      using data_step_from [OF s1(1) refl _ _ that] s1 by simp
    have old: "c1 = c" if out using that Some by (simp add: a_def out_def)
    have ref: "?ref \<longleftrightarrow> out \<and> (case data_packet ?rx of Some (header, pl) \<Rightarrow> acks c1 header
        \<and> (case selected_control c1 of Some pd \<Rightarrow> unawaited c1 pd | None \<Rightarrow> False) | None \<Rightarrow> False)"
    proof (cases out)
      case True
      then show ?thesis using old
        by (auto simp: exchange_refused_def transfer_refused_def out_def split: option.splits)
    next
      case False
      then show ?thesis using a_none Some by (simp add: out_def)
    qed
    define Q where "Q pkt r \<longleftrightarrow> (pkt = data_packet ?rx \<longrightarrow>
        (\<exists>e c' h'. r = Some (e, c', h') \<and> link_inv c' \<and> data_path ?ref ?quiet out pkt e c h c' h'))"
      for pkt and r :: "ll_result option"
    have stop: "Q None (Some (None, c1, h))" unfolding Q_def data_path_def ref using i1 s1 by (auto split: option.splits)
    have go: "Q (Some (header, take (unat len) body)) (after_packet clock c1 h out st rx header (take (unat len) body))"
      if "unat len \<le> MAX_DATA_PDU_PAYLOAD" "?quiet \<longrightarrow> \<not> st" for st rx header len body
    proof -
      have "length (take (unat len) body) \<le> MAX_DATA_PDU_PAYLOAD" using that(1) by simp
      from after_packet_ok [OF i1 this, of clock h out st rx header]
      obtain e c' h' where "after_packet clock c1 h out st rx header (take (unat len) body) = Some (e, c', h')" "link_inv c'"
        "if out \<and> acks c1 header \<and> (case selected_control c1 of Some pd \<Rightarrow> unawaited c1 pd | None \<Rightarrow> False)
         then e = Some 0x1f \<and> same_queues c1 c' \<and> traffic h' = traffic h
         else data_step out header (take (unat len) body) c1 h c' h' \<and> (\<not> st \<and> header AND 3 \<noteq> LLID_CONTROL \<longrightarrow> e = None)"
        by blast
      then show ?thesis using ds s1(1) that(2) unfolding Q_def data_path_def ref
        by (auto simp: same_queues_def dest: sym split: if_split_asm)
    qed
    have "ac_pending_control c1 = ac_pending_control c" using c0 by (auto simp: keeps_def same_tx_def)
    then have quiet: "ac_transmitted c1 = TP_Control \<Longrightarrow> ac_pending_control c1 \<noteq> None \<Longrightarrow> \<not> ?quiet"
      using s1(4) by (simp add: selected_control_def)
    have "Q (data_packet ?rx) (after_exchange clock c h out ex)"
      unfolding after_exchange_def a_def [symmetric] Some option.case Let_def data_packet_def
      by (auto simp: not_le not_less stop intro!: go dest!: quiet split: list.split option.splits)
    then show ?thesis unfolding Q_def out_def by blast
  qed
qed

lemma data_path_from:
  assumes "same_queues c c1" "traffic h1 = traffic h" "link_inv c"
    and "if ac_tx_frame_len c = 0 then ac_tx_frame_fresh c1
       else selected_pdu c1 = selected_pdu c \<and> ac_tx_frame_fresh c1 = ac_tx_frame_fresh c \<and> ac_transmitted c1 = ac_transmitted c"
    and "frame_holds c1" "data_path refused quiet (\<not> ac_tx_frame_fresh c1) pkt e c1 h1 c' h'"
  shows "data_path refused quiet (ac_tx_frame_len c \<noteq> 0 \<and> \<not> ac_tx_frame_fresh c) pkt e c h c' h'"
proof -
  have q: "same_queues c c' = same_queues c1 c'" using assms(1) by (simp add: same_queues_def)
  have len: "ac_tx_frame_len c = 0 \<or> ac_tx_frame_len c1 = ac_tx_frame_len c \<and> selected_pdu c1 = selected_pdu c"
    using assms(3-5) by (auto simp: link_inv_def frame_ok_def frame_holds_def split: if_split_asm)
  have out: "(\<not> ac_tx_frame_fresh c1) = (ac_tx_frame_len c \<noteq> 0 \<and> \<not> ac_tx_frame_fresh c)"
    using assms(4) by (cases "ac_tx_frame_len c = 0") simp_all
  show ?thesis
  proof (cases pkt)
    case None
    then show ?thesis using assms(2,6) q len unfolding data_path_def None option.case by (auto split: if_split_asm)
  next
    case (Some x)
    obtain header pl where x: "x = (header, pl)" by (cases x)
    have "ac_tx_frame_len c \<noteq> 0 \<and> \<not> ac_tx_frame_fresh c \<Longrightarrow> ac_transmitted c1 = ac_transmitted c" using assms(4) by simp
    note ds = data_step_from [OF assms(1,2) this len]
    show ?thesis using assms(2,6) q ds unfolding data_path_def Some x option.case prod.case out by (auto split: if_split_asm)
  qed
qed

text \<open>What is refused on the staged connection is what is refused at the start of the event.\<close>

lemma refused_from:
  assumes "\<not> stage_refused c" "same_queues c c1" "same_hooks c c1" "selected_control c1 = event_control c"
    and "if ac_tx_frame_len c = 0 then ac_tx_frame_fresh c1 else ac_tx_frame_fresh c1 = ac_tx_frame_fresh c"
  shows "exchange_refused c1 r = control_refused c r"
proof (cases "event_control c")
  case None
  then show ?thesis using assms(4) by (simp add: exchange_refused_def control_refused_def)
next
  case (Some pd)
  have h: "unqueued c1 pd = unqueued c pd" "unawaited c1 pd = unawaited c pd" using assms(3) by (simp_all add: same_hooks_def)
  have a: "acks c1 = acks c" using assms(2) by (simp add: acks_def same_queues_def fun_eq_iff)
  have t: "transfer_refused c1 r pd = (if ac_tx_frame_len c = 0 then False else transfer_refused c r pd)"
    using assms(1,5) Some unfolding transfer_refused_def h a
    by (auto simp: stage_refused_def h split: option.splits if_split_asm)
  show ?thesis using assms(1) Some t
    by (auto simp: exchange_refused_def control_refused_def assms(4) stage_refused_def)
qed

lemma stage_refused_control: "stage_refused c \<Longrightarrow> control_refused c r"
  by (auto simp: stage_refused_def control_refused_def split: option.splits)

lemma connection_event_ok:
  assumes "link_inv c"
  shows "\<exists>e c' h'. connection_event exchange clock c h = Some (e, c', h') \<and> link_inv c'
    \<and> (\<exists>ch d t f. data_path (control_refused c (exchange ch d t f)) (event_control c = None) (ac_tx_frame_len c \<noteq> 0 \<and> \<not> ac_tx_frame_fresh c)
         (Option.bind (exchange ch d t f) (\<lambda>ex. data_packet (ex_received ex))) e c h c' h')"
proof -
  note st = stage_event_ok [OF assms, of h clock, unfolded staged_ok_def]
  show ?thesis
  proof (cases "stage_event clock c h")
    case None
    with st show ?thesis by simp
  next
    case (Some r)
    show ?thesis
    proof (cases r)
      case (Inl x)
      obtain e c' h' where x: "x = (e, c', h')" by (cases x)
      have "stage_refused c" using st Some Inl x by simp
      then have "connection_event exchange clock c h = Some (e, c', h')" "link_inv c'"
          "\<And>y quiet out pkt. data_path (control_refused c y) quiet out pkt e c h c' h'"
        using st Some Inl x stage_refused_control [of c] by (simp_all add: connection_event_def data_path_def)
      then show ?thesis by blast
    next
      case (Inr x)
      obtain ch d t c1 h1 where x: "x = (ch, d, t, c1, h1)" by (cases x)
      note st1 = st [unfolded Some Inr x option.case sum.case prod.case]
      from st1 have s: "link_inv c1" "frame_holds c1" "same_queues c c1" "traffic h1 = traffic h"
        "if ac_tx_frame_len c = 0 then ac_tx_frame_fresh c1 else selected_pdu c1 = selected_pdu c
           \<and> ac_tx_frame_fresh c1 = ac_tx_frame_fresh c \<and> ac_transmitted c1 = ac_transmitted c"
        by blast+
      have sel: "selected_control c1 = event_control c" using st1 by blast
      have ref: "exchange_refused c1 y = control_refused c y" for y
        using st1 by (intro refused_from) (auto split: if_split_asm)
      let ?f = "take (ac_tx_frame_len c1) (ac_tx_frame c1)"
      have "\<exists>e c' h'. connection_event exchange clock c h = Some (e, c', h') \<and> link_inv c'
        \<and> data_path (control_refused c (exchange ch d t ?f)) (event_control c = None) (\<not> ac_tx_frame_fresh c1)
            (Option.bind (exchange ch d t ?f) (\<lambda>ex. data_packet (ex_received ex))) e c1 h1 c' h'"
      proof (cases "exchange ch d t ?f")
        case None
        then have "\<not> control_refused c (exchange ch d t ?f)"
          using ref [of None] by (auto simp: exchange_refused_def transfer_refused_def split: option.splits)
        then show ?thesis using Some Inr x s(1) None
          by (simp add: connection_event_def data_path_def same_queues_def)
      next
        case ex: (Some ex)
        then show ?thesis using Some Inr x after_exchange_ok [OF s(1,2), of clock h1 ex] ref [of "Some ex"] sel
          by (simp add: connection_event_def Let_def)
      qed
      then show ?thesis using data_path_from [OF s(3,4) assms s(5,2)] by blast
    qed
  qed
qed

lemma example_link_inv: "link_inv example_connection"
  using example_connection_ok example_tx_fields by (simp add: link_inv_def)

section \<open>Properties\<close>

text \<open>
  C3. The data path of a connection event is the sequence protocol: whatever well-formed packet the radio
  returns, the event ends with the sequence bits \<open>observe\<close> computes, where an acknowledgement counts only for a
  frame sent in an earlier event; an acknowledged ACL payload leaves the queue and returns exactly one
  credit, an unacknowledged frame stays; a new payload is handed to the Host exactly once and a repeated one
  not at all; with no control PDU on air, a data packet never ends the link. The one exception is exact
  (\<open>control_refused\<close>): the event sends a control PDU that a procedure owns, and this procedure is not waiting
  to send it, or not waiting for the acknowledgement this packet brings; then the link ends with reason 0x1f
  and all of it is left alone.
\<close>

theorem connection_event_data_path:
  assumes "link_inv c" "data_packet (ex_received ex) = Some (header, pl)"
  shows "\<exists>e c' h'. connection_event (\<lambda>ch deadline timeout frame. Some ex) clock c h = Some (e, c', h') \<and> link_inv c'
    \<and> (if control_refused c (Some ex) then e = Some 0x1f \<and> same_queues c c' \<and> traffic h' = traffic h
       else data_step (ac_tx_frame_len c \<noteq> 0 \<and> \<not> ac_tx_frame_fresh c) header pl c h c' h'
         \<and> (event_control c = None \<and> header AND 3 \<noteq> LLID_CONTROL \<longrightarrow> e = None))"
  using connection_event_ok [OF assms(1), of "\<lambda>ch deadline timeout frame. Some ex" clock h] assms(2)
  by (cases "control_refused c (Some ex)") (auto simp: data_path_def)

definition example_data :: exchange_result where
  "example_data = \<lparr>ex_transmitted = True, ex_received = \<lparr>payload = [0x02, 2, 0xaa, 0xbb], rssi_dbm = - 40,
     crc_ok = True, timestamp_us = 1900\<rparr>\<rparr>"

lemma new_priority: "active_connection_new now q address = Inr c \<Longrightarrow> ac_priority_control c = None"
  by (auto simp: active_connection_new_def active_connection_new_for_def Let_def split: sum.splits if_split_asm)

lemmas example_priority = new_priority [OF example_connection_fields(1)]

lemma example_control: "event_control example_connection = None" "\<not> control_refused example_connection r"
  by (simp_all add: control_refused_def event_control_def example_connection_fields example_priority)

theorem connection_event_data_path_witness:
  "\<exists>c' h'. connection_event (\<lambda>ch deadline timeout frame. Some example_data) (\<lambda>_. 1700) example_connection host_link_init
      = Some (None, c', h')
    \<and> traffic h' = [pad Kind_AclData [0x01, 0x20, 2, 0, 0xaa, 0xbb]] \<and> ac_expected_sn c' = 1 \<and> ac_transmit_sn c' = 0"
proof -
  have "data_packet (ex_received example_data) = Some (0x02, [0xaa, 0xbb])"
    by (simp add: data_packet_def example_data_def MAX_DATA_PDU_PAYLOAD_def ACL_PAYLOAD_LEN_def)
  note r = connection_event_data_path [OF example_link_inv this, of "\<lambda>_. 1700" host_link_init]
  have "deliveries example_connection 2 [0xaa, 0xbb] = [pad Kind_AclData [0x01, 0x20, 2, 0, 0xaa, 0xbb]]"
    by (simp add: deliveries_def LLID_CONTINUATION_def LLID_START_def HCI_PB_FIRST_FLUSHABLE_def
        example_connection_fields u16_to_le_def) (rule arg_cong [where f = "pad Kind_AclData"], simp)
  then have "traffic h' = [pad Kind_AclData [0x01, 0x20, 2, 0, 0xaa, 0xbb]] \<and> ac_expected_sn c' = 1 \<and> ac_transmit_sn c' = 0"
    if "data_step False 2 [0xaa, 0xbb] example_connection host_link_init c' h'" for c' h'
    using that by (simp add: data_step_def observe_def Let_def example_tx_fields traffic_def host_link_init_def)
  with r show ?thesis by (auto simp: example_tx_fields example_control LLID_CONTROL_def)
qed

text \<open>
  C17. Errors on air change nothing: when the radio fails, or the packet has a wrong CRC, a reserved LLID, an
  oversized length or is cut short, the event returns without a panic, keeps the invariant, the sequence bits,
  the ACL queue and the frame under retransmission, gives no credit and delivers nothing; and the link goes on,
  except exactly where a procedure refuses the control PDU of the event (\<open>control_refused\<close>).
\<close>

theorem connection_event_ignores_errors:
  assumes "link_inv c" "Option.bind result (\<lambda>ex. data_packet (ex_received ex)) = None"
  shows "\<exists>e c' h'. connection_event (\<lambda>ch deadline timeout frame. result) clock c h = Some (e, c', h') \<and> link_inv c'
    \<and> same_queues c c' \<and> traffic h' = traffic h
    \<and> (if control_refused c result then e = Some 0x1f
       else e = None
       \<and> (ac_tx_frame_len c = 0 \<or> ac_tx_frame_len c' = ac_tx_frame_len c \<and> selected_pdu c' = selected_pdu c))"
  using connection_event_ok [OF assms(1), of "\<lambda>ch deadline timeout frame. result" clock h] assms(2)
  by (cases "control_refused c result") (auto simp: data_path_def)

theorem connection_event_ignores_errors_witness:
  "\<exists>c' h'. connection_event (\<lambda>ch deadline timeout frame.
       Some (example_data\<lparr>ex_received := (ex_received example_data)\<lparr>crc_ok := False\<rparr>\<rparr>)) (\<lambda>_. 1700) example_connection host_link_init
      = Some (None, c', h') \<and> traffic h' = []"
  using connection_event_ignores_errors [OF example_link_inv,
      of "Some (example_data\<lparr>ex_received := (ex_received example_data)\<lparr>crc_ok := False\<rparr>\<rparr>)" "\<lambda>_. 1700" host_link_init]
  by (auto simp: data_packet_def traffic_def host_link_init_def example_control)

end
