(* ===== verification/Link_Loop.thy ===== *)
theory Link_Loop
  imports Host_Interface Link_Safety
begin

text \<open>
  The connection loop over any sequence of turns: Host packets, radio results and clock readings
  are the inputs. The loop never panics and keeps the invariant for the whole life of a link.
\<close>

section \<open>The loop\<close>

record turn_input =
  ti_now :: nat
  ti_later :: nat
  ti_clock :: "nat \<Rightarrow> nat"
  ti_drained :: "packet list"
  ti_wake :: "packet option"
  ti_exchange :: radio_exchange

text \<open>\<open>run_connection\<close> and what \<open>advertising_event\<close> does after it, for a finite prefix of its inputs; the
  connection is still alive when the inputs run out.\<close>

fun run_connection ::
    "('g \<Rightarrow> nat \<Rightarrow> bytes \<times> 'g) \<Rightarrow> turn_input list \<Rightarrow> 'g runner \<Rightarrow> active_connection
     \<Rightarrow> ('g runner \<times> active_connection option) option" where
  "run_connection fill [] r c = Some (r, Some c)"
| "run_connection fill (i # is) r c =
     (case run_connection_turn fill (ti_exchange i) (ti_clock i) (ti_now i) (ti_later i) (ti_drained i) (ti_wake i) r c of
        None \<Rightarrow> None
      | Some (Ended reason, r', c') \<Rightarrow> Some (end_connection r' c' reason, None)
      | Some (Again, r', c') \<Rightarrow> run_connection fill is r' c')"

section \<open>Anchors\<close>

definition turn_inv :: "active_connection \<Rightarrow> bool" where
  "turn_inv c \<longleftrightarrow> link_inv c \<and> 1250 \<le> ac_next_anchor c"

lemma receive_open_ok:
  assumes "1250 \<le> ac_next_anchor c"
  shows "receive_open c \<noteq> None"
proof -
  let ?e = "unat (word_of_nat (ac_next_anchor c - ac_last_sync_anchor c) :: u64)"
  let ?p = "unat (sleep_clock_accuracy_ppm (ci_sleep_clock_accuracy (ac_request c))) + 50"
  have "?e \<le> ac_next_anchor c" by (metis diff_le_self le_trans unat_of_nat mod_less_eq_dividend)
  moreover have "ac_window_widening_us c = (?e * ?p + 999999) div 1000000"
    using window_widening_exact_aux [of "word_of_nat (ac_next_anchor c - ac_last_sync_anchor c)"
      "ci_sleep_clock_accuracy (ac_request c)" LOCAL_SLEEP_CLOCK_PPM]
    by (simp add: ac_window_widening_us_def LOCAL_SLEEP_CLOCK_PPM_def)
  moreover have "?e * ?p \<le> ?e * 550"
    using sca_ppm_bound [of "ci_sleep_clock_accuracy (ac_request c)"] by (intro mult_le_mono2) simp
  ultimately have "1000 + ac_window_widening_us c \<le> ac_next_anchor c" using assms by linarith
  then show ?thesis by (simp add: receive_open_def receive_setup_lead_us_def RX_SETUP_LEAD_US_def Let_def)
qed

lemma schedule_keeps: "conn_ok c \<Longrightarrow> keeps c (schedule_following_event c)"
  using schedule_following_event_ok [of c]
  by (simp add: keeps_def schedule_following_event_def Let_def same_tx_def split: option.splits)

lemma skip_loop_keeps:
  "conn_ok c \<Longrightarrow> skip_loop clock now count notify c = Some (Inr (n, nt, c')) \<Longrightarrow>
   keeps c c' \<and> ac_next_anchor c \<le> ac_next_anchor c'"
proof (induction clock now count notify c rule: skip_loop.induct)
  case (1 clock now count notify c)
  show ?case
  proof (cases "now > receive_close c")
    case False
    then show ?thesis using 1(3) by (simp add: skip_loop.simps [of clock now count notify c])
  next
    case True
    obtain a ch c1 where i: "apply_instants (clock count) c = Inr ((a, ch), c1)" "conn_ok c1" "ac_next_anchor c1 = ac_next_anchor c"
      using apply_instants_ok [OF 1(2), of "clock count"] by auto
    define c2 where "c2 = (if a then c1\<lparr>ac_local_connection_param_request := None\<rparr> else c1)"
    have k2: "keeps c c2" "conn_ok c2" "ac_next_anchor c2 = ac_next_anchor c"
      using apply_instants_same [OF i(1)] i by (simp_all add: c2_def keeps_def same_tx_def conn_ok_def)
    obtain x c3 where c3: "ac_next_channel c2 = Some (x, c3)" "keeps c2 c3" using next_channel_keeps [OF k2(2)] by blast
    have a3: "conn_ok c3" "ac_next_anchor c3 = ac_next_anchor c"
      using ac_next_channel_ok [OF k2(2)] c3(1) k2(3) by auto
    let ?c4 = "schedule_following_event c3"
    have k4: "keeps c ?c4" using keeps_trans [OF keeps_trans [OF k2(1) c3(2)] schedule_keeps [OF a3(1)]] .
    have a4: "conn_ok ?c4" "ac_next_anchor c \<le> ac_next_anchor ?c4"
      using schedule_following_event_ok [OF a3(1)] a3(2) by auto
    have less: "count + 1 < 65536"
      using 1(3) True i(1) c3(1) by (subst (asm) skip_loop.simps) (auto simp: Let_def c2_def split: if_split_asm)
    have s: "skip_loop clock now (count + 1) (notify \<or> ch \<or> (a \<and> ac_local_connection_param_request c1 \<noteq> None)) ?c4
        = Some (Inr (n, nt, c'))"
      using 1(3) True i(1) c3(1) less by (subst (asm) skip_loop.simps) (simp add: Let_def c2_def)
    show ?thesis
      using 1(1) [OF True i(1) refl refl refl c2_def c3(1) refl refl less a4(1) s] keeps_trans [OF k4] a4(2) by auto
  qed
qed

lemma skip_and_notify_ok:
  assumes "turn_inv c"
  shows "\<exists>x. skip_and_notify clock now r c = Some x
    \<and> (case x of Inl e \<Rightarrow> e = 0x08 | Inr (n, r', c') \<Rightarrow> turn_inv c')"
proof -
  have ok: "conn_ok c" "link_inv c" "1250 \<le> ac_next_anchor c" using assms by (simp_all add: turn_inv_def link_inv_def)
  have "0 < (65536 :: nat)" by simp
  note l = skip_loop_ok [OF ok(1) this, where clock = clock and now = now and notify = False]
  show ?thesis
  proof (cases "skip_loop clock now 0 False c")
    case None
    with l show ?thesis by simp
  next
    case (Some x)
    show ?thesis
    proof (cases x)
      case (Inl e)
      with Some l show ?thesis by (simp add: skip_and_notify_def skip_expired_events_def)
    next
      case (Inr y)
      obtain n nt c' where y: "y = (n, nt, c')" by (cases y)
      have k: "keeps c c'" "ac_next_anchor c \<le> ac_next_anchor c'" using skip_loop_keeps [OF ok(1)] Some Inr y by auto
      have "turn_inv c'" using keeps_inv [OF k(1) ok(2)] k(2) ok(3) by (simp add: turn_inv_def)
      then show ?thesis using Some Inr y by (simp add: skip_and_notify_def skip_expired_events_def)
    qed
  qed
qed

section \<open>Host packets\<close>

text \<open>The fixed-size packet type of \<open>controller\<close>, and a generator that fills the octets asked for.\<close>

definition packet_wf :: "packet \<Rightarrow> bool" where
  "packet_wf p \<longleftrightarrow> length (pk_bytes p) = HCI_PACKET_CAPACITY \<and> pk_len p \<le> HCI_PACKET_CAPACITY"

definition fills :: "('g \<Rightarrow> nat \<Rightarrow> bytes \<times> 'g) \<Rightarrow> bool" where
  "fills fill \<longleftrightarrow> (\<forall>g n. length (fst (fill g n)) = n)"

lemma put_first_free_all:
  "put_first_free xs d = Some ys \<Longrightarrow> list_all (pred_option P) xs \<Longrightarrow> P d \<Longrightarrow> list_all (pred_option P) ys"
  by (induction xs d arbitrary: ys rule: put_first_free.induct) auto

lemma queue_acl_inv:
  assumes "link_inv c" "packet_wf p" "queue_acl c p = Inr c'"
  shows "link_inv c' \<and> ac_next_anchor c' = ac_next_anchor c"
proof -
  have len: "4 \<le> pk_len p" "unat (u16_from_le (pk_bytes p ! 2) (pk_bytes p ! 3)) + 4 = pk_len p" "pk_len p \<le> 31"
      "u16_from_le (pk_bytes p ! 0) (pk_bytes p ! 1) AND 0x0fff = ac_handle c"
    using assms(3) by (auto simp: queue_acl_def Let_def MAX_DATA_PDU_PAYLOAD_def ACL_PAYLOAD_LEN_def split: if_split_asm)
  have wf: "acl_wf (ac_handle c) p" using assms(2) len by (simp add: acl_wf_def packet_wf_def)
  have acl: "acl_ok c'" using queue_acl_spec [OF _ wf] assms(1,3) by (auto simp: link_inv_def split: if_split_asm)
  obtain d where d: "pd_ok d" "ac_pending c = None \<and> c' = c\<lparr>ac_pending := Some d, ac_next_acl_owner_token := max (ac_next_acl_owner_token c + 1) 1\<rparr>
      \<or> (\<exists>q. put_first_free (ac_queued_acl c) d = Some q
          \<and> c' = c\<lparr>ac_queued_acl := q, ac_next_acl_owner_token := max (ac_next_acl_owner_token c + 1) 1\<rparr>)"
  proof -
    let ?d = "\<lparr>pd_bytes = splice (replicate MAX_DATA_PDU_PAYLOAD 0) 0 (slice_of (pk_bytes p) 4 (4 + unat (u16_from_le (pk_bytes p ! 2) (pk_bytes p ! 3)))),
      pd_len = unat (u16_from_le (pk_bytes p ! 2) (pk_bytes p ! 3)),
      pd_llid = (if drop_bit 12 (u16_from_le (pk_bytes p ! 0) (pk_bytes p ! 1)) AND 0x03 = 1 then LLID_CONTINUATION else LLID_START),
      pd_owner_token = ac_next_acl_owner_token c\<rparr>"
    have "pd_ok ?d" using len assms(2) by (auto simp: pd_ok_def packet_wf_def HCI_PACKET_CAPACITY_def MAX_DATA_PDU_PAYLOAD_def ACL_PAYLOAD_LEN_def)
    moreover have "ac_pending c = None \<and> c' = c\<lparr>ac_pending := Some ?d, ac_next_acl_owner_token := max (ac_next_acl_owner_token c + 1) 1\<rparr>
      \<or> (\<exists>q. put_first_free (ac_queued_acl c) ?d = Some q
          \<and> c' = c\<lparr>ac_queued_acl := q, ac_next_acl_owner_token := max (ac_next_acl_owner_token c + 1) 1\<rparr>)"
      using assms(3) by (simp add: queue_acl_def Let_def split: if_split_asm option.splits)
    ultimately show ?thesis using that by blast
  qed
  have "frame_ok c'"
    using d(2)
  proof
    assume n: "ac_pending c = None \<and> c' = c\<lparr>ac_pending := Some d, ac_next_acl_owner_token := max (ac_next_acl_owner_token c + 1) 1\<rparr>"
    then have "ac_transmitted c \<noteq> TP_Acl" using assms(1) by (auto simp: link_inv_def frame_ok_def)
    then have "selected_pdu c' = selected_pdu c" using n by (simp add: selected_pdu_def split: transmitted_pdu.splits)
    then show ?thesis using n assms(1) d(1) by (simp add: link_inv_def frame_ok_def frame_holds_def)
  next
    assume "\<exists>q. put_first_free (ac_queued_acl c) d = Some q
      \<and> c' = c\<lparr>ac_queued_acl := q, ac_next_acl_owner_token := max (ac_next_acl_owner_token c + 1) 1\<rparr>"
    then obtain q where q: "put_first_free (ac_queued_acl c) d = Some q"
      "c' = c\<lparr>ac_queued_acl := q, ac_next_acl_owner_token := max (ac_next_acl_owner_token c + 1) 1\<rparr>" by blast
    have "frame_holds c' = frame_holds c" unfolding q(2) by (rule frame_holds_fields) simp_all
    then show ?thesis using q put_first_free_all [of "ac_queued_acl c" d q pd_ok] d(1) assms(1) by (simp add: link_inv_def frame_ok_def)
  qed
  then show ?thesis using acl d(2) assms(1) by (auto simp: link_inv_def conn_ok_def)
qed

lemma process_connected_ok:
  assumes "turn_inv c" "packet_wf p" "fills fill"
  shows "\<exists>stop r' c'. process_connected_host_packet fill r c p = Some (stop, r', c') \<and> turn_inv c'"
proof -
  have i: "link_inv c" "1250 \<le> ac_next_anchor c" using assms(1) by (simp_all add: turn_inv_def)
  obtain stop r' c' where h: "handle_connected_command fill r c (take (pk_len p) (pk_bytes p)) = Some (stop, r', c')" "ctrl_ok c c'"
    using handle_connected_command_ok [of fill r c "take (pk_len p) (pk_bytes p)"] assms(3) unfolding fills_def by blast
  have t: "turn_inv c'" using ctrl_inv [OF h(2) i(1)] h(2) i(2) by (simp add: turn_inv_def ctrl_ok_def same_data_def)
  show ?thesis
  proof (cases "pk_kind p")
    case Kind_AclData
    have "turn_inv x" if "queue_acl c p = Inr x" for x
      using queue_acl_inv [OF i(1) assms(2) that] i(2) by (simp add: turn_inv_def)
    then show ?thesis using Kind_AclData assms(1) by (simp add: process_connected_host_packet_def)
        (auto split: sum.splits)
  qed (use h t assms(1) in \<open>auto simp: process_connected_host_packet_def\<close>)
qed

lemma drain_ok:
  "turn_inv c \<Longrightarrow> list_all packet_wf ps \<Longrightarrow> fills fill \<Longrightarrow>
   \<exists>stop r' c'. drain_host_packets fill r c ps = Some (stop, r', c') \<and> turn_inv c'"
proof (induction ps arbitrary: r c)
  case (Cons p ps)
  obtain stop r' c' where p: "process_connected_host_packet fill r c p = Some (stop, r', c')" "turn_inv c'"
    using process_connected_ok [OF Cons(2), of p fill r] Cons(3,4) by auto
  show ?case
  proof (cases stop)
    case True
    with p show ?thesis by auto
  next
    case False
    then show ?thesis using p Cons.IH [OF p(2)] Cons(3,4) by simp
  qed
qed auto

section \<open>Turns\<close>

lemma timer_turn_ok:
  assumes "turn_inv c"
  shows "\<exists>t r' c'. timer_turn exchange clock now r c = Some (t, r', c') \<and> (t = Again \<longrightarrow> turn_inv c')"
proof -
  obtain x where x: "skip_and_notify clock now r c = Some x"
      "case x of Inl e \<Rightarrow> e = 0x08 | Inr (n, r', c') \<Rightarrow> turn_inv c'"
    using skip_and_notify_ok [OF assms] by blast
  show ?thesis
  proof (cases x)
    case (Inl e)
    with x assms show ?thesis by (simp add: timer_turn_def)
  next
    case (Inr y)
    obtain n r1 c1 where y: "y = (n, r1, c1)" by (cases y)
    then have c1: "turn_inv c1" using x(2) Inr by simp
    obtain e c2 h where ev: "connection_event exchange clock c1 (rn_link r1) = Some (e, c2, h)" "link_inv c2"
      using connection_event_ok [of c1 exchange clock "rn_link r1"] c1 by (auto simp: turn_inv_def)
    have co: "conn_ok c2" using ev(2) by (simp add: link_inv_def)
    have "turn_inv (schedule_following_event c2)"
      using keeps_inv [OF schedule_keeps [OF co] ev(2)] schedule_following_event_ok [OF co] by (simp add: turn_inv_def)
    then show ?thesis using x(1) Inr y c1 ev by (cases e) (auto simp: timer_turn_def)
  qed
qed

lemma run_connection_turn_ok:
  assumes "turn_inv c" "list_all packet_wf drained" "pred_option packet_wf wake" "fills fill"
  shows "\<exists>t r' c'. run_connection_turn fill exchange clock now later drained wake r c = Some (t, r', c')
    \<and> (t = Again \<longrightarrow> turn_inv c')"
proof -
  obtain stop r1 c1 where d: "drain_host_packets fill r c drained = Some (stop, r1, c1)" "turn_inv c1"
    using drain_ok [OF assms(1,2,4)] by blast
  obtain ex m where ct: "check_timeouts (ac_procedures c1) (word_of_nat now) 0x22 = (ex, m)"
    by (cases "check_timeouts (ac_procedures c1) (word_of_nat now) 0x22")
  define c2 where "c2 = c1\<lparr>ac_procedures := m\<rparr>"
  have "manager_ok (ac_procedures c1) \<Longrightarrow> manager_ok m"
    using procedure_call_ok [of "ac_procedures c1" "CheckTimeoutsEv (word_of_nat now) 0x22" m] ct by simp
  then have "keeps c1 c2" by (simp add: c2_def keeps_def same_tx_def conn_ok_def)
  then have c2: "turn_inv c2" using keeps_inv [of c1 c2] d(2) by (simp add: turn_inv_def c2_def)
  obtain x where x: "skip_and_notify clock now r1 c2 = Some x"
      "case x of Inl e \<Rightarrow> e = 0x08 | Inr (n, r', c') \<Rightarrow> turn_inv c'"
    using skip_and_notify_ok [OF c2] by blast
  have rest: "\<exists>t r' c'. (case x of Inl reason \<Rightarrow> Some (Ended reason, r1, c2)
      | Inr (n, r3, c3) \<Rightarrow> if n \<noteq> 0 then Some (Again, r3, c3)
          else (case scheduler_open c3 of None \<Rightarrow> None
                | Some _ \<Rightarrow> (case wake of
                    Some p \<Rightarrow> (case process_connected_host_packet fill r3 c3 p of None \<Rightarrow> None
                       | Some (stop, r4, c4) \<Rightarrow> Some (if stop then Ended 0x16 else Again, r4, c4))
                  | None \<Rightarrow> timer_turn exchange clock later r3 c3))) = Some (t, r', c') \<and> (t = Again \<longrightarrow> turn_inv c')"
  proof (cases x)
    case (Inr y)
    obtain n r3 c3 where y: "y = (n, r3, c3)" by (cases y)
    have c3: "turn_inv c3" using x(2) Inr y by simp
    obtain o' where o: "scheduler_open c3 = Some o'"
      using receive_open_ok [of c3] c3 by (auto simp: turn_inv_def scheduler_open_def)
    show ?thesis
    proof (cases wake)
      case None
      then show ?thesis using Inr y o c3 timer_turn_ok [OF c3, of exchange clock later r3] by simp
    next
      case (Some p)
      obtain s4 r4 c4 where p: "process_connected_host_packet fill r3 c3 p = Some (s4, r4, c4)" "turn_inv c4"
        using process_connected_ok [OF c3 _ assms(4), of p r3] assms(3) Some by auto
      then show ?thesis using Some Inr y o c3 by simp
    qed
  qed simp
  show ?thesis
    unfolding run_connection_turn_def d(1) option.case prod.case Let_def ct c2_def [symmetric] x(1)
    using rest d(2) c2 by (cases stop; simp; cases ex; simp)
qed

lemma end_connection_fields:
  "\<not> rn_connected (end_connection r c reason)" "rn_access_address (end_connection r c reason) = ADV_ACCESS_ADDRESS"
  "rn_crc_init (end_connection r c reason) = ADV_CRC_INIT"
  by (simp_all add: end_connection_def set_crc_init_def set_access_address_def ADV_CRC_INIT_def)

definition input_wf :: "turn_input \<Rightarrow> bool" where
  "input_wf i \<longleftrightarrow> list_all packet_wf (ti_drained i) \<and> pred_option packet_wf (ti_wake i)"

lemma run_connection_ok:
  "turn_inv c \<Longrightarrow> list_all input_wf is \<Longrightarrow> fills fill \<Longrightarrow>
   \<exists>r' left. run_connection fill is r c = Some (r', left)
     \<and> (case left of Some c' \<Rightarrow> turn_inv c'
        | None \<Rightarrow> \<not> rn_connected r' \<and> rn_access_address r' = ADV_ACCESS_ADDRESS \<and> rn_crc_init r' = ADV_CRC_INIT)"
proof (induction "is" arbitrary: r c)
  case (Cons i js)
  obtain t r1 c1 where t: "run_connection_turn fill (ti_exchange i) (ti_clock i) (ti_now i) (ti_later i) (ti_drained i) (ti_wake i) r c
      = Some (t, r1, c1)" "t = Again \<longrightarrow> turn_inv c1"
    using run_connection_turn_ok [OF Cons(2), of "ti_drained i" "ti_wake i" fill "ti_exchange i" "ti_clock i" "ti_now i"
        "ti_later i" r] Cons(3,4)
    unfolding input_wf_def list.pred_inject(2) by blast
  show ?case
  proof (cases t)
    case (Ended reason)
    then show ?thesis using t by (simp add: end_connection_fields)
  next
    case Again
    then show ?thesis using t Cons.IH [of c1 r1] Cons(3,4) by simp
  qed
qed simp

lemma turn_inv_new:
  assumes "parse_connect_ind_detailed p a = Inr q" "active_connection_new now q t = Inr c"
  shows "turn_inv c"
proof -
  have v: "length (ci_channel_map q) = 5" "6 \<le> unat (ci_interval q)"
    using parse_connect_ind_detailed_ok [OF assms(1)] by (auto simp: connection_timing_iff)
  obtain s where s: "channel_selection1_new (ci_channel_map q) (ci_hop_increment q) = Inr s"
    using assms(2) by (auto simp: active_connection_new_def active_connection_new_for_def split: sum.splits)
  have f: "ac_selector c = s" "ac_request c = q" "ac_next_anchor c = t + (unat (ci_window_offset q) + 1) * 1250"
    "ac_pending_connection_update c = None" "ac_pending_channel_map c = None" "ac_procedures c = manager_new"
    "ac_pending c = None" "ac_queued_acl c = replicate ACL_QUEUE_CAPACITY None"
    using assms(2) by (auto simp: active_connection_new_def active_connection_new_for_def s Let_def)
  have "conn_ok c" using selector_ok_new [OF v(1) s] v(2) by (simp add: conn_ok_def f manager_ok_def manager_new_def)
  moreover have "acl_ok c" by (simp add: acl_ok_def f ACL_QUEUE_CAPACITY_def list_all_iff)
  ultimately show ?thesis using new_connection_fields(4) [OF assms(2)] f(3) by (simp add: turn_inv_def link_inv_def)
qed

section \<open>Properties\<close>

text \<open>
  C2. The life of a link: a connection made from any accepted CONNECT\_IND survives every sequence of turns of
  \<open>run_connection\<close>, whatever the peer sends, the radio returns, the Host asks and the clock reads: no panic, no
  unreachable arm and no failed subtraction of instants; while it lives the invariant holds, and when it ends
  the runner is disconnected and back on the advertising access address and CRC.
\<close>

theorem connection_lifetime_safe:
  assumes "parse_connect_ind_detailed p a = Inr q" "active_connection_new now q t = Inr c"
    and "list_all input_wf is" "fills fill"
  shows "\<exists>r' left. run_connection fill is r c = Some (r', left)
     \<and> (case left of Some c' \<Rightarrow> link_inv c' \<and> receive_open c' \<noteq> None
        | None \<Rightarrow> \<not> rn_connected r' \<and> rn_access_address r' = ADV_ACCESS_ADDRESS \<and> rn_crc_init r' = ADV_CRC_INIT)"
proof -
  obtain r' left where r: "run_connection fill is r c = Some (r', left)"
      "case left of Some c' \<Rightarrow> turn_inv c'
        | None \<Rightarrow> \<not> rn_connected r' \<and> rn_access_address r' = ADV_ACCESS_ADDRESS \<and> rn_crc_init r' = ADV_CRC_INIT"
    using run_connection_ok [OF turn_inv_new [OF assms(1,2)] assms(3,4)] by blast
  then show ?thesis using receive_open_ok by (cases left) (auto simp: turn_inv_def)
qed

definition example_turn :: turn_input where
  "example_turn = \<lparr>ti_now = 1200, ti_later = 1700, ti_clock = (\<lambda>k. 1700 + k), ti_drained = [], ti_wake = None,
     ti_exchange = (\<lambda>ch deadline timeout frame. Some example_data)\<rparr>"

theorem connection_lifetime_safe_witness:
  "\<exists>r' left. run_connection zero_fill [example_turn, example_turn] (runner_new ()) example_connection = Some (r', left)
     \<and> (case left of Some c' \<Rightarrow> link_inv c' | None \<Rightarrow> \<not> rn_connected r')"
proof -
  have "list_all input_wf [example_turn, example_turn]" "fills zero_fill"
    by (simp_all add: input_wf_def example_turn_def fills_def zero_fill_def)
  note r = connection_lifetime_safe [OF example_connect_parse example_connection_fields(1) this, of "runner_new ()"]
  then obtain r' left where "run_connection zero_fill [example_turn, example_turn] (runner_new ()) example_connection = Some (r', left)"
    "case left of Some c' \<Rightarrow> link_inv c' \<and> receive_open c' \<noteq> None
        | None \<Rightarrow> \<not> rn_connected r' \<and> rn_access_address r' = ADV_ACCESS_ADDRESS \<and> rn_crc_init r' = ADV_CRC_INIT" by blast
  then show ?thesis by (cases left) auto
qed

text \<open>
  C29. A channel map update that crosses a local parameter request ends the link: when the request's
  LL\_CONNECTION\_PARAM\_REQ is the control PDU in flight, an LL\_CHANNEL\_MAP\_IND fails its procedure but leaves
  the PDU, so that building the frame fails, and so does the peer's acknowledgement: the next valid packet
  that acknowledges the PDU ends the connection with reason 0x1f.
\<close>

theorem collision_drops_link:
  assumes "channel_map_parse p (ac_event_counter c) = Inr update" "ac_pending_channel_map c = None"
    and "ac_local_connection_param_request c \<noteq> None" "pm_local (ac_procedures c) = Some ctx"
    and "ac_pending_control c = Some pd" "pt_owner_token (pc_token ctx) = pd_owner_token pd" "ac_transmitted c = TP_Control"
    and "handle_channel_map_ind c h p = (e, c', h')" "drop_bit 2 header AND 1 \<noteq> ac_transmit_sn c'"
  shows "build_transmit_frame c' = None
    \<and> (\<exists>c'' h''. after_packet clock c' h' True sent_terminate rx header pl = Some (Some 0x1f, c'', h''))"
proof -
  let ?er = "procedure_collision_error IP_ConnectionParametersRequest IP_ChannelMapUpdate"
  define c1 where "c1 = fst (abandon_local_request c h ?er)"
  have c1: "pm_local (ac_procedures c1) = Some (fail_context ?er ctx)" "ac_pending_control c1 = Some pd"
      "ac_transmitted c1 = TP_Control"
    using assms(4,5,7) by (simp_all add: c1_def abandon_local_request_def fail_local_def Let_def fail_def with_context_def)
  obtain e2 c2 where s: "start_remote_instant_procedure c1 ChannelMapUpdate 0x01 (cm_instant update) = (e2, c2)"
    by (cases "start_remote_instant_procedure c1 ChannelMapUpdate 0x01 (cm_instant update)")
  have c2: "pm_local (ac_procedures c2) = Some (fail_context ?er ctx)" "ac_pending_control c2 = Some pd" "ac_transmitted c2 = TP_Control"
    using s c1 by (auto simp: start_remote_instant_procedure_def allocate_control_token_def start_remote_def Let_def
        split: sum.splits procedure_error.splits option.splits if_split_asm prod.splits)
  have c': "pm_local (ac_procedures c') = Some (fail_context ?er ctx)" "ac_pending_control c' = Some pd" "ac_transmitted c' = TP_Control"
    using assms(8) c2 s assms(2,3) unfolding handle_channel_map_ind_def assms(1) sum.case c1_def
    by (auto split: prod.splits option.splits)
  have none: "with_pending_procedure x (\<lambda>m who t. nesn_ack m who t n) = None" "with_pending_procedure x tx_planned = None"
    if "pm_local (ac_procedures x) = Some (fail_context ?er ctx)" "ac_pending_control x = Some pd" for x n
    using that assms(6) by (simp_all add: with_pending_procedure_def procedure_for_control_owner_def nesn_ack_def tx_planned_def
        with_context_def nesn_ack_context_def fail_context_def)
  have "ack_step n x h = None"
    if "pm_local (ac_procedures x) = Some (fail_context ?er ctx)" "ac_pending_control x = Some pd" "ac_transmitted x = TP_Control" for n x h
    using that none by (simp add: ack_step_def acknowledge_pending_control_def)
  then show ?thesis
    using c' none assms(9)
    by (simp add: build_transmit_frame_def plan_pending_control_procedure_def after_packet_def Let_def acknowledges_transmit_owner_def)
qed

text \<open>The example connection after its Host asked for new parameters and the request was staged.\<close>

definition requesting_connection :: active_connection where
  "requesting_connection =
     (snd (queue_local_procedure_request example_connection ConnectionParameters [0x0f, 0, 0] 0))
       \<lparr>ac_transmitted := TP_Control, ac_local_connection_param_request :=
          Some \<lparr>lr_interval_min = 24, lr_interval_max = 40, lr_latency = 0, lr_supervision_timeout = 400\<rparr>\<rparr>"

theorem collision_drops_link_witness:
  "\<exists>e c' h' c'' h''. handle_channel_map_ind requesting_connection host_link_init [0x01, 0xff, 0xff, 0xff, 0xff, 0x1f, 7, 0] = (e, c', h')
     \<and> after_packet (\<lambda>k. k) c' h' True False (ex_received example_data) 0x05 [] = Some (Some 0x1f, c'', h'')"
proof -
  let ?p = "[0x01, 0xff, 0xff, 0xff, 0xff, 0x1f, 7, 0] :: bytes"
  let ?pd = "\<lparr>pd_bytes = splice (replicate MAX_DATA_PDU_PAYLOAD 0) 0 [0x0f, 0, 0], pd_len = 3, pd_llid = LLID_CONTROL, pd_owner_token = 0x80000001\<rparr>"
  let ?ctx = "context_new ConnectionParameters Local \<lparr>pt_owner_token = 0x80000001, pt_generation = ucast (0x80000001 :: u32)\<rparr> 0x0f
    (Some 0) None (Some PROCEDURE_RESPONSE_TIMEOUT_US)"
  have i: "pc_initiator (context_new k who t op ex i to) = who" for k who t op ex i to by (simp add: context_new_def)
  have f: "pm_local (ac_procedures requesting_connection) = Some ?ctx" "ac_pending_control requesting_connection = Some ?pd"
    "ac_event_counter requesting_connection = 0" "ac_pending_channel_map requesting_connection = None"
    "ac_transmit_sn requesting_connection = 0"
    by (simp_all add: requesting_connection_def queue_local_procedure_request_def queue_local_procedure_def
        allocate_control_token_def queue_control_with_token_def Let_def example_connection_fields example_tx_fields start_local_def i
        manager_new_def MAX_DATA_PDU_PAYLOAD_def ACL_PAYLOAD_LEN_def)
  obtain u where u: "channel_map_parse ?p 0 = Inr u"
    by (simp add: channel_map_parse_def data_channel_map_is_valid_def count_ones_def upt_rec classify_instant_def u16_from_le_def
        Let_def slice_of_def)
  obtain e c' h' where r: "handle_channel_map_ind requesting_connection host_link_init ?p = (e, c', h')"
    by (metis prod_cases3)
  have "ac_transmit_sn c' = 0" using ctrl_ok_map_ind [OF r] f(5) by (simp add: ctrl_ok_def same_data_def)
  then have n: "drop_bit 2 (0x05 :: u8) AND 1 \<noteq> ac_transmit_sn c'" by simp
  have "build_transmit_frame c' = None \<and> (\<exists>c'' h''. after_packet (\<lambda>k. k) c' h' True False (ex_received example_data) 0x05 [] = Some (Some 0x1f, c'', h''))"
    by (rule collision_drops_link [where update = u and ctx = ?ctx and pd = ?pd, OF _ f(4) _ f(1,2) _ _ r n])
       (use u f(3) in \<open>simp_all add: requesting_connection_def context_new_def\<close>)
  with r show ?thesis by blast
qed

end
