(* ===== verification/Mmio.thy ===== *)
theory Mmio
  imports Prelude
begin

text \<open>
  Memory-mapped registers. The hardware behind them is a parameter: a device is any function from the
  history of volatile accesses and a register to the value read there, so every theorem holds
  for whatever the hardware, an interrupt handler or a DMA engine does between two accesses. An
  operation of a driver maps the history before it to its result and the history after it.
\<close>

datatype ('r, 'v) bus_event = Rd 'r 'v | Wr 'r 'v

type_synonym ('r, 'v) bus = "('r, 'v) bus_event list"
type_synonym ('r, 'v) bus_device = "('r, 'v) bus \<Rightarrow> 'r \<Rightarrow> 'v"

definition read_volatile :: "('r, 'v) bus_device \<Rightarrow> 'r \<Rightarrow> ('r, 'v) bus \<Rightarrow> 'v \<times> ('r, 'v) bus" where
  "read_volatile dev a h = (dev h a, h @ [Rd a (dev h a)])"

definition write_volatile :: "'r \<Rightarrow> 'v \<Rightarrow> ('r, 'v) bus \<Rightarrow> ('r, 'v) bus" where
  "write_volatile a v h = h @ [Wr a v]"

definition modify_register :: "('r, 'v) bus_device \<Rightarrow> 'r \<Rightarrow> ('v \<Rightarrow> 'v) \<Rightarrow> ('r, 'v) bus \<Rightarrow> ('r, 'v) bus" where
  "modify_register dev a f h = (let (v, h1) = read_volatile dev a h in write_volatile a (f v) h1)"

primrec register_of :: "('r, 'v) bus_event \<Rightarrow> 'r" where
  "register_of (Rd a v) = a"
| "register_of (Wr a v) = a"

text \<open>The values written to, and read from, one register.\<close>

fun written :: "'r \<Rightarrow> ('r, 'v) bus \<Rightarrow> 'v list" where
  "written a [] = []"
| "written a (Wr b v # t) = (if b = a then v # written a t else written a t)"
| "written a (Rd b v # t) = written a t"

fun values_read :: "'r \<Rightarrow> ('r, 'v) bus \<Rightarrow> 'v list" where
  "values_read a [] = []"
| "values_read a (Rd b v # t) = (if b = a then v # values_read a t else values_read a t)"
| "values_read a (Wr b v # t) = values_read a t"

lemma written_append [simp]: "written a (s @ t) = written a s @ written a t"
  by (induction a s rule: written.induct) auto

lemma values_read_append [simp]: "values_read a (s @ t) = values_read a s @ values_read a t"
  by (induction a s rule: values_read.induct) auto

end
