(* ===== verification/Data_Flash.thy ===== *)
theory Data_Flash
  imports Mmio
begin

text \<open>
  The register-level DataFlash driver of \<^verbatim>\<open>src/dataflash.rs\<close>. The flash controller is an arbitrary
  device in the sense of \<^verbatim>\<open>Mmio\<close>; the critical section makes the histories sequential.
\<close>

section \<open>The bus\<close>

type_synonym address = u32
type_synonym history = "(address, u8) bus"
type_synonym device = "(address, u8) bus_device"

definition SAFE_ACCESS :: address where "SAFE_ACCESS = 0x40001040"
definition GLOBAL_CONFIG :: address where "GLOBAL_CONFIG = 0x40001044"
definition FLASH_DATA :: address where "FLASH_DATA = 0x40001804"
definition FLASH_CTRL :: address where "FLASH_CTRL = 0x40001806"
definition MAX_STATUS_POLLS :: nat where "MAX_STATUS_POLLS = 0x80000"
definition CMD_WRITE_ENABLE :: u8 where "CMD_WRITE_ENABLE = 0x06"
definition CMD_READ_STATUS :: u8 where "CMD_READ_STATUS = 0x05"
definition CMD_DATA_READ :: u8 where "CMD_DATA_READ = 0x0b"
definition CMD_PAGE_PROGRAM :: u8 where "CMD_PAGE_PROGRAM = 0x02"
definition CMD_ERASE_256 :: u8 where "CMD_ERASE_256 = 0x81"
definition CMD_CONTROLLER_RESET :: u8 where "CMD_CONTROLLER_RESET = 0xff"

datatype flash_error = OutOfBounds | NotAligned | Timeout | Program

section \<open>Transactions\<close>

primrec wait_polls :: "device \<Rightarrow> nat \<Rightarrow> history \<Rightarrow> bool \<times> history" where
  "wait_polls dev 0 h = (False, h)"
| "wait_polls dev (Suc n) h =
     (let (v, h1) = read_volatile dev FLASH_CTRL h in if v AND 0x80 = 0 then (True, h1) else wait_polls dev n h1)"

definition ram_wait_interface :: "device \<Rightarrow> history \<Rightarrow> bool \<times> history" where
  "ram_wait_interface dev h = wait_polls dev MAX_STATUS_POLLS h"

definition ram_begin :: "u8 \<Rightarrow> history \<Rightarrow> history" where
  "ram_begin command h = write_volatile FLASH_DATA command (write_volatile FLASH_CTRL 5 (write_volatile FLASH_CTRL 0 h))"

definition ram_output :: "device \<Rightarrow> u8 \<Rightarrow> history \<Rightarrow> bool \<times> history" where
  "ram_output dev byte h =
     (let (ok, h1) = ram_wait_interface dev h in if \<not> ok then (False, h1) else (True, write_volatile FLASH_DATA byte h1))"

text \<open>The short-circuit conjunction of two fallible operations.\<close>

definition and_then :: "(history \<Rightarrow> bool \<times> history) \<Rightarrow> (history \<Rightarrow> bool \<times> history) \<Rightarrow> history \<Rightarrow> bool \<times> history" where
  "and_then f g h = (let (ok, h1) = f h in if ok then g h1 else (False, h1))"

definition ram_address :: "device \<Rightarrow> u8 \<Rightarrow> u32 \<Rightarrow> bool \<Rightarrow> history \<Rightarrow> bool \<times> history" where
  "ram_address dev command address read_dummy h =
     and_then (ram_output dev (ucast (drop_bit 16 address)))
       (and_then (ram_output dev (ucast (drop_bit 8 address)))
         (and_then (ram_output dev (ucast address))
           (if read_dummy then and_then (ram_output dev 0) (ram_output dev 0) else Pair True)))
       (ram_begin command h)"

definition ram_end :: "device \<Rightarrow> history \<Rightarrow> bool \<times> history" where
  "ram_end dev h = (let (ready, h1) = ram_wait_interface dev h in (ready, write_volatile FLASH_CTRL 0 h1))"

definition ram_abort :: "history \<Rightarrow> flash_error \<times> history" where
  "ram_abort h = (Timeout, write_volatile FLASH_CTRL 0 h)"

definition ram_configure :: "device \<Rightarrow> bool \<Rightarrow> history \<Rightarrow> u8 \<times> history" where
  "ram_configure dev wr h =
     (let (original, h1) = read_volatile dev GLOBAL_CONFIG h;
          h2 = write_volatile SAFE_ACCESS 0xa8 (write_volatile SAFE_ACCESS 0x57 h1);
          h3 = write_volatile GLOBAL_CONFIG (original OR (if wr then 0xe0 else 0x20)) h2
      in (original, write_volatile SAFE_ACCESS 0 h3))"

definition ram_restore :: "u8 \<Rightarrow> history \<Rightarrow> history" where
  "ram_restore original h =
     (let h2 = write_volatile SAFE_ACCESS 0xa8 (write_volatile SAFE_ACCESS 0x57 h)
      in write_volatile SAFE_ACCESS 0 (write_volatile GLOBAL_CONFIG original h2))"

definition ram_fail :: "u8 \<Rightarrow> history \<Rightarrow> flash_error \<times> history" where
  "ram_fail original h = (let (error, h1) = ram_abort h in (error, ram_restore original h1))"

definition ram_prepare :: "device \<Rightarrow> history \<Rightarrow> bool \<times> history" where
  "ram_prepare dev h = ram_end dev (ram_begin CMD_CONTROLLER_RESET (write_volatile FLASH_CTRL 4 h))"

definition status_ready :: "u8 \<Rightarrow> u8 \<Rightarrow> bool" where
  "status_ready first second = (second AND 1 = 0)"

text \<open>The octets into \<open>output[index..]\<close>; on a timeout the earlier ones stay written.\<close>

function read_loop :: "device \<Rightarrow> nat \<Rightarrow> nat \<Rightarrow> bytes \<Rightarrow> history \<Rightarrow> bool \<times> bytes \<times> history" where
  "read_loop dev index len out h =
     (if index < len then
        (let (ok, h1) = ram_wait_interface dev h in
         if \<not> ok then (False, out, h1)
         else (let (v, h2) = read_volatile dev FLASH_DATA h1 in read_loop dev (index + 1) len (out[index := v]) h2))
      else (True, out, h))"
  by pat_completeness auto
termination
  by (relation "measure (\<lambda>(dev, index, len, out, h). len - index)") auto

declare read_loop.simps [simp del]

definition ram_read_bytes :: "device \<Rightarrow> u32 \<Rightarrow> bytes \<Rightarrow> history \<Rightarrow> (flash_error + unit) \<times> bytes \<times> history" where
  "ram_read_bytes dev address out h =
     (let (original, h0) = ram_configure dev False h;
          failed = (\<lambda>out h. let (e, h') = ram_fail original h in (Inl e, out, h'));
          (prepared, h1) = ram_prepare dev h0
      in if \<not> prepared then (Inl Timeout, out, ram_restore original h1)
         else (let (ok, h2) = ram_address dev CMD_DATA_READ address True h1 in
               if \<not> ok then failed out h2
               else (let (ok, out', h3) = read_loop dev 0 (length out) out h2 in
                     if \<not> ok then failed out' h3
                     else (let (ok, h4) = ram_end dev h3
                           in (if ok then Inr () else Inl Timeout, out', ram_restore original h4)))))"

primrec ready_polls :: "device \<Rightarrow> nat \<Rightarrow> history \<Rightarrow> bool \<times> history" where
  "ready_polls dev 0 h = (False, h)"
| "ready_polls dev (Suc n) h =
     (let (ok1, h1) = ram_wait_interface dev (ram_begin CMD_READ_STATUS h) in
      if \<not> ok1 then (False, h1)
      else (let (first, h2) = read_volatile dev FLASH_DATA h1;
                (ok2, h3) = ram_wait_interface dev h2
            in if \<not> ok2 then (False, h3)
               else (let (second, h4) = read_volatile dev FLASH_DATA h3;
                         (ok3, h5) = ram_end dev h4
                     in if \<not> ok3 then (False, h5)
                        else if status_ready first second then (True, h5)
                        else ready_polls dev n h5)))"

definition ram_wait_ready_active :: "device \<Rightarrow> history \<Rightarrow> bool \<times> history" where
  "ram_wait_ready_active dev h = ready_polls dev MAX_STATUS_POLLS h"

text \<open>The common frame of the two modifying transactions: \<open>body\<close> is what follows write enable.\<close>

definition modify :: "device \<Rightarrow> (history \<Rightarrow> bool \<times> history) \<Rightarrow> history \<Rightarrow> (flash_error + unit) \<times> history" where
  "modify dev body h =
     (let (original, h0) = ram_configure dev True h;
          (prepared, h1) = ram_prepare dev h0
      in if \<not> prepared then (Inl Timeout, ram_restore original h1)
         else (let (ok, h2) = and_then (ram_end dev) (and_then body (ram_wait_ready_active dev)) (ram_begin CMD_WRITE_ENABLE h1)
               in if ok then (Inr (), ram_restore original h2)
                  else (let (e, h3) = ram_fail original h2 in (Inl e, h3))))"

definition ram_erase :: "device \<Rightarrow> u32 \<Rightarrow> history \<Rightarrow> (flash_error + unit) \<times> history" where
  "ram_erase dev address = modify dev (and_then (ram_address dev CMD_ERASE_256 address False) (ram_end dev))"

primrec output_loop :: "device \<Rightarrow> bytes \<Rightarrow> history \<Rightarrow> bool \<times> history" where
  "output_loop dev [] h = (True, h)"
| "output_loop dev (b # bs) h = and_then (ram_output dev b) (output_loop dev bs) h"

definition ram_page_program :: "device \<Rightarrow> u32 \<Rightarrow> bytes \<Rightarrow> history \<Rightarrow> (flash_error + unit) \<times> history" where
  "ram_page_program dev address data = modify dev
     (and_then (ram_address dev CMD_PAGE_PROGRAM address False) (and_then (output_loop dev data) (ram_end dev)))"

section \<open>The storage interface\<close>










section \<open>Lemmas: what a transaction does on the bus\<close>

definition flash_only :: "history \<Rightarrow> bool" where
  "flash_only t \<longleftrightarrow> list_all (\<lambda>e. register_of e = FLASH_DATA \<or> register_of e = FLASH_CTRL) t"

text \<open>The octets written to and read from the data register.\<close>

abbreviation data_out :: "history \<Rightarrow> bytes" where
  "data_out \<equiv> written FLASH_DATA"

abbreviation data_in :: "history \<Rightarrow> bytes" where
  "data_in \<equiv> values_read FLASH_DATA"

lemma flash_only_simps [simp]:
  "flash_only []" "flash_only (s @ t) \<longleftrightarrow> flash_only s \<and> flash_only t"
  "flash_only (Rd FLASH_DATA v # t) \<longleftrightarrow> flash_only t" "flash_only (Rd FLASH_CTRL v # t) \<longleftrightarrow> flash_only t"
  "flash_only (Wr FLASH_DATA v # t) \<longleftrightarrow> flash_only t" "flash_only (Wr FLASH_CTRL v # t) \<longleftrightarrow> flash_only t"
  by (auto simp: flash_only_def)

lemma registers_distinct [simp]:
  "FLASH_CTRL \<noteq> FLASH_DATA" "FLASH_DATA \<noteq> FLASH_CTRL" "GLOBAL_CONFIG \<noteq> FLASH_DATA" "SAFE_ACCESS \<noteq> FLASH_DATA"
  by (simp_all add: FLASH_CTRL_def FLASH_DATA_def GLOBAL_CONFIG_def SAFE_ACCESS_def)

text \<open>
  An operation that touches only the flash registers and, when it succeeds, sends the given octets;
  when it times out it has sent a prefix of them.
\<close>

definition outputs :: "(history \<Rightarrow> bool \<times> history) \<Rightarrow> bytes \<Rightarrow> bool" where
  "outputs f bs \<longleftrightarrow> (\<forall>h. \<exists>t rest. snd (f h) = h @ t \<and> flash_only t \<and> data_in t = [] \<and> bs = data_out t @ rest \<and> (fst (f h) \<longrightarrow> rest = []))"

lemma outputsE:
  assumes "outputs f bs" "f h = (ok, h')"
  obtains t rest where "h' = h @ t" "flash_only t" "data_in t = []" "bs = data_out t @ rest" "ok \<Longrightarrow> rest = []"
  using assms unfolding outputs_def by (metis fst_conv snd_conv)

lemma outputs_pure: "outputs (Pair True) []"
  by (simp add: outputs_def)

lemma outputs_wait: "outputs (wait_polls dev n) []"
proof (induction n)
  case (Suc n)
  show ?case
    unfolding outputs_def
  proof
    fix h
    let ?h1 = "h @ [Rd FLASH_CTRL (dev h FLASH_CTRL)]"
    obtain t where "snd (wait_polls dev n ?h1) = ?h1 @ t" "flash_only t" "data_in t = []" "data_out t = []"
      using Suc [unfolded outputs_def, rule_format, of ?h1] by auto
    then show "\<exists>t rest. snd (wait_polls dev (Suc n) h) = h @ t \<and> flash_only t \<and> data_in t = [] \<and> [] = data_out t @ rest
        \<and> (fst (wait_polls dev (Suc n) h) \<longrightarrow> rest = [])"
      by (simp add: read_volatile_def)
  qed
qed (simp add: outputs_def)

lemma outputs_interface: "outputs (ram_wait_interface dev) []"
  using outputs_wait [of dev MAX_STATUS_POLLS] by (simp add: outputs_def ram_wait_interface_def)

lemma interface_quiet:
  "\<exists>t. snd (ram_wait_interface dev h) = h @ t \<and> flash_only t \<and> data_out t = [] \<and> data_in t = []"
  using outputs_interface [of dev, unfolded outputs_def, rule_format, of h] by auto

lemma outputs_and_then:
  assumes "outputs f a" "outputs g b"
  shows "outputs (and_then f g) (a @ b)"
  unfolding outputs_def
proof
  fix h
  obtain ok h1 where f: "f h = (ok, h1)" by (cases "f h")
  obtain t rest where t: "h1 = h @ t" "flash_only t" "data_in t = []" "a = data_out t @ rest" "ok \<Longrightarrow> rest = []" using outputsE [OF assms(1) f] by metis
  obtain ok2 h2 where g: "g h1 = (ok2, h2)" by (cases "g h1")
  obtain u rest2 where u: "h2 = h1 @ u" "flash_only u" "data_in u = []" "b = data_out u @ rest2" "ok2 \<Longrightarrow> rest2 = []" using outputsE [OF assms(2) g] by metis
  show "\<exists>t rest. snd (and_then f g h) = h @ t \<and> flash_only t \<and> data_in t = [] \<and> a @ b = data_out t @ rest \<and> (fst (and_then f g h) \<longrightarrow> rest = [])"
    using t u f g by (cases ok) (auto simp: and_then_def intro: exI [of _ "t @ u"])
qed

lemma outputs_output: "outputs (ram_output dev b) [b]"
  unfolding outputs_def
proof
  fix h
  obtain ok h1 where w: "ram_wait_interface dev h = (ok, h1)" by (cases "ram_wait_interface dev h")
  obtain t rest where "h1 = h @ t" "flash_only t" "data_in t = []" "[] = data_out t @ rest" using outputsE [OF outputs_interface w] by metis
  then show "\<exists>t rest. snd (ram_output dev b h) = h @ t \<and> flash_only t \<and> data_in t = [] \<and> [b] = data_out t @ rest \<and> (fst (ram_output dev b h) \<longrightarrow> rest = [])"
    using w by (cases ok) (auto simp: ram_output_def write_volatile_def intro: exI [of _ "t @ [Wr FLASH_DATA b]"])
qed

lemma outputs_end: "outputs (ram_end dev) []"
  unfolding outputs_def
proof
  fix h
  obtain ok h1 where w: "ram_wait_interface dev h = (ok, h1)" by (cases "ram_wait_interface dev h")
  obtain t rest where "h1 = h @ t" "flash_only t" "data_in t = []" "[] = data_out t @ rest" using outputsE [OF outputs_interface w] by metis
  then show "\<exists>t rest. snd (ram_end dev h) = h @ t \<and> flash_only t \<and> data_in t = [] \<and> [] = data_out t @ rest \<and> (fst (ram_end dev h) \<longrightarrow> rest = [])"
    using w by (auto simp: ram_end_def write_volatile_def)
qed

lemma outputs_begin: "outputs f bs \<Longrightarrow> outputs (\<lambda>h. f (ram_begin c h)) (c # bs)"
  unfolding outputs_def
proof
  fix h
  assume "\<forall>h. \<exists>t rest. snd (f h) = h @ t \<and> flash_only t \<and> data_in t = [] \<and> bs = data_out t @ rest \<and> (fst (f h) \<longrightarrow> rest = [])"
  from this [rule_format, of "ram_begin c h"] show "\<exists>t rest. snd (f (ram_begin c h)) = h @ t \<and> flash_only t \<and> data_in t = [] \<and> c # bs = data_out t @ rest
      \<and> (fst (f (ram_begin c h)) \<longrightarrow> rest = [])"
    by (auto simp: ram_begin_def write_volatile_def)
qed

definition address_octets :: "u32 \<Rightarrow> bytes" where
  "address_octets a = [ucast (drop_bit 16 a), ucast (drop_bit 8 a), ucast a]"

lemma outputs_address: "outputs (ram_address dev c a False) (c # address_octets a)"
proof -
  have "outputs (and_then (ram_output dev (ucast (drop_bit 16 a))) (and_then (ram_output dev (ucast (drop_bit 8 a)))
      (and_then (ram_output dev (ucast a)) (Pair True)))) ([ucast (drop_bit 16 a)] @ [ucast (drop_bit 8 a)] @ [ucast a] @ [])"
    by (intro outputs_and_then outputs_output outputs_pure)
  from outputs_begin [OF this, of c] show ?thesis by (simp add: ram_address_def [abs_def] address_octets_def)
qed

lemma outputs_loop: "outputs (output_loop dev bs) bs"
proof (induction bs)
  case Nil
  then show ?case by (simp add: outputs_def)
next
  case (Cons b bs)
  from outputs_and_then [OF outputs_output Cons, of dev b] show ?case by (simp add: outputs_def)
qed

lemma ends_idle: "\<exists>t. snd (ram_end dev h) = h @ t @ [Wr FLASH_CTRL 0] \<and> flash_only t \<and> data_out t = [] \<and> data_in t = []"
proof -
  obtain ok h1 where w: "ram_wait_interface dev h = (ok, h1)" by (cases "ram_wait_interface dev h")
  obtain t rest where "h1 = h @ t" "flash_only t" "data_in t = []" "[] = data_out t @ rest" using outputsE [OF outputs_interface w] by metis
  then show ?thesis using w by (simp add: ram_end_def write_volatile_def)
qed

lemma ready_polls_ok:
  "\<exists>t k. snd (ready_polls dev n h) = h @ t \<and> flash_only t \<and> data_out t = replicate k CMD_READ_STATUS
     \<and> (fst (ready_polls dev n h) \<longrightarrow> 0 < k \<and> (\<exists>t'. t = t' @ [Wr FLASH_CTRL 0]))"
proof (induction n arbitrary: h)
  case 0
  show ?case by simp
next
  case (Suc n)
  let ?b = "[Wr FLASH_CTRL 0, Wr FLASH_CTRL 5, Wr FLASH_DATA CMD_READ_STATUS]"
  obtain ok1 h1 where w1: "ram_wait_interface dev (ram_begin CMD_READ_STATUS h) = (ok1, h1)"
    by (cases "ram_wait_interface dev (ram_begin CMD_READ_STATUS h)")
  obtain t1 where t1: "h1 = h @ ?b @ t1" "flash_only t1" "data_out t1 = []"
    using interface_quiet [of dev "ram_begin CMD_READ_STATUS h"] w1 by (auto simp: ram_begin_def write_volatile_def)
  let ?h2 = "h1 @ [Rd FLASH_DATA (dev h1 FLASH_DATA)]"
  obtain ok2 h3 where w2: "ram_wait_interface dev ?h2 = (ok2, h3)" by (cases "ram_wait_interface dev ?h2")
  obtain t2 where t2: "h3 = ?h2 @ t2" "flash_only t2" "data_out t2 = []"
    using interface_quiet [of dev ?h2] w2 by auto
  let ?h4 = "h3 @ [Rd FLASH_DATA (dev h3 FLASH_DATA)]"
  obtain ok3 h5 where w3: "ram_end dev ?h4 = (ok3, h5)" by (cases "ram_end dev ?h4")
  obtain t3 where t3: "h5 = ?h4 @ t3 @ [Wr FLASH_CTRL 0]" "flash_only t3" "data_out t3 = []"
    using ends_idle [of dev ?h4] w3 by auto
  define t where "t = ?b @ t1 @ [Rd FLASH_DATA (dev h1 FLASH_DATA)] @ t2 @ [Rd FLASH_DATA (dev h3 FLASH_DATA)] @ t3 @ [Wr FLASH_CTRL 0]"
  have h5: "h5 = h @ t" "flash_only t" "data_out t = replicate 1 CMD_READ_STATUS" using t1 t2 t3 by (simp_all add: t_def)
  show ?case
  proof (cases "ok1 \<and> ok2 \<and> ok3")
    case False
    then consider "\<not> ok1" | "ok1" "\<not> ok2" | "ok1" "ok2" "\<not> ok3" by blast
    then show ?thesis
    proof cases
      case 1
      then show ?thesis using w1 t1 by (auto intro!: exI [of _ "?b @ t1"] exI [of _ "1::nat"])
    next
      case 2
      then show ?thesis using w1 w2 t1 t2
        by (auto simp: read_volatile_def intro!: exI [of _ "?b @ t1 @ [Rd FLASH_DATA (dev h1 FLASH_DATA)] @ t2"] exI [of _ "1::nat"])
    next
      case 3
      then show ?thesis using w1 w2 w3 h5 by (auto simp: read_volatile_def intro!: exI [of _ t] exI [of _ "1::nat"])
    qed
  next
    case True
    have e: "ready_polls dev (Suc n) h = (if status_ready (dev h1 FLASH_DATA) (dev h3 FLASH_DATA) then (True, h5) else ready_polls dev n h5)"
      using True w1 w2 w3 by (simp add: read_volatile_def)
    show ?thesis
    proof (cases "status_ready (dev h1 FLASH_DATA) (dev h3 FLASH_DATA)")
      case True
      then show ?thesis unfolding e using h5 by (auto simp: t_def intro!: exI [of _ t] exI [of _ "1::nat"])
    next
      case False
      obtain u k where "snd (ready_polls dev n h5) = h5 @ u" "flash_only u" "data_out u = replicate k CMD_READ_STATUS"
        "fst (ready_polls dev n h5) \<longrightarrow> 0 < k \<and> (\<exists>t'. u = t' @ [Wr FLASH_CTRL 0])" using Suc [of h5] by blast
      then show ?thesis unfolding e using False h5 by (intro exI [of _ "t @ u"] exI [of _ "Suc k"]) auto
    qed
  qed
qed

text \<open>The unlock sequence around a write of the global configuration.\<close>

definition unlocked :: "u8 \<Rightarrow> history" where
  "unlocked v = [Wr SAFE_ACCESS 0x57, Wr SAFE_ACCESS 0xa8, Wr GLOBAL_CONFIG v, Wr SAFE_ACCESS 0]"

definition enclosed :: "device \<Rightarrow> u8 \<Rightarrow> history \<Rightarrow> history \<Rightarrow> history \<Rightarrow> bool" where
  "enclosed dev mode h t h' \<longleftrightarrow>
     h' = h @ [Rd GLOBAL_CONFIG (dev h GLOBAL_CONFIG)] @ unlocked (dev h GLOBAL_CONFIG OR mode)
            @ t @ [Wr FLASH_CTRL 0] @ unlocked (dev h GLOBAL_CONFIG)
     \<and> flash_only t"

lemma modify_ok:
  assumes "outputs body bs"
  shows "\<exists>t k. enclosed dev 0xe0 h t (snd (modify dev body h))
    \<and> (fst (modify dev body h) = Inl Timeout
       \<or> fst (modify dev body h) = Inr () \<and> 0 < k
         \<and> data_out t = [CMD_CONTROLLER_RESET, CMD_WRITE_ENABLE] @ bs @ replicate k CMD_READ_STATUS)"
proof -
  let ?o = "dev h GLOBAL_CONFIG"
  let ?h0 = "h @ [Rd GLOBAL_CONFIG ?o] @ unlocked (?o OR 0xe0)"
  let ?p = "[Wr FLASH_CTRL 4, Wr FLASH_CTRL 0, Wr FLASH_CTRL 5, Wr FLASH_DATA CMD_CONTROLLER_RESET]"
  have cfg: "ram_configure dev True h = (?o, ?h0)"
    by (simp add: ram_configure_def read_volatile_def write_volatile_def unlocked_def)
  have rs: "ram_restore x y = y @ unlocked x" for x y by (simp add: ram_restore_def write_volatile_def unlocked_def)
  obtain ok1 h1 where p: "ram_prepare dev ?h0 = (ok1, h1)" by (cases "ram_prepare dev ?h0")
  obtain t1 where t1: "h1 = ?h0 @ ?p @ t1 @ [Wr FLASH_CTRL 0]" "flash_only t1" "data_out t1 = []"
    using ends_idle [of dev "?h0 @ ?p"] p by (auto simp: ram_prepare_def ram_begin_def write_volatile_def)
  show ?thesis
  proof (cases ok1)
    case False
    then show ?thesis using p cfg t1
      by (auto simp: modify_def enclosed_def rs intro!: exI [of _ "?p @ t1"])
  next
    case True
    let ?wb = "\<lambda>h. and_then (ram_end dev) body (ram_begin CMD_WRITE_ENABLE h)"
    have ob: "outputs ?wb (CMD_WRITE_ENABLE # bs)"
      using outputs_begin [OF outputs_and_then [OF outputs_end [of dev] assms], where c = CMD_WRITE_ENABLE] by simp
    obtain ok2 h2 where b: "?wb h1 = (ok2, h2)" by (cases "?wb h1")
    obtain t2 rest where t2: "h2 = h1 @ t2" "flash_only t2" "CMD_WRITE_ENABLE # bs = data_out t2 @ rest" "ok2 \<longrightarrow> rest = []"
      using outputsE [OF ob b] by metis
    have assoc: "and_then (ram_end dev) (and_then body (ram_wait_ready_active dev)) (ram_begin CMD_WRITE_ENABLE h1)
        = (if ok2 then ram_wait_ready_active dev h2 else (False, h2))"
      using b by (auto simp: and_then_def split: prod.splits if_splits)
    show ?thesis
    proof (cases ok2)
      case False
      then show ?thesis using True p cfg t1 t2 assoc
        by (auto simp: modify_def enclosed_def rs ram_fail_def ram_abort_def write_volatile_def
            intro!: exI [of _ "?p @ t1 @ [Wr FLASH_CTRL 0] @ t2"])
    next
      case ok2: True
      obtain ok3 h3 where r: "ram_wait_ready_active dev h2 = (ok3, h3)" by (cases "ram_wait_ready_active dev h2")
      obtain t3 k where t3: "h3 = h2 @ t3" "flash_only t3" "data_out t3 = replicate k CMD_READ_STATUS"
          "ok3 \<longrightarrow> 0 < k \<and> (\<exists>t'. t3 = t' @ [Wr FLASH_CTRL 0])"
        using ready_polls_ok [of dev MAX_STATUS_POLLS h2] r by (auto simp: ram_wait_ready_active_def)
      show ?thesis
      proof (cases ok3)
        case False
        then show ?thesis using True ok2 p cfg t1 t2 t3 assoc r
          by (auto simp: modify_def enclosed_def rs ram_fail_def ram_abort_def write_volatile_def
              intro!: exI [of _ "?p @ t1 @ [Wr FLASH_CTRL 0] @ t2 @ t3"])
      next
        case ok3: True
        then obtain t' where t': "t3 = t' @ [Wr FLASH_CTRL 0]" "0 < k" using t3(4) by blast
        then show ?thesis using True ok2 ok3 p cfg t1 t2 t3 assoc r
          by (auto simp: modify_def enclosed_def rs intro!: exI [of _ "?p @ t1 @ [Wr FLASH_CTRL 0] @ t2 @ t'"] exI [of _ k])
      qed
    qed
  qed
qed

lemma read_loop_ok:
  "\<exists>t. snd (snd (read_loop dev i n out h)) = h @ t \<and> flash_only t \<and> data_out t = []
     \<and> length (fst (snd (read_loop dev i n out h))) = length out
     \<and> (fst (read_loop dev i n out h) \<longrightarrow> i \<le> n \<longrightarrow> n = length out \<longrightarrow>
          fst (snd (read_loop dev i n out h)) = take i out @ data_in t)"
proof (induction dev i n out h rule: read_loop.induct)
  case (1 dev i n out h)
  show ?case
  proof (cases "i < n")
    case False
    then have "read_loop dev i n out h = (True, out, h)" by (subst read_loop.simps) simp
    then show ?thesis using False by auto
  next
    case True
    obtain ok h1 where w: "ram_wait_interface dev h = (ok, h1)" by (cases "ram_wait_interface dev h")
    obtain t where t: "h1 = h @ t" "flash_only t" "data_out t = []" "data_in t = []"
      using interface_quiet [of dev h] w by auto
    show ?thesis
    proof (cases ok)
      case False
      then show ?thesis using True w t by (simp add: read_loop.simps [of dev i n out h])
    next
      case ok: True
      let ?v = "dev h1 FLASH_DATA"
      let ?r = "read_loop dev (i + 1) n (out[i := ?v]) (h1 @ [Rd FLASH_DATA ?v])"
      have r: "read_loop dev i n out h = ?r"
        using True ok w by (subst read_loop.simps) (simp add: read_volatile_def)
      have "\<exists>u. snd (snd ?r) = (h1 @ [Rd FLASH_DATA ?v]) @ u \<and> flash_only u \<and> data_out u = []
          \<and> length (fst (snd ?r)) = length (out[i := ?v])
          \<and> (fst ?r \<longrightarrow> i + 1 \<le> n \<longrightarrow> n = length (out[i := ?v]) \<longrightarrow> fst (snd ?r) = take (i + 1) (out[i := ?v]) @ data_in u)"
        by (rule 1 [OF True w [symmetric] refl _ _ refl]) (use ok in \<open>simp_all add: read_volatile_def\<close>)
      then obtain u where u: "snd (snd ?r) = (h1 @ [Rd FLASH_DATA ?v]) @ u" "flash_only u" "data_out u = []"
        "length (fst (snd ?r)) = length out" "fst ?r \<longrightarrow> n = length out \<longrightarrow> fst (snd ?r) = take (i + 1) (out[i := ?v]) @ data_in u"
        using True by auto
      have "n = length out \<Longrightarrow> take (i + 1) (out[i := ?v]) = take i out @ [?v]" using True by (simp add: take_Suc_conv_app_nth)
      then show ?thesis unfolding r using t u True by (intro exI [of _ "t @ [Rd FLASH_DATA ?v] @ u"]) auto
    qed
  qed
qed

lemma outputs_address_dummy: "outputs (ram_address dev c a True) (c # address_octets a @ [0, 0])"
proof -
  have "outputs (and_then (ram_output dev (ucast (drop_bit 16 a))) (and_then (ram_output dev (ucast (drop_bit 8 a)))
      (and_then (ram_output dev (ucast a)) (and_then (ram_output dev 0) (ram_output dev 0)))))
      ([ucast (drop_bit 16 a)] @ [ucast (drop_bit 8 a)] @ [ucast a] @ [0] @ [0])"
    by (intro outputs_and_then outputs_output)
  from outputs_begin [OF this, of c] show ?thesis by (simp add: ram_address_def [abs_def] address_octets_def)
qed

lemma read_bytes_ok:
  "\<exists>t. enclosed dev 0x20 h t (snd (snd (ram_read_bytes dev a out h))) \<and> length (fst (snd (ram_read_bytes dev a out h))) = length out
     \<and> (fst (ram_read_bytes dev a out h) = Inl Timeout
        \<or> fst (ram_read_bytes dev a out h) = Inr () \<and> fst (snd (ram_read_bytes dev a out h)) = data_in t
          \<and> data_out t = [CMD_CONTROLLER_RESET, CMD_DATA_READ] @ address_octets a @ [0, 0])"
proof -
  let ?o = "dev h GLOBAL_CONFIG"
  let ?h0 = "h @ [Rd GLOBAL_CONFIG ?o] @ unlocked (?o OR 0x20)"
  let ?p = "[Wr FLASH_CTRL 4, Wr FLASH_CTRL 0, Wr FLASH_CTRL 5, Wr FLASH_DATA CMD_CONTROLLER_RESET]"
  have cfg: "ram_configure dev False h = (?o, ?h0)"
    by (simp add: ram_configure_def read_volatile_def write_volatile_def unlocked_def)
  have rs: "ram_restore x y = y @ unlocked x" for x y by (simp add: ram_restore_def write_volatile_def unlocked_def)
  note fl = ram_fail_def ram_abort_def write_volatile_def
  obtain ok1 h1 where p: "ram_prepare dev ?h0 = (ok1, h1)" by (cases "ram_prepare dev ?h0")
  obtain t1 where t1: "h1 = ?h0 @ ?p @ t1 @ [Wr FLASH_CTRL 0]" "flash_only t1" "data_out t1 = []" "data_in t1 = []"
    using ends_idle [of dev "?h0 @ ?p"] p by (auto simp: ram_prepare_def ram_begin_def write_volatile_def)
  obtain ok2 h2 where b: "ram_address dev CMD_DATA_READ a True h1 = (ok2, h2)" by (cases "ram_address dev CMD_DATA_READ a True h1")
  obtain t2 rest where t2: "h2 = h1 @ t2" "flash_only t2" "data_in t2 = []"
      "CMD_DATA_READ # address_octets a @ [0, 0] = data_out t2 @ rest" "ok2 \<longrightarrow> rest = []"
    using outputsE [OF outputs_address_dummy b] by metis
  obtain ok3 out' h3 where l: "read_loop dev 0 (length out) out h2 = (ok3, out', h3)" by (cases "read_loop dev 0 (length out) out h2") auto
  obtain t3 where t3: "h3 = h2 @ t3" "flash_only t3" "data_out t3 = []" "length out' = length out" "ok3 \<longrightarrow> out' = data_in t3"
    using read_loop_ok [of dev 0 "length out" out h2] l by auto
  obtain ok4 h4 where e: "ram_end dev h3 = (ok4, h4)" by (cases "ram_end dev h3")
  obtain t4 where t4: "h4 = h3 @ t4 @ [Wr FLASH_CTRL 0]" "flash_only t4" "data_out t4 = []" "data_in t4 = []" using ends_idle [of dev h3] e by auto
  let ?q = "?p @ t1 @ [Wr FLASH_CTRL 0]"
  consider "\<not> ok1" | "ok1" "\<not> ok2" | "ok1" "ok2" "\<not> ok3" | "ok1" "ok2" "ok3" by blast
  then show ?thesis
  proof cases
    case 1
    then show ?thesis using p cfg t1 by (auto simp: ram_read_bytes_def enclosed_def rs intro!: exI [of _ "?p @ t1"])
  next
    case 2
    then show ?thesis using p cfg t1 b t2 by (auto simp: ram_read_bytes_def enclosed_def rs fl intro!: exI [of _ "?q @ t2"])
  next
    case 3
    then show ?thesis using p cfg t1 b t2 l t3 by (auto simp: ram_read_bytes_def enclosed_def rs fl intro!: exI [of _ "?q @ t2 @ t3"])
  next
    case 4
    then show ?thesis using p cfg t1 b t2 l t3 e t4
      by (auto simp: ram_read_bytes_def enclosed_def rs intro!: exI [of _ "?q @ t2 @ t3 @ t4"])
  qed
qed

section \<open>Lemmas: erase and write\<close>













section \<open>Lemmas: a responsive controller\<close>

text \<open>
  A controller may be busy for a while. \<open>interface_responds k\<close>: after \<open>k\<close> polls of the control register in a row
  the next one finds the interface free. \<open>status_responds k\<close>: after \<open>k\<close> complete status reads in a row the
  second octet of the next one reports completion. A responsive controller does both within the 0x80000 polls
  the driver grants; what it answers before is arbitrary.
\<close>

abbreviation ctrl_polls :: "bytes \<Rightarrow> history" where
  "ctrl_polls vs \<equiv> map (Rd FLASH_CTRL) vs"

definition status_begin :: history where
  "status_begin = [Wr FLASH_CTRL 0, Wr FLASH_CTRL 5, Wr FLASH_DATA CMD_READ_STATUS]"

definition status_transaction :: "history \<Rightarrow> bool" where
  "status_transaction t \<longleftrightarrow> (\<exists>p1 v1 p2 v2 p3. t = status_begin @ ctrl_polls p1 @ [Rd FLASH_DATA v1] @ ctrl_polls p2
     @ [Rd FLASH_DATA v2] @ ctrl_polls p3 @ [Wr FLASH_CTRL 0])"

definition interface_responds :: "nat \<Rightarrow> device \<Rightarrow> bool" where
  "interface_responds k dev \<longleftrightarrow> (\<forall>h vs. length vs = k \<longrightarrow> dev (h @ ctrl_polls vs) FLASH_CTRL AND 0x80 = 0)"

definition status_responds :: "nat \<Rightarrow> device \<Rightarrow> bool" where
  "status_responds k dev \<longleftrightarrow> (\<forall>h ts p1 v p2. length ts = k \<longrightarrow> list_all status_transaction ts \<longrightarrow>
     dev (h @ concat ts @ status_begin @ ctrl_polls p1 @ [Rd FLASH_DATA v] @ ctrl_polls p2) FLASH_DATA AND 1 = 0)"

definition responsive :: "device \<Rightarrow> bool" where
  "responsive dev \<longleftrightarrow> interface_responds 0x7ffff dev \<and> status_responds 0x7ffff dev"






text \<open>
  Such a controller need not answer at once: this one is busy for the first \<open>m\<close> polls in a row.
\<close>

definition slow_device :: "nat \<Rightarrow> device" where
  "slow_device m h a =
     (if a = FLASH_CTRL \<and> length (takeWhile (\<lambda>e. register_of e = FLASH_CTRL) (rev h)) < m then 0x80 else 0)"

lemma slow_responsive: "m \<le> 0x7ffff \<Longrightarrow> responsive (slow_device m)"
proof -
  assume m: "m \<le> 0x7ffff"
  have run: "length vs \<le> length (takeWhile (\<lambda>e. register_of e = FLASH_CTRL) (rev (h @ ctrl_polls vs)))" for h vs
    by (induction vs arbitrary: h rule: rev_induct) simp_all
  have free: "slow_device m (h @ ctrl_polls vs) FLASH_CTRL = 0" if "length vs = 0x7ffff" for h vs
    using m that run [of vs h] unfolding slow_device_def by simp
  have "slow_device m h FLASH_DATA = 0" for h by (simp add: slow_device_def)
  then show ?thesis using free by (simp add: responsive_def interface_responds_def status_responds_def)
qed

















section \<open>Properties\<close>

text \<open>How every transaction leaves the controller, whatever the device did and whichever path was taken.\<close>

definition restored :: "device \<Rightarrow> u8 \<Rightarrow> history \<Rightarrow> history \<Rightarrow> bool" where
  "restored dev mode h h' \<longleftrightarrow> (\<exists>t. enclosed dev mode h t h')"

text \<open>
  C24. Every DataFlash transaction on every device, successful or timed out, first reads the global
  configuration register, unlocks it, adds the access bits (0xe0 for erase and program, 0x20 for
  read) and relocks it, then touches only the two flash registers, leaves the serial interface idle
  (a final 0 in the control register), and last writes back exactly the configuration it read,
  relocking safe access; a read fills the caller's buffer without changing its length.
\<close>

theorem flash_transactions_restore:
  "restored dev 0xe0 h (snd (ram_erase dev a h))
   \<and> restored dev 0xe0 h (snd (ram_page_program dev a d h))
   \<and> restored dev 0x20 h (snd (snd (ram_read_bytes dev a out h)))
   \<and> length (fst (snd (ram_read_bytes dev a out h))) = length out"
proof (intro conjI)
  show "restored dev 0xe0 h (snd (ram_erase dev a h))"
    unfolding restored_def ram_erase_def
    using modify_ok [OF outputs_and_then [OF outputs_address outputs_end]] by blast
  show "restored dev 0xe0 h (snd (ram_page_program dev a d h))"
    unfolding restored_def ram_page_program_def
    using modify_ok [OF outputs_and_then [OF outputs_address outputs_and_then [OF outputs_loop outputs_end]]] by blast
qed (use read_bytes_ok [of dev h a out] in \<open>auto simp: restored_def\<close>)




end
