(* ===== verification/Gpio.thy ===== *)
theory Gpio
  imports Mmio
begin

text \<open>
  The GPIO driver of \<^verbatim>\<open>src/gpio.rs\<close> over an arbitrary device. \<open>None\<close> is a panic: a failed
  assertion, the unreachable arm of \<open>block\<close> or an overlong shift. The type-level pins \<open>Pin<PORT, N>\<close>
  and the erased \<open>AnyPin\<close> are the same record here.
\<close>

section \<open>Model\<close>

datatype Level = Low | High
datatype Pull = PullNone | PullUp | PullDown
datatype Drive = MilliAmps5 | MilliAmps20

record any_pin =
  pin_port :: u8
  pin_number :: u8

definition steal :: "u8 \<Rightarrow> u8 \<Rightarrow> any_pin option" where
  "steal port number =
     (if port \<le> 1 \<and> number < (if port = 0 then 16 else 24) then Some \<lparr>pin_port = port, pin_number = number\<rparr> else None)"

definition pa :: "u8 \<Rightarrow> any_pin option" where
  "pa number = (if number < 16 then Some \<lparr>pin_port = 0, pin_number = number\<rparr> else None)"

definition pb :: "u8 \<Rightarrow> any_pin option" where
  "pb number = (if number < 24 then Some \<lparr>pin_port = 1, pin_number = number\<rparr> else None)"

datatype gpio_block = GPIOA | GPIOB
datatype gpio_field = DIR | PIN | OUT | CLR | PU | PD_DRV

type_synonym gpio_register = "gpio_block \<times> gpio_field"
type_synonym gpio_bus = "(gpio_register, u32) bus"
type_synonym gpio_device = "(gpio_register, u32) bus_device"

definition block :: "any_pin \<Rightarrow> gpio_block option" where
  "block p = (if pin_port p = 0 then Some GPIOA else if pin_port p = 1 then Some GPIOB else None)"

text \<open>\<open>1u32 << number\<close>\<close>

definition pin_mask :: "any_pin \<Rightarrow> u32 option" where
  "pin_mask p = (if pin_number p < 32 then Some (push_bit (unat (pin_number p)) 1) else None)"

definition on_block :: "any_pin \<Rightarrow> (gpio_block \<Rightarrow> u32 \<Rightarrow> 'a) \<Rightarrow> 'a option" where
  "on_block p f = Option.bind (block p) (\<lambda>b. map_option (f b) (pin_mask p))"

definition set_as_input :: "gpio_device \<Rightarrow> any_pin \<Rightarrow> Pull \<Rightarrow> gpio_bus \<Rightarrow> gpio_bus option" where
  "set_as_input dev p pull h = on_block p (\<lambda>b m.
     let set = (\<lambda>r. r OR m); clear = (\<lambda>r. r AND NOT m);
         h1 = modify_register dev (b, DIR) clear h
     in case pull of
          PullNone \<Rightarrow> modify_register dev (b, PD_DRV) clear (modify_register dev (b, PU) clear h1)
        | PullUp \<Rightarrow> modify_register dev (b, PD_DRV) clear (modify_register dev (b, PU) set h1)
        | PullDown \<Rightarrow> modify_register dev (b, PD_DRV) set (modify_register dev (b, PU) clear h1))"

definition set_as_output :: "gpio_device \<Rightarrow> any_pin \<Rightarrow> Drive \<Rightarrow> gpio_bus \<Rightarrow> gpio_bus option" where
  "set_as_output dev p drive h = on_block p (\<lambda>b m.
     modify_register dev (b, DIR) (\<lambda>r. r OR m)
       (modify_register dev (b, PD_DRV) (\<lambda>r. case drive of MilliAmps5 \<Rightarrow> r AND NOT m | MilliAmps20 \<Rightarrow> r OR m) h))"

definition is_high :: "gpio_device \<Rightarrow> any_pin \<Rightarrow> gpio_bus \<Rightarrow> (bool \<times> gpio_bus) option" where
  "is_high dev p h = on_block p (\<lambda>b m. let (v, h1) = read_volatile dev (b, PIN) h in (v AND m \<noteq> 0, h1))"

definition is_set_high :: "gpio_device \<Rightarrow> any_pin \<Rightarrow> gpio_bus \<Rightarrow> (bool \<times> gpio_bus) option" where
  "is_set_high dev p h = on_block p (\<lambda>b m. let (v, h1) = read_volatile dev (b, OUT) h in (v AND m \<noteq> 0, h1))"

definition set_level :: "gpio_device \<Rightarrow> any_pin \<Rightarrow> Level \<Rightarrow> gpio_bus \<Rightarrow> gpio_bus option" where
  "set_level dev p level h = on_block p (\<lambda>b m.
     case level of Low \<Rightarrow> write_volatile (b, CLR) m h
     | High \<Rightarrow> modify_register dev (b, OUT) (\<lambda>r. r OR m) h)"

definition input_new :: "gpio_device \<Rightarrow> any_pin \<Rightarrow> Pull \<Rightarrow> gpio_bus \<Rightarrow> gpio_bus option" where
  "input_new dev p pull h = set_as_input dev p pull h"

definition output_new :: "gpio_device \<Rightarrow> any_pin \<Rightarrow> Level \<Rightarrow> Drive \<Rightarrow> gpio_bus \<Rightarrow> gpio_bus option" where
  "output_new dev p initial drive h = Option.bind (set_level dev p initial h) (set_as_output dev p drive)"

text \<open>\<open>Pin::degrade\<close>: the const parameters become the fields. \<open>Input::degrade\<close> and \<open>Output::degrade\<close> wrap it.\<close>

definition degrade :: "u8 \<Rightarrow> u8 \<Rightarrow> any_pin" where
  "degrade port number = \<lparr>pin_port = port, pin_number = number\<rparr>"

text \<open>The \<open>pins!\<close> table: the tokens handed out by \<open>Pins::new\<close>, in its order.\<close>

definition all_pins :: "any_pin list" where
  "all_pins = map (degrade 0) [0, 1, 2, 3, 4, 5, 6, 7, 8, 9, 10, 11, 12, 13, 14, 15]
     @ map (degrade 1) [0, 1, 2, 3, 4, 5, 6, 7, 8, 9, 10, 11, 12, 13, 14, 15, 16, 17, 18, 19, 20, 21, 22, 23]"

text \<open>The \<open>embedded-hal\<close> traits; their errors are \<open>Infallible\<close>.\<close>

definition input_is_high :: "gpio_device \<Rightarrow> any_pin \<Rightarrow> gpio_bus \<Rightarrow> (bool \<times> gpio_bus) option" where
  "input_is_high dev p h = is_high dev p h"

definition input_is_low :: "gpio_device \<Rightarrow> any_pin \<Rightarrow> gpio_bus \<Rightarrow> (bool \<times> gpio_bus) option" where
  "input_is_low dev p h = map_option (\<lambda>(high, h1). (\<not> high, h1)) (is_high dev p h)"

definition output_set_low :: "gpio_device \<Rightarrow> any_pin \<Rightarrow> gpio_bus \<Rightarrow> gpio_bus option" where
  "output_set_low dev p h = set_level dev p Low h"

definition output_set_high :: "gpio_device \<Rightarrow> any_pin \<Rightarrow> gpio_bus \<Rightarrow> gpio_bus option" where
  "output_set_high dev p h = set_level dev p High h"

definition output_is_set_high :: "gpio_device \<Rightarrow> any_pin \<Rightarrow> gpio_bus \<Rightarrow> (bool \<times> gpio_bus) option" where
  "output_is_set_high dev p h = is_set_high dev p h"

definition output_is_set_low :: "gpio_device \<Rightarrow> any_pin \<Rightarrow> gpio_bus \<Rightarrow> (bool \<times> gpio_bus) option" where
  "output_is_set_low dev p h = map_option (\<lambda>(high, h1). (\<not> high, h1)) (is_set_high dev p h)"

section \<open>Lemmas\<close>

definition pin_ok :: "any_pin \<Rightarrow> bool" where
  "pin_ok p \<longleftrightarrow> pin_port p \<le> 1 \<and> pin_number p < (if pin_port p = 0 then 16 else 24)"

lemma steal_ok: "steal a n = Some p \<longleftrightarrow> pin_ok p \<and> p = \<lparr>pin_port = a, pin_number = n\<rparr>"
  by (auto simp: steal_def pin_ok_def)

text \<open>
  A trace that concerns one pin: reads and writes of its own block only, each write of a shared
  register right after a read of it and differing from the value read at most in the pin's bit, and a
  write of the clear register naming the pin alone.
\<close>

fun pin_local :: "gpio_block \<Rightarrow> u32 \<Rightarrow> gpio_bus \<Rightarrow> bool" where
  "pin_local b m [] = True"
| "pin_local b m (Rd r v # Wr r' v' # t) \<longleftrightarrow>
     r = r' \<and> fst r = b \<and> snd r \<noteq> CLR \<and> v' AND NOT m = v AND NOT m \<and> pin_local b m t"
| "pin_local b m (Wr r v # t) \<longleftrightarrow> r = (b, CLR) \<and> v = m \<and> pin_local b m t"
| "pin_local b m _ = False"

lemma masked [simp]:
  "(r OR m) AND NOT m = r AND NOT m" "(r AND NOT m) AND NOT m = r AND NOT m" for r m :: u32
  by (rule bit_eqI; auto simp: bit_simps)+

lemma pin_ok_block:
  assumes "pin_ok p"
  obtains b m where "block p = Some b" "pin_mask p = Some m" "m = push_bit (unat (pin_number p)) 1" "unat (pin_number p) < 32"
proof -
  have "unat (pin_port p) \<le> 1" using assms unfolding pin_ok_def by (simp add: word_le_nat_alt)
  then have "unat (pin_port p) = unat (0 :: u8) \<or> unat (pin_port p) = unat (1 :: u8)" by auto
  then have "pin_port p = 0 \<or> pin_port p = 1" by (simp only: word_eq_iff_unsigned [where ?'a = nat])
  moreover have l: "pin_number p < 24" using assms unfolding pin_ok_def by (auto split: if_splits simp: word_less_nat_alt)
  ultimately show ?thesis
    using that [of "if pin_port p = 0 then GPIOA else GPIOB" "push_bit (unat (pin_number p)) 1"]
    by (auto simp: block_def pin_mask_def word_less_nat_alt)
qed

lemma pin_mask_bit [simp]: "n < 32 \<Longrightarrow> bit (push_bit n 1 :: u32) n"
  by (simp add: bit_simps)

definition bit_last :: "gpio_register \<Rightarrow> nat \<Rightarrow> gpio_bus \<Rightarrow> bool option" where
  "bit_last r n t = (if written r t = [] then None else Some (bit (last (written r t)) n))"

lemmas gpio_ops = Let_def on_block_def modify_register_def read_volatile_def write_volatile_def bit_last_def

lemma set_as_input_trace:
  assumes "block p = Some b" "pin_mask p = Some m" "m = push_bit n 1" "n < 32"
  shows "\<exists>t. set_as_input dev p pull h = Some (h @ t) \<and> pin_local b m t \<and> bit_last (b, DIR) n t = Some False
    \<and> bit_last (b, PU) n t = Some (pull = PullUp) \<and> bit_last (b, PD_DRV) n t = Some (pull = PullDown)"
  using assms by (cases pull) (simp_all add: set_as_input_def gpio_ops bit_simps)

lemma set_as_output_trace:
  assumes "block p = Some b" "pin_mask p = Some m" "m = push_bit n 1" "n < 32"
  shows "\<exists>t. set_as_output dev p drive h = Some (h @ t) \<and> pin_local b m t \<and> bit_last (b, DIR) n t = Some True
    \<and> bit_last (b, PD_DRV) n t = Some (drive = MilliAmps20)"
  using assms by (cases drive) (simp_all add: set_as_output_def gpio_ops bit_simps)

lemma set_level_trace:
  assumes "block p = Some b" "pin_mask p = Some m" "m = push_bit n 1" "n < 32"
  shows "\<exists>t. set_level dev p level h = Some (h @ t) \<and> pin_local b m t \<and> bit_last (b, DIR) n t = None
    \<and> (level = High \<and> bit_last (b, OUT) n t = Some True \<or> level = Low \<and> written (b, CLR) t = [m])"
  using assms by (cases level) (simp_all add: set_level_def gpio_ops bit_simps)

text \<open>The table holds every pin that exists once: no two tokens name the same pin, and none is missing.\<close>

lemma all_pins_unique: "distinct all_pins" "set all_pins = {p. pin_ok p}"
proof -
  show "distinct all_pins" by (simp add: all_pins_def degrade_def)
  have below: "x \<in> set (map word_of_nat [0..<n])" if "x < word_of_nat n" "n < 256" for x :: u8 and n
    using that by (intro image_eqI [of _ _ "unat x", THEN subsetD [OF eq_refl [OF set_map [symmetric]]]])
      (simp_all add: word_less_nat_alt unat_of_nat)
  have port: "x = 0 \<or> x = 1" if "x \<le> 1" for x :: u8
  proof -
    have "unat x \<le> 1" using that by (simp add: word_le_nat_alt)
    then have "unat x = unat (0 :: u8) \<or> unat x = unat (1 :: u8)" by auto
    then show ?thesis by (simp only: word_eq_iff_unsigned [where ?'a = nat])
  qed
  have a: "x \<in> set [0, 1, 2, 3, 4, 5, 6, 7, 8, 9, 10, 11, 12, 13, 14, 15]" if "x < 16" for x :: u8
    using below [of x 16] that by (simp add: upt_rec)
  have b: "x \<in> set [0, 1, 2, 3, 4, 5, 6, 7, 8, 9, 10, 11, 12, 13, 14, 15, 16, 17, 18, 19, 20, 21, 22, 23]" if "x < 24" for x :: u8
    using below [of x 24] that by (simp add: upt_rec)
  show "set all_pins = {p. pin_ok p}"
  proof (intro set_eqI iffI)
    fix p assume "p \<in> set all_pins"
    then show "p \<in> {p. pin_ok p}" by (auto simp: all_pins_def degrade_def pin_ok_def)
  next
    fix p assume "p \<in> {p. pin_ok p}"
    then have ok: "pin_port p = 0 \<and> pin_number p < 16 \<or> pin_port p = 1 \<and> pin_number p < 24"
      using port [of "pin_port p"] by (auto simp: pin_ok_def)
    have "p = degrade (pin_port p) (pin_number p)" by (simp add: degrade_def)
    then show "p \<in> set all_pins" using ok a [of "pin_number p"] b [of "pin_number p"]
      unfolding all_pins_def set_append set_map by (metis UnI1 UnI2 imageI)
  qed
qed

text \<open>The trait operations: a level is set through the pin's own bit, and the low tests negate the same read.\<close>

lemma output_level_traces:
  assumes "block p = Some b" "pin_mask p = Some m" "m = push_bit n 1" "n < 32"
  shows "\<exists>t. output_set_high dev p h = Some (h @ t) \<and> pin_local b m t \<and> bit_last (b, OUT) n t = Some True"
    and "\<exists>t. output_set_low dev p h = Some (h @ t) \<and> pin_local b m t \<and> written (b, CLR) t = [m]"
    and "\<exists>v h1. output_is_set_high dev p h = Some (v, h1) \<and> output_is_set_low dev p h = Some (\<not> v, h1)"
    and "\<exists>v h1. input_is_high dev p h = Some (v, h1) \<and> input_is_low dev p h = Some (\<not> v, h1)"
proof -
  show "\<exists>t. output_set_high dev p h = Some (h @ t) \<and> pin_local b m t \<and> bit_last (b, OUT) n t = Some True"
    using set_level_trace [OF assms, of dev High h] by (auto simp: output_set_high_def)
  show "\<exists>t. output_set_low dev p h = Some (h @ t) \<and> pin_local b m t \<and> written (b, CLR) t = [m]"
    using set_level_trace [OF assms, of dev Low h] by (auto simp: output_set_low_def)
qed (use assms in \<open>auto simp: output_is_set_high_def output_is_set_low_def input_is_high_def input_is_low_def
      is_set_high_def is_high_def gpio_ops\<close>)

section \<open>Properties\<close>

text \<open>
  C21. For every existing pin and every device the GPIO operations never reach the unreachable block,
  touch only the pin's own port and change no bit but the pin's own in any register they write
  back. An input ends with its direction bit clear and exactly the requested pull bit set. A new output
  first writes its level, before its direction bit is set with the requested drive strength, so the
  pin never drives a stale level.
\<close>

theorem gpio_pins_isolated:
  assumes "pin_ok p"
  shows "\<exists>b m n. block p = Some b \<and> n = unat (pin_number p) \<and> m = push_bit n 1
    \<and> (\<exists>t. set_as_input dev p pull h = Some (h @ t) \<and> pin_local b m t \<and> bit_last (b, DIR) n t = Some False
         \<and> bit_last (b, PU) n t = Some (pull = PullUp) \<and> bit_last (b, PD_DRV) n t = Some (pull = PullDown))
    \<and> (\<exists>s t. output_new dev p level drive h = Some (h @ s @ t) \<and> pin_local b m s \<and> pin_local b m t
         \<and> (level = High \<and> bit_last (b, OUT) n s = Some True \<or> level = Low \<and> written (b, CLR) s = [m])
         \<and> bit_last (b, DIR) n s = None \<and> bit_last (b, DIR) n t = Some True
         \<and> bit_last (b, PD_DRV) n t = Some (drive = MilliAmps20))"
proof -
  obtain b m where p: "block p = Some b" "pin_mask p = Some m" "m = push_bit (unat (pin_number p)) 1" "unat (pin_number p) < 32"
    using pin_ok_block [OF assms] by blast
  obtain s where s: "set_level dev p level h = Some (h @ s)" "pin_local b m s" "bit_last (b, DIR) (unat (pin_number p)) s = None"
    "level = High \<and> bit_last (b, OUT) (unat (pin_number p)) s = Some True \<or> level = Low \<and> written (b, CLR) s = [m]"
    using set_level_trace [OF p, of dev level h] by blast
  show ?thesis
    using p(1,3) set_as_input_trace [OF p, of dev pull h] s set_as_output_trace [OF p, of dev drive "h @ s"]
    unfolding output_new_def s(1) by auto
qed

theorem gpio_pins_isolated_witness:
  "\<exists>t. set_as_input (\<lambda>_ _. 0) \<lparr>pin_port = 1, pin_number = 4\<rparr> PullUp [] = Some ([] @ t) \<and> pin_local GPIOB 0x10 t"
  using gpio_pins_isolated [of "\<lparr>pin_port = 1, pin_number = 4\<rparr>" "\<lambda>_ _. 0" PullUp "[]" High MilliAmps5]
  by (auto simp: pin_ok_def block_def)

end
