(* ===== verification/Uart.thy ===== *)
theory Uart
  imports Gpio
begin

text \<open>
  The UART driver of \<^verbatim>\<open>src/uart.rs\<close>: divider selection, configuration, construction and the polled
  transfers. The register block is generated outside this repository, so register writes are
  recorded by the fields the source sets, and what the hardware returns (line status, received octets,
  FIFO level, pin remap register) is an arbitrary function of the history. The clock is the argument
  \<open>hclk_hz\<close>. A polling loop without a bound is a \<open>partial_function\<close>; \<open>None\<close> is running forever.
\<close>

section \<open>Divider selection\<close>

datatype DataBits = Five | Six | Seven | Eight
datatype StopBits = StopBits_One | StopBits_Two
datatype Parity = Parity_None | Parity_Odd | Parity_Even | Parity_Mark | Parity_Space

record uart_config =
  baudrate :: u32
  data_bits :: DataBits
  stop_bits :: StopBits
  parity_mode :: Parity
  max_error_ppm :: u32

definition default_config :: uart_config where
  "default_config = \<lparr>baudrate = 115200, data_bits = Eight, stop_bits = StopBits_One, parity_mode = Parity_None, max_error_ppm = 20000\<rparr>"

datatype ConfigError =
    BaudrateZero
  | BaudrateOutOfRange
  | BaudrateErrorTooHigh (too_high_actual: u32) (too_high_error: u32)
  | MismatchedPinRemap

datatype uart_error = Overrun | Parity_Error | Framing | Break

record BaudDividers =
  predivider :: u8
  latch :: u16
  actual :: u32
  error_ppm :: u32

definition abs_diff :: "u32 \<Rightarrow> u32 \<Rightarrow> u32" where
  "abs_diff a b = (if a < b then b - a else a - b)"

text \<open>
  The \<open>u64\<close> intermediates of one round stay below \<open>2 ^ 53\<close> and are \<open>nat\<close>; the casts to \<open>u32\<close>, \<open>u16\<close>
  and \<open>u8\<close> are kept.
\<close>

definition candidate :: "u32 \<Rightarrow> u32 \<Rightarrow> nat \<Rightarrow> BaudDividers option" where
  "candidate clock_hz baud p =
     (let denominator = 8 * p * unat baud;
          rounded_latch = (unat clock_hz + denominator div 2) div denominator
      in if rounded_latch \<ge> 1 \<and> rounded_latch \<le> 0xffff then
           (let act = word_of_nat (unat clock_hz div (8 * p * rounded_latch));
                difference = abs_diff act baud;
                err = word_of_nat ((unat difference * 1000000) div unat baud)
            in Some \<lparr>predivider = (if p = 128 then 0 else word_of_nat p), latch = word_of_nat rounded_latch,
                     actual = act, error_ppm = err\<rparr>)
         else None)"

definition better :: "BaudDividers option \<Rightarrow> BaudDividers option \<Rightarrow> BaudDividers option" where
  "better best cand =
     (case cand of None \<Rightarrow> best
      | Some c \<Rightarrow> (case best of None \<Rightarrow> Some c | Some b \<Rightarrow> if error_ppm c < error_ppm b then Some c else Some b))"

definition select_baud :: "u32 \<Rightarrow> u32 \<Rightarrow> BaudDividers option" where
  "select_baud clock_hz baud =
     (if clock_hz = 0 \<or> baud = 0 then None
      else fold (\<lambda>p best. better best (candidate clock_hz baud p)) [1..<129] None)"

section \<open>Registers and construction\<close>

record lsr_flags =
  over_err :: bool
  par_err :: bool
  frame_err :: bool
  break_err :: bool
  data_rdy :: bool
  tx_all_emp :: bool

text \<open>One constructor for each register access the source makes.\<close>

datatype uart_event =
    LsrRead lsr_flags | RbrRead u8 | TfcRead u8 | AltRead u16
  | ThrWrite u8 | AltWrite u16 | IerReset | FcrEnableClear | LcrWrite u8 | DivWrite u8 | DlWrite u16
  | IerTxdEn | McrOut2 | IerZero

type_synonym uart_bus = "uart_event list"

record uart_device =
  dev_lsr :: "uart_bus \<Rightarrow> lsr_flags"
  dev_rbr :: "uart_bus \<Rightarrow> u8"
  dev_tfc :: "uart_bus \<Rightarrow> u8"
  dev_alt :: "uart_bus \<Rightarrow> u16"

definition FIFO_CAPACITY :: nat where "FIFO_CAPACITY = 8"

text \<open>The pins that exist for each instance, by remap selection.\<close>

definition tx_pin :: "nat \<Rightarrow> bool \<Rightarrow> any_pin" where
  "tx_pin index remapped =
     (if index = 0 then (if remapped then \<lparr>pin_port = 0, pin_number = 14\<rparr> else \<lparr>pin_port = 1, pin_number = 7\<rparr>)
      else if index = 1 then (if remapped then \<lparr>pin_port = 1, pin_number = 13\<rparr> else \<lparr>pin_port = 0, pin_number = 9\<rparr>)
      else if index = 2 then (if remapped then \<lparr>pin_port = 1, pin_number = 23\<rparr> else \<lparr>pin_port = 0, pin_number = 7\<rparr>)
      else (if remapped then \<lparr>pin_port = 1, pin_number = 21\<rparr> else \<lparr>pin_port = 0, pin_number = 5\<rparr>))"

definition rx_pin :: "nat \<Rightarrow> bool \<Rightarrow> any_pin" where
  "rx_pin index remapped =
     (if index = 0 then (if remapped then \<lparr>pin_port = 0, pin_number = 15\<rparr> else \<lparr>pin_port = 1, pin_number = 4\<rparr>)
      else if index = 1 then (if remapped then \<lparr>pin_port = 1, pin_number = 12\<rparr> else \<lparr>pin_port = 0, pin_number = 8\<rparr>)
      else if index = 2 then (if remapped then \<lparr>pin_port = 1, pin_number = 22\<rparr> else \<lparr>pin_port = 0, pin_number = 6\<rparr>)
      else (if remapped then \<lparr>pin_port = 1, pin_number = 20\<rparr> else \<lparr>pin_port = 0, pin_number = 4\<rparr>))"

definition configure_remap :: "uart_device \<Rightarrow> nat \<Rightarrow> bool \<Rightarrow> uart_bus \<Rightarrow> uart_bus" where
  "configure_remap dev index remapped h =
     (let m = push_bit (4 + index) 1; r = dev_alt dev h
      in h @ [AltRead r, AltWrite (if remapped then r OR m else r AND NOT m)])"

definition parity_bits :: "Parity \<Rightarrow> u8" where
  "parity_bits x = (case x of Parity_None \<Rightarrow> 0 | Parity_Odd \<Rightarrow> push_bit 3 1 | Parity_Even \<Rightarrow> push_bit 3 1 OR push_bit 4 1
     | Parity_Mark \<Rightarrow> push_bit 3 1 OR push_bit 4 2 | Parity_Space \<Rightarrow> push_bit 3 1 OR push_bit 4 3)"

definition data_bits_code :: "DataBits \<Rightarrow> u8" where
  "data_bits_code d = (case d of Five \<Rightarrow> 0 | Six \<Rightarrow> 1 | Seven \<Rightarrow> 2 | Eight \<Rightarrow> 3)"

definition configure :: "u32 \<Rightarrow> uart_config \<Rightarrow> uart_bus \<Rightarrow> (ConfigError + BaudDividers) \<times> uart_bus" where
  "configure hclk_hz config h =
     (if baudrate config = 0 then (Inl BaudrateZero, h)
      else case select_baud hclk_hz (baudrate config) of None \<Rightarrow> (Inl BaudrateOutOfRange, h)
      | Some baud \<Rightarrow>
          if error_ppm baud > max_error_ppm config then (Inl (BaudrateErrorTooHigh (actual baud) (error_ppm baud)), h)
          else (let line_control = data_bits_code (data_bits config)
                      OR (if stop_bits config = StopBits_Two then push_bit 2 1 else 0) OR parity_bits (parity_mode config)
                in (Inr baud, h @ [IerReset, FcrEnableClear, LcrWrite line_control, DivWrite (predivider baud),
                                   DlWrite (latch baud), IerTxdEn, McrOut2])))"

text \<open>\<open>Uart::new\<close> for an instance and the remap selections of the two pins; the value is the actual baud rate.\<close>

definition uart_new ::
  "gpio_device \<Rightarrow> uart_device \<Rightarrow> u32 \<Rightarrow> nat \<Rightarrow> bool \<Rightarrow> bool \<Rightarrow> uart_config \<Rightarrow> gpio_bus \<Rightarrow> uart_bus
     \<Rightarrow> ((ConfigError + u32) \<times> gpio_bus \<times> uart_bus) option" where
  "uart_new gdev dev hclk_hz index tx_remapped rx_remapped config g h =
     (if tx_remapped \<noteq> rx_remapped then Some (Inl MismatchedPinRemap, g, h)
      else (let tx = tx_pin index tx_remapped; rx = rx_pin index rx_remapped in
        Option.bind (set_level gdev tx High g) (\<lambda>g1.
        Option.bind (set_as_output gdev tx MilliAmps5 g1) (\<lambda>g2.
        Option.bind (set_as_input gdev rx PullUp g2) (\<lambda>g3.
          let h1 = configure_remap dev index tx_remapped h in
          case configure hclk_hz config h1 of (Inl e, h2) \<Rightarrow> Some (Inl e, g3, h2)
          | (Inr baud, h2) \<Rightarrow> Some (Inr (actual baud), g3, h2))))))"

definition uart_drop :: "uart_bus \<Rightarrow> uart_bus" where
  "uart_drop h = h @ [IerZero]"

section \<open>Transfers\<close>

definition try_write :: "uart_device \<Rightarrow> bytes \<Rightarrow> uart_bus \<Rightarrow> nat \<times> uart_bus" where
  "try_write dev buffer h =
     (let level = dev_tfc dev h; h1 = h @ [TfcRead level];
          available = FIFO_CAPACITY - unat level;
          count = min available (length buffer)
      in (count, fold (\<lambda>b h. h @ [ThrWrite b]) (take count buffer) h1))"

definition is_tx_idle :: "uart_device \<Rightarrow> uart_bus \<Rightarrow> bool \<times> uart_bus" where
  "is_tx_idle dev h = (tx_all_emp (dev_lsr dev h), h @ [LsrRead (dev_lsr dev h)])"

definition line_error :: "lsr_flags \<Rightarrow> uart_error option" where
  "line_error status =
     (if over_err status then Some Overrun else if par_err status then Some Parity_Error
      else if frame_err status then Some Framing else if break_err status then Some Break else None)"

definition receive_byte :: "uart_device \<Rightarrow> uart_bus \<Rightarrow> (uart_error + u8 option) \<times> uart_bus" where
  "receive_byte dev h =
     (let status = dev_lsr dev h; h1 = h @ [LsrRead status]; h2 = h1 @ [RbrRead (dev_rbr dev h1)] in
      case line_error status of
        Some e \<Rightarrow> (Inl e, if data_rdy status then h2 else h1)
      | None \<Rightarrow> if data_rdy status then (Inr (Some (dev_rbr dev h1)), h2) else (Inr None, h1))"

function read_available :: "uart_device \<Rightarrow> bytes \<Rightarrow> nat \<Rightarrow> uart_bus \<Rightarrow> (uart_error + nat) \<times> bytes \<times> uart_bus" where
  "read_available dev buffer count h =
     (if count < length buffer then
        (case receive_byte dev h of (Inl e, h1) \<Rightarrow> (Inl e, buffer, h1)
         | (Inr (Some byte), h1) \<Rightarrow> read_available dev (buffer[count := byte]) (count + 1) h1
         | (Inr None, h1) \<Rightarrow> (Inr count, buffer, h1))
      else (Inr count, buffer, h))"
  by pat_completeness auto
termination
  by (relation "measure (\<lambda>(dev, buffer, count, h). length buffer - count)") auto

declare read_available.simps [simp del]

definition try_read :: "uart_device \<Rightarrow> bytes \<Rightarrow> uart_bus \<Rightarrow> (uart_error + nat) \<times> bytes \<times> uart_bus" where
  "try_read dev buffer h = read_available dev buffer 0 h"

partial_function (option) read_retry :: "uart_device \<Rightarrow> bytes \<Rightarrow> uart_bus \<Rightarrow> ((uart_error + nat) \<times> bytes \<times> uart_bus) option" where
  "read_retry dev buffer h =
     (case read_available dev buffer 0 h of (Inl e, buf, h1) \<Rightarrow> Some (Inl e, buf, h1)
      | (Inr count, buf, h1) \<Rightarrow> if count \<noteq> 0 then Some (Inr count, buf, h1) else read_retry dev buf h1)"

definition blocking_read :: "uart_device \<Rightarrow> bytes \<Rightarrow> uart_bus \<Rightarrow> ((uart_error + nat) \<times> bytes \<times> uart_bus) option" where
  "blocking_read dev buffer h = (if buffer = [] then Some (Inr 0, buffer, h) else read_retry dev buffer h)"

partial_function (option) wait_fifo :: "uart_device \<Rightarrow> uart_bus \<Rightarrow> uart_bus option" where
  "wait_fifo dev h =
     (let level = dev_tfc dev h; h1 = h @ [TfcRead level]
      in if unat level \<ge> FIFO_CAPACITY then wait_fifo dev h1 else Some h1)"

primrec blocking_write_all :: "uart_device \<Rightarrow> bytes \<Rightarrow> uart_bus \<Rightarrow> uart_bus option" where
  "blocking_write_all dev [] h = Some h"
| "blocking_write_all dev (b # bs) h =
     Option.bind (wait_fifo dev h) (\<lambda>h1. blocking_write_all dev bs (h1 @ [ThrWrite b]))"

partial_function (option) blocking_flush :: "uart_device \<Rightarrow> uart_bus \<Rightarrow> uart_bus option" where
  "blocking_flush dev h =
     (let status = dev_lsr dev h; h1 = h @ [LsrRead status]
      in if \<not> tx_all_emp status then blocking_flush dev h1 else Some h1)"

text \<open>\<open>embedded_io::Read\<close> and \<open>Write\<close>, \<open>fmt::Write\<close> for the octets of a string, and the kinds of the errors;
  the writes of this driver have no error.\<close>

definition io_read :: "uart_device \<Rightarrow> bytes \<Rightarrow> uart_bus \<Rightarrow> ((uart_error + nat) \<times> bytes \<times> uart_bus) option" where
  "io_read dev buffer h = blocking_read dev buffer h"

definition io_write :: "uart_device \<Rightarrow> bytes \<Rightarrow> uart_bus \<Rightarrow> (nat \<times> uart_bus) option" where
  "io_write dev buffer h = map_option (\<lambda>h1. (length buffer, h1)) (blocking_write_all dev buffer h)"

definition io_flush :: "uart_device \<Rightarrow> uart_bus \<Rightarrow> uart_bus option" where
  "io_flush dev h = blocking_flush dev h"

definition write_str :: "uart_device \<Rightarrow> bytes \<Rightarrow> uart_bus \<Rightarrow> uart_bus option" where
  "write_str dev string h = blocking_write_all dev string h"

datatype io_error_kind = Kind_Other | Kind_InvalidData

definition uart_error_kind :: "uart_error \<Rightarrow> io_error_kind" where
  "uart_error_kind e = (case e of Overrun \<Rightarrow> Kind_Other | Parity_Error \<Rightarrow> Kind_InvalidData | Framing \<Rightarrow> Kind_InvalidData | Break \<Rightarrow> Kind_InvalidData)"

section \<open>Lemmas: divider selection\<close>

definition latch_of :: "nat \<Rightarrow> nat \<Rightarrow> nat \<Rightarrow> nat" where
  "latch_of c b p = (c + (8 * p * b) div 2) div (8 * p * b)"

definition usable :: "nat \<Rightarrow> nat \<Rightarrow> nat \<Rightarrow> bool" where
  "usable c b p \<longleftrightarrow> 1 \<le> latch_of c b p \<and> latch_of c b p \<le> 0xffff"

definition ppm :: "nat \<Rightarrow> nat \<Rightarrow> nat" where
  "ppm a b = (if a < b then b - a else a - b) * 1000000 div b"

text \<open>The rounded latch keeps the actual rate below twice the requested one.\<close>

lemma actual_below_twice:
  assumes "1 \<le> latch_of c b p" "0 < p" "0 < b"
  shows "c div (8 * p * latch_of c b p) < 2 * b"
proof -
  let ?d = "8 * p * b" and ?l = "latch_of c b p"
  have d: "0 < ?d" using assms by simp
  have "c + ?d div 2 < ?d * (?l + 1)"
    unfolding latch_of_def using d by (metis Suc_eq_plus1 dividend_less_times_div mult_Suc_right add.commute)
  also have "?d * (?l + 1) \<le> ?d * (2 * ?l)" using assms(1) by (intro mult_le_mono2) simp
  finally have "c < (8 * p * ?l) * (2 * b)" by (simp add: algebra_simps)
  then show ?thesis by (simp add: less_mult_imp_div_less mult.commute)
qed

lemma ppm_bound:
  assumes "a < 2 * b" "0 < b"
  shows "ppm a b \<le> 1000000"
proof -
  have "(if a < b then b - a else a - b) \<le> b" using assms by auto
  then have "(if a < b then b - a else a - b) * 1000000 \<le> b * 1000000" by (rule mult_le_mono1)
  then show ?thesis unfolding ppm_def using assms(2) by (metis div_le_mono nonzero_mult_div_cancel_left neq0_conv)
qed

lemma unat_abs_diff: "unat (abs_diff a b) = (if unat a < unat b then unat b - unat a else unat a - unat b)"
  by (auto simp: abs_diff_def word_less_nat_alt unat_sub word_le_nat_alt)

lemma candidate_some:
  assumes "usable (unat c) (unat b) p" "1 \<le> p" "p \<le> 128" "b \<noteq> 0"
  shows "\<exists>r. candidate c b p = Some r
    \<and> predivider r = (if p = 128 then 0 else word_of_nat p)
    \<and> unat (latch r) = latch_of (unat c) (unat b) p
    \<and> unat (actual r) = unat c div (8 * p * latch_of (unat c) (unat b) p)
    \<and> unat (error_ppm r) = ppm (unat (actual r)) (unat b)
    \<and> unat (error_ppm r) \<le> 1000000"
proof -
  let ?l = "latch_of (unat c) (unat b) p"
  let ?a = "word_of_nat (unat c div (8 * p * ?l)) :: u32"
  have b: "0 < unat b" using assms(4) by (simp add: unat_gt_0)
  have "unat c div (8 * p * ?l) \<le> unat c" by (rule div_le_dividend)
  then have a: "unat ?a = unat c div (8 * p * ?l)"
    using unsigned_less [where 'a = nat, of c] by (intro unat_of_nat_small) (metis le_less_trans)
  have l: "unat (word_of_nat ?l :: u16) = ?l" using assms(1) by (intro unat_of_nat_small) (simp add: usable_def)
  have e: "unat (abs_diff ?a b) * 1000000 div unat b = ppm (unat ?a) (unat b)"
    by (simp add: ppm_def unat_abs_diff)
  have bd: "ppm (unat ?a) (unat b) \<le> 1000000"
    unfolding a using assms b by (intro ppm_bound actual_below_twice) (auto simp: usable_def)
  then have w: "unat (word_of_nat (ppm (unat ?a) (unat b)) :: u32) = ppm (unat ?a) (unat b)"
    by (intro unat_of_nat_small) simp
  have "candidate c b p = Some \<lparr>predivider = (if p = 128 then 0 else word_of_nat p), latch = word_of_nat ?l,
      actual = ?a, error_ppm = word_of_nat (ppm (unat ?a) (unat b))\<rparr>"
    using assms(1) unfolding candidate_def Let_def e [symmetric] by (simp add: usable_def latch_of_def)
  then show ?thesis using a l w bd by simp
qed

lemma candidate_none: "\<not> usable (unat c) (unat b) p \<Longrightarrow> candidate c b p = None"
  by (auto simp: candidate_def usable_def latch_of_def Let_def)

lemma fold_better:
  "case fold (\<lambda>p best. better best (f p)) ps b0 of
     None \<Rightarrow> b0 = None \<and> (\<forall>p\<in>set ps. f p = None)
   | Some x \<Rightarrow> (b0 = Some x \<or> (\<exists>p\<in>set ps. f p = Some x))
       \<and> (\<forall>y. b0 = Some y \<longrightarrow> error_ppm x \<le> error_ppm y)
       \<and> (\<forall>p\<in>set ps. \<forall>y. f p = Some y \<longrightarrow> error_ppm x \<le> error_ppm y)"
proof (induction ps arbitrary: b0)
  case (Cons q ps)
  have q: "better b0 (f q) = None \<longleftrightarrow> b0 = None \<and> f q = None"
    "better b0 (f q) = Some y \<Longrightarrow> b0 = Some y \<or> f q = Some y"
    "better b0 (f q) = Some y \<Longrightarrow> b0 = Some z \<or> f q = Some z \<Longrightarrow> error_ppm y \<le> error_ppm z" for y z
    by (auto simp: better_def split: option.splits if_splits)
  show ?case
  proof (cases "better b0 (f q)")
    case None
    then show ?thesis using Cons [of None] q(1) by (auto split: option.splits)
  next
    case (Some y)
    show ?thesis using Cons [of "Some y"] q(2) [OF Some] q(3) [OF Some] Some
      by (auto split: option.splits) (metis order_trans)+
  qed
qed (auto split: option.splits)

section \<open>Lemmas: transfers\<close>

fun sent :: "uart_bus \<Rightarrow> bytes" where
  "sent [] = []"
| "sent (ThrWrite b # t) = b # sent t"
| "sent (_ # t) = sent t"

fun received :: "uart_bus \<Rightarrow> bytes" where
  "received [] = []"
| "received (RbrRead b # t) = b # received t"
| "received (_ # t) = received t"

lemma sent_append [simp]: "sent (s @ t) = sent s @ sent t"
  by (induction s rule: sent.induct) auto

lemma received_append [simp]: "received (s @ t) = received s @ received t"
  by (induction s rule: received.induct) auto

text \<open>The transmit FIFO never overflows: at most \<open>room\<close> octets follow, and every level read renews it.\<close>

fun fits_fifo :: "nat \<Rightarrow> uart_bus \<Rightarrow> bool" where
  "fits_fifo room [] = True"
| "fits_fifo room (TfcRead v # t) = fits_fifo (FIFO_CAPACITY - unat v) t"
| "fits_fifo room (ThrWrite b # t) \<longleftrightarrow> 0 < room \<and> fits_fifo (room - 1) t"
| "fits_fifo room (_ # t) = fits_fifo room t"

lemma fits_writes: "length bs \<le> room \<Longrightarrow> fits_fifo room (map ThrWrite bs)"
  by (induction bs arbitrary: room) auto

lemma fold_thr: "fold (\<lambda>b h. h @ [ThrWrite b]) bs h = h @ map ThrWrite bs"
  by (induction bs arbitrary: h) auto

lemma sent_writes [simp]: "sent (map ThrWrite bs) = bs"
  by (induction bs) auto

primrec polled :: "uart_device \<Rightarrow> nat \<Rightarrow> uart_bus \<Rightarrow> uart_bus" where
  "polled dev 0 h = h"
| "polled dev (Suc n) h = polled dev n (h @ [TfcRead (dev_tfc dev h)])"

text \<open>A transmitter that makes room after finitely many polls of its level.\<close>

definition drains :: "uart_device \<Rightarrow> bool" where
  "drains dev \<longleftrightarrow> (\<forall>h. \<exists>n. unat (dev_tfc dev (polled dev n h)) < FIFO_CAPACITY)"

lemma wait_fifo_polled:
  "unat (dev_tfc dev (polled dev n h)) < FIFO_CAPACITY \<Longrightarrow>
   \<exists>vs v. wait_fifo dev h = Some (h @ map TfcRead vs @ [TfcRead v]) \<and> unat v < FIFO_CAPACITY"
proof (induction n arbitrary: h)
  case 0
  then show ?case by (subst wait_fifo.simps) (auto simp: Let_def intro: exI [of _ "[]"])
next
  case (Suc n)
  let ?v = "dev_tfc dev h"
  show ?case
  proof (cases "unat ?v < FIFO_CAPACITY")
    case True
    then show ?thesis by (subst wait_fifo.simps) (auto simp: Let_def intro: exI [of _ "[]"])
  next
    case False
    obtain vs v where w: "wait_fifo dev (h @ [TfcRead ?v]) = Some ((h @ [TfcRead ?v]) @ map TfcRead vs @ [TfcRead v])"
      and v: "unat v < FIFO_CAPACITY"
      using Suc.IH [of "h @ [TfcRead ?v]"] Suc.prems by auto
    from w have "wait_fifo dev h = Some (h @ map TfcRead (?v # vs) @ [TfcRead v])"
      using False by (subst wait_fifo.simps) (simp add: Let_def)
    with v show ?thesis by blast
  qed
qed

lemma fits_levels [simp]: "fits_fifo room (map TfcRead vs @ TfcRead v # t) = fits_fifo (FIFO_CAPACITY - unat v) t"
  by (induction vs arbitrary: room) auto

lemma sent_levels [simp]: "sent (map TfcRead vs) = []"
  by (induction vs) auto

lemma fits_mono: "fits_fifo r t \<Longrightarrow> r \<le> r' \<Longrightarrow> fits_fifo r' t"
  by (induction r t arbitrary: r' rule: fits_fifo.induct) auto

lemma write_all_ok:
  "drains dev \<Longrightarrow> \<exists>t. blocking_write_all dev bs h = Some (h @ t) \<and> sent t = bs \<and> fits_fifo 0 t"
proof (induction bs arbitrary: h)
  case (Cons b bs)
  obtain n where "unat (dev_tfc dev (polled dev n h)) < FIFO_CAPACITY" using Cons.prems unfolding drains_def by blast
  from wait_fifo_polled [OF this] obtain vs v where
    w: "wait_fifo dev h = Some (h @ map TfcRead vs @ [TfcRead v])" "unat v < FIFO_CAPACITY" by blast
  let ?h1 = "h @ map TfcRead vs @ [TfcRead v, ThrWrite b]"
  obtain t where t: "blocking_write_all dev bs ?h1 = Some (?h1 @ t)" "sent t = bs" "fits_fifo 0 t" using Cons.IH [OF Cons.prems, of ?h1] by blast
  have "fits_fifo (FIFO_CAPACITY - unat v - 1) t" using t(3) by (rule fits_mono) simp
  then show ?case using w t by (intro exI [of _ "map TfcRead vs @ [TfcRead v, ThrWrite b] @ t"]) simp
qed simp

lemma read_available_ok:
  "count \<le> length buffer \<Longrightarrow> \<exists>t. snd (snd (read_available dev buffer count h)) = h @ t
     \<and> (case read_available dev buffer count h of
          (Inr n, buf, h') \<Rightarrow> count \<le> n \<and> n \<le> length buffer \<and> length (received t) = n - count
            \<and> buf = take count buffer @ received t @ drop n buffer
        | (Inl e, buf, h') \<Rightarrow> length buf = length buffer
            \<and> (\<exists>t' st. line_error st = Some e \<and> (t = t' @ [LsrRead st] \<and> \<not> data_rdy st \<or> (\<exists>b. t = t' @ [LsrRead st, RbrRead b]))))"
proof (induction dev buffer count h rule: read_available.induct)
  case (1 dev buffer count h)
  show ?case
  proof (cases "count < length buffer")
    case False
    then have "read_available dev buffer count h = (Inr count, buffer, h)" by (subst read_available.simps) simp
    then show ?thesis using False 1(2) by simp
  next
    case True
    let ?st = "dev_lsr dev h"
    let ?h1 = "h @ [LsrRead ?st]"
    let ?b = "dev_rbr dev ?h1"
    show ?thesis
    proof (cases "line_error ?st")
      case (Some e)
      then have "read_available dev buffer count h = (Inl e, buffer, if data_rdy ?st then ?h1 @ [RbrRead ?b] else ?h1)"
        using True by (subst read_available.simps) (simp add: receive_byte_def Let_def)
      then show ?thesis using Some by (cases "data_rdy ?st") auto
    next
      case None
      show ?thesis
      proof (cases "data_rdy ?st")
        case False
        then have "read_available dev buffer count h = (Inr count, buffer, ?h1)"
          using True None by (subst read_available.simps) (simp add: receive_byte_def Let_def)
        then show ?thesis using True by simp
      next
        case rdy: True
        have rb: "receive_byte dev h = (Inr (Some ?b), ?h1 @ [RbrRead ?b])" using None rdy by (simp add: receive_byte_def Let_def)
        let ?r = "read_available dev (buffer[count := ?b]) (count + 1) (?h1 @ [RbrRead ?b])"
        have e: "read_available dev buffer count h = ?r" using True rb by (subst read_available.simps) simp
        have tk: "take (count + 1) (buffer[count := ?b]) = take count buffer @ [?b]" using True by (simp add: take_Suc_conv_app_nth)
        obtain t where t: "snd (snd ?r) = (?h1 @ [RbrRead ?b]) @ t" and
          c: "case ?r of (Inr n, buf, h') \<Rightarrow> count + 1 \<le> n \<and> n \<le> length (buffer[count := ?b]) \<and> length (received t) = n - (count + 1)
                \<and> buf = take (count + 1) (buffer[count := ?b]) @ received t @ drop n (buffer[count := ?b])
            | (Inl e, buf, h') \<Rightarrow> length buf = length (buffer[count := ?b])
                \<and> (\<exists>t' st. line_error st = Some e \<and> (t = t' @ [LsrRead st] \<and> \<not> data_rdy st \<or> (\<exists>b. t = t' @ [LsrRead st, RbrRead b])))"
          using 1(1) [OF True rb [symmetric] refl refl] True by auto
        show ?thesis
          unfolding e using t c tk True
          by (intro exI [of _ "[LsrRead ?st, RbrRead ?b] @ t"])
             (auto split: prod.splits sum.splits simp: Suc_diff_le intro: exI [of _ "LsrRead ?st # RbrRead ?b # x" for x])
      qed
    qed
  qed
qed

section \<open>Properties\<close>

text \<open>
  C40. select_baud returns None exactly for a zero clock or rate or when no predivider from 1 to 128 has
  a rounded latch within 1..65535. Otherwise it returns such a predivider (128 encoded as 0) with its
  rounded latch, the exact resulting rate HCLK / (8 * DIV * DL) and the exact error in ppm, none
  of them truncated by the casts, with an error of at most 1000000 ppm that no other usable
  predivider with its rounded latch undercuts.
\<close>

theorem baud_selected:
  "if c = 0 \<or> b = 0 \<or> filter (usable (unat c) (unat b)) [1..<129] = [] then select_baud c b = None
   else \<exists>r p. select_baud c b = Some r \<and> p \<in> set [1..<129]
     \<and> predivider r = (if p = 128 then 0 else word_of_nat p)
     \<and> unat (latch r) = latch_of (unat c) (unat b) p \<and> usable (unat c) (unat b) p
     \<and> unat (actual r) = unat c div (8 * p * unat (latch r))
     \<and> unat (error_ppm r) = ppm (unat (actual r)) (unat b)
     \<and> unat (error_ppm r) \<le> 1000000
     \<and> list_all (\<lambda>q. unat (error_ppm r) \<le> ppm (unat c div (8 * q * latch_of (unat c) (unat b) q)) (unat b))
         (filter (usable (unat c) (unat b)) [1..<129])"
proof (cases "c = 0 \<or> b = 0")
  case True
  then show ?thesis by (auto simp: select_baud_def)
next
  case False
  let ?us = "filter (usable (unat c) (unat b)) [1..<129]"
  have s: "select_baud c b = fold (\<lambda>p best. better best (candidate c b p)) [1..<129] None"
    using False by (simp add: select_baud_def)
  note f = fold_better [where f = "candidate c b" and ps = "[1..<129]" and ?b0.0 = None, folded s]
  have some: "\<exists>r. candidate c b p = Some r \<and> unat (error_ppm r) = ppm (unat c div (8 * p * latch_of (unat c) (unat b) p)) (unat b)"
    if "p \<in> set ?us" for p
    using that candidate_some [of c b p] False by auto
  show ?thesis
  proof (cases "?us = []")
    case True
    then have "\<forall>p\<in>set [1..<129]. candidate c b p = None" using candidate_none [of c b] by (auto simp: filter_empty_conv)
    then have "select_baud c b = None" using f by (auto split: option.splits)
    then show ?thesis using True by simp
  next
    case ne: False
    then obtain q where "q \<in> set ?us" using hd_in_set by blast
    then have "select_baud c b \<noteq> None" using some [of q] f by (auto split: option.splits)
    then obtain r where r: "select_baud c b = Some r" by blast
    then obtain p where p: "p \<in> set [1..<129]" "candidate c b p = Some r" using f by auto
    then have u: "usable (unat c) (unat b) p" using candidate_none [of c b p] by (cases "usable (unat c) (unat b) p") auto
    have "unat (error_ppm r) \<le> ppm (unat c div (8 * q * latch_of (unat c) (unat b) q)) (unat b)" if q: "q \<in> set ?us" for q
    proof -
      obtain x where "candidate c b q = Some x" "unat (error_ppm x) = ppm (unat c div (8 * q * latch_of (unat c) (unat b) q)) (unat b)"
        using some [OF q] by blast
      moreover have "q \<in> set [1..<129]" using q by simp
      moreover have "\<forall>p\<in>set [1..<129]. \<forall>y. candidate c b p = Some y \<longrightarrow> error_ppm r \<le> error_ppm y"
        using f unfolding r by simp
      ultimately show ?thesis by (metis word_le_nat_alt)
    qed
    then have best: "list_all (\<lambda>q. unat (error_ppm r) \<le> ppm (unat c div (8 * q * latch_of (unat c) (unat b) q)) (unat b)) ?us"
      by (simp only: list_all_iff) blast
    have "1 \<le> p" "p \<le> 128" "b \<noteq> 0" using p(1) False by auto
    from candidate_some [OF u this] p(2) have cs: "predivider r = (if p = 128 then 0 else word_of_nat p)"
      "unat (latch r) = latch_of (unat c) (unat b) p" "unat (actual r) = unat c div (8 * p * unat (latch r))"
      "unat (error_ppm r) = ppm (unat (actual r)) (unat b)" "unat (error_ppm r) \<le> 1000000"
      by auto
    have neg: "\<not> (c = 0 \<or> b = 0 \<or> ?us = [])" using ne False by blast
    show ?thesis unfolding if_not_P [OF neg] using r p(1) u cs best by blast
  qed
qed

lemma predividers: "[1..<129] = (1 :: nat) # [2..<129]"
  using upt_rec [of 1 129] by (simp only: Suc_1) simp

lemmas baud_eval = candidate_def [of _ _ 1] candidate_def [of _ _ "Suc 0"] candidate_def [of _ _ "numeral k" for k]
  better_def [of "Some x" for x] better_def [of None] abs_diff_def

text \<open>The compile-time assertions of the source.\<close>

lemma baud_assertions:
  "\<exists>standard. select_baud 60000000 115200 = Some standard \<and> actual standard = 115384 \<and> error_ppm standard < 2000"
  "\<exists>slow. select_baud 60000000 300 = Some slow \<and> error_ppm slow < 2000"
  "select_baud 60000000 0 = None"
proof -
  have eq: "select_baud 60000000 b = fold (\<lambda>p best. better best (candidate 60000000 b p)) [1..<129] None" if "b \<noteq> 0" for b
    using that by (simp add: select_baud_def)
  have one: "candidate 60000000 115200 1 = Some \<lparr>predivider = 1, latch = 65, actual = 115384, error_ppm = 1597\<rparr>"
      "candidate 60000000 300 1 = Some \<lparr>predivider = 1, latch = 25000, actual = 300, error_ppm = 0\<rparr>"
    by (simp_all add: baud_eval)
  have best: "\<exists>r p. select_baud 60000000 b = Some r \<and> candidate 60000000 b p = Some r \<and> p \<in> set [1..<129] \<and> error_ppm r \<le> error_ppm c"
    if "b \<noteq> 0" "candidate 60000000 b 1 = Some c" for b c
    using fold_better [where f = "candidate 60000000 b" and ps = "[1..<129]" and ?b0.0 = None, folded eq [OF that(1)]] that(2)
    by (cases "select_baud 60000000 b") fastforce+
  show "\<exists>slow. select_baud 60000000 300 = Some slow \<and> error_ppm slow < 2000"
    using best [OF _ one(2)] by auto
  obtain r p where r: "select_baud 60000000 115200 = Some r" "candidate 60000000 115200 p = Some r" "p \<in> set [1..<129]" "error_ppm r \<le> 1597"
    using best [OF _ one(1)] by auto
  have u: "usable (unat (60000000 :: u32)) (unat (115200 :: u32)) p"
    using r(2) candidate_none [of 60000000 115200 p] by (cases "usable (unat (60000000 :: u32)) (unat (115200 :: u32)) p") auto
  let ?k = "p * latch_of 60000000 115200 p"
  obtain r' where "candidate 60000000 115200 p = Some r'"
      "unat (actual r') = unat (60000000 :: u32) div (8 * p * latch_of (unat (60000000 :: u32)) (unat (115200 :: u32)) p)"
      "unat (error_ppm r') = ppm (unat (actual r')) (unat (115200 :: u32))"
    using candidate_some [OF u] r(3) by auto
  then have c: "unat (actual r) = 60000000 div (8 * ?k)" "unat (error_ppm r) = ppm (unat (actual r)) 115200"
    using r(2) by (simp_all add: mult.assoc)
  have "ppm (unat (actual r)) 115200 \<le> 1597" using r(4) c(2) by (simp add: word_le_nat_alt)
  then have a: "115016 \<le> unat (actual r)" "unat (actual r) \<le> 115384" by (auto simp: ppm_def split: if_splits)
  have k: "0 < ?k" using a c(1) by (cases "?k = 0") auto
  have "60000000 div (8 * ?k) = 7500000 div ?k" using div_mult2_eq [of 60000000 8 ?k] by simp
  then have d: "115016 \<le> 7500000 div ?k" "7500000 div ?k \<le> 115384" using a c(1) by simp_all
  have "115016 * ?k \<le> 7500000" using d(1) k by (simp only: less_eq_div_iff_mult_less_eq)
  moreover have "7500000 < 115385 * ?k" using d(2) k by (simp add: div_less_iff_less_mult [symmetric])
  ultimately have "?k = 65" by linarith
  then have "unat (actual r) = unat (115384 :: u32)" using c(1) by simp
  then have "actual r = 115384" by (simp only: word_eq_iff_unsigned [where ?'a = nat])
  moreover have "error_ppm r < 2000" using r(4) by (simp add: word_le_nat_alt word_less_nat_alt)
  ultimately show "\<exists>standard. select_baud 60000000 115200 = Some standard \<and> actual standard = 115384 \<and> error_ppm standard < 2000" using r(1) by blast
qed (simp add: select_baud_def)

text \<open>
  The selection is not the least error over all pairs: at 62.4 MHz a rate of 3200 gets the latch 2438
  with 312 ppm, while the latch 2437 gives the rate exactly.
\<close>

theorem baud_not_least:
  "select_baud 62400000 3200 = Some \<lparr>predivider = 1, latch = 2438, actual = 3199, error_ppm = 312\<rparr>
   \<and> ppm (62400000 div (8 * 1 * 2437)) 3200 = 0"
proof -
  have "select_baud 62400000 3200 = Some \<lparr>predivider = 1, latch = 2438, actual = 3199, error_ppm = 312\<rparr>"
    unfolding select_baud_def predividers by (simp add: baud_eval)
  then show ?thesis by (simp add: ppm_def)
qed

text \<open>
  C25. UART transfers are exact for every device. try_write sends the longest prefix of the buffer that
  fits in the transmit FIFO it observed. blocking_write_all, on a transmitter that drains, returns
  having sent exactly the whole buffer in order, no octet of it without a FIFO level below eight read
  since the octet before. try_read returns in the buffer exactly the octets read from the
  receive register, in order, or the error of the status word it read last, with the bad octet, if any, dropped.
\<close>

theorem uart_transfers_exact:
  assumes "drains dev"
  shows "(\<exists>t. snd (try_write dev bs h) = h @ t \<and> fits_fifo 0 t \<and> sent t = take (fst (try_write dev bs h)) bs
           \<and> fst (try_write dev bs h) = min (length bs) (FIFO_CAPACITY - unat (dev_tfc dev h)))
    \<and> (\<exists>t. blocking_write_all dev bs h = Some (h @ t) \<and> fits_fifo 0 t \<and> sent t = bs)
    \<and> (\<exists>t. snd (snd (try_read dev buffer h)) = h @ t
         \<and> (case try_read dev buffer h of
              (Inr n, buf, h') \<Rightarrow> n \<le> length buffer \<and> length (received t) = n \<and> buf = received t @ drop n buffer
            | (Inl e, buf, h') \<Rightarrow> length buf = length buffer
                \<and> (\<exists>t' st. line_error st = Some e
                     \<and> (t = t' @ [LsrRead st] \<and> \<not> data_rdy st \<or> (\<exists>b. t = t' @ [LsrRead st, RbrRead b])))))"
proof (intro conjI)
  show "\<exists>t. snd (try_write dev bs h) = h @ t \<and> fits_fifo 0 t \<and> sent t = take (fst (try_write dev bs h)) bs
      \<and> fst (try_write dev bs h) = min (length bs) (FIFO_CAPACITY - unat (dev_tfc dev h))"
    by (simp add: try_write_def Let_def fold_thr fits_writes min.commute)
  show "\<exists>t. blocking_write_all dev bs h = Some (h @ t) \<and> fits_fifo 0 t \<and> sent t = bs"
    using write_all_ok [OF assms, of bs h] by blast
  obtain r buf h' where "read_available dev buffer 0 h = (r, buf, h')" by (cases "read_available dev buffer 0 h")
  then show "\<exists>t. snd (snd (try_read dev buffer h)) = h @ t
         \<and> (case try_read dev buffer h of
              (Inr n, buf, h') \<Rightarrow> n \<le> length buffer \<and> length (received t) = n \<and> buf = received t @ drop n buffer
            | (Inl e, buf, h') \<Rightarrow> length buf = length buffer
                \<and> (\<exists>t' st. line_error st = Some e
                     \<and> (t = t' @ [LsrRead st] \<and> \<not> data_rdy st \<or> (\<exists>b. t = t' @ [LsrRead st, RbrRead b]))))"
    using read_available_ok [of 0 buffer dev h] by (cases r) (simp_all add: try_read_def)
qed

definition idle_uart :: uart_device where
  "idle_uart = \<lparr>dev_lsr = \<lambda>_. \<lparr>over_err = False, par_err = False, frame_err = False, break_err = False, data_rdy = True, tx_all_emp = True\<rparr>,
     dev_rbr = \<lambda>h. word_of_nat (length h), dev_tfc = \<lambda>h. word_of_nat (9 - length h), dev_alt = \<lambda>_. 0\<rparr>"

theorem uart_transfers_exact_witness:
  "drains idle_uart \<and> (\<exists>t. blocking_write_all idle_uart [1, 2, 3] [] = Some ([] @ t) \<and> fits_fifo 0 t \<and> sent t = [1, 2, 3])"
proof -
  have p: "length h + n \<le> length (polled idle_uart n h)" for n h 
  proof (induction n arbitrary: h)
    case (Suc n)
    from Suc [of "h @ [TfcRead (dev_tfc idle_uart h)]"] show ?case by simp
  qed simp
  have "unat (dev_tfc idle_uart (polled idle_uart 9 h)) < FIFO_CAPACITY" for h
  proof -
    have "9 - length (polled idle_uart 9 h) = 0" using p [of h 9] by simp
    then show ?thesis by (simp add: idle_uart_def FIFO_CAPACITY_def)
  qed
  then have "drains idle_uart" unfolding drains_def by blast
  then show ?thesis using uart_transfers_exact [of idle_uart "[1, 2, 3]" "[]" "[]"] by blast
qed

text \<open>\<open>Uart::new\<close> refuses mismatched pins before any access and never panics; a rejected configuration leaves the UART untouched.\<close>

lemma pins_exist: "pin_ok (tx_pin i r)" "pin_ok (rx_pin i r)"
  by (auto simp: tx_pin_def rx_pin_def pin_ok_def)

lemma io_write_exact:
  assumes "drains dev"
  shows "\<exists>t. io_write dev bs h = Some (length bs, h @ t) \<and> fits_fifo 0 t \<and> sent t = bs"
    and "\<exists>t. write_str dev bs h = Some (h @ t) \<and> fits_fifo 0 t \<and> sent t = bs"
  using write_all_ok [OF assms, of bs h] by (auto simp: io_write_def write_str_def)

lemma configure_error_quiet: "configure hz config h = (Inl e, h') \<Longrightarrow> h' = h"
  by (auto simp: configure_def Let_def split: if_splits option.splits)

end
