(* ===== verification/Rtc.thy ===== *)
theory Rtc
  imports Mmio
begin

text \<open>
  The real-time counter of \<^verbatim>\<open>src/rtc.rs\<close>. The two counter registers are read through an arbitrary
  device; the retry loop has no bound in the source and is a \<open>partial_function\<close>.
\<close>

section \<open>Model\<close>

definition TICKS_PER_SECOND :: u32 where "TICKS_PER_SECOND = 32768"

datatype rtc_register = CNT_2S | CNT_32K | CNT_DAY

type_synonym rtc_bus = "(rtc_register, u16) bus"
type_synonym rtc_device = "(rtc_register, u16) bus_device"

partial_function (option) counter_ticks :: "rtc_device \<Rightarrow> rtc_bus \<Rightarrow> (u32 \<times> rtc_bus) option" where
  "counter_ticks dev h =
     (let (high_before, h1) = read_volatile dev CNT_2S h;
          (low, h2) = read_volatile dev CNT_32K h1;
          (high_after, h3) = read_volatile dev CNT_2S h2
      in if high_before = high_after then Some (push_bit 16 (ucast high_before) OR ucast low, h3)
         else counter_ticks dev h3)"

definition day :: "rtc_device \<Rightarrow> rtc_bus \<Rightarrow> u16 \<times> rtc_bus" where
  "day dev h = read_volatile dev CNT_DAY h"

definition elapsed_ticks :: "u32 \<Rightarrow> u32 \<Rightarrow> u32" where
  "elapsed_ticks start ending = ending - start"

section \<open>Lemmas\<close>

text \<open>
  A device that shows a running count: the count never decreases, and advances by less than
  32768 ticks (one second) over the three reads of one round.
\<close>

definition after_high :: "rtc_device \<Rightarrow> rtc_bus \<Rightarrow> rtc_bus" where
  "after_high dev h = h @ [Rd CNT_2S (dev h CNT_2S)]"

definition after_low :: "rtc_device \<Rightarrow> rtc_bus \<Rightarrow> rtc_bus" where
  "after_low dev h = after_high dev h @ [Rd CNT_32K (dev (after_high dev h) CNT_32K)]"

definition after_round :: "rtc_device \<Rightarrow> rtc_bus \<Rightarrow> rtc_bus" where
  "after_round dev h = after_low dev h @ [Rd CNT_2S (dev (after_low dev h) CNT_2S)]"

definition shows_count :: "rtc_device \<Rightarrow> (rtc_bus \<Rightarrow> nat) \<Rightarrow> bool" where
  "shows_count dev c \<longleftrightarrow>
     (\<forall>h. dev h CNT_2S = word_of_nat (c h div 65536) \<and> dev h CNT_32K = word_of_nat (c h mod 65536)
        \<and> c h \<le> c (after_high dev h) \<and> c (after_high dev h) \<le> c (after_low dev h)
        \<and> c (after_low dev h) \<le> c (after_round dev h) \<and> c (after_round dev h) < c h + 32768)"

lemma round:
  "counter_ticks dev h =
     (if dev h CNT_2S = dev (after_low dev h) CNT_2S
      then Some (push_bit 16 (ucast (dev h CNT_2S)) OR ucast (dev (after_high dev h) CNT_32K), after_round dev h)
      else counter_ticks dev (after_round dev h))"
  unfolding after_round_def after_low_def after_high_def
  by (subst counter_ticks.simps) (simp add: read_volatile_def Let_def)

lemma join_halves:
  assumes "lo < 65536"
  shows "(push_bit 16 (ucast (word_of_nat hi :: u16)) OR ucast (word_of_nat lo :: u16) :: u32) = word_of_nat (hi * 65536 + lo)"
proof -
  let ?h = "ucast (word_of_nat hi :: u16) :: u32" and ?l = "ucast (word_of_nat lo :: u16) :: u32"
  have "push_bit 16 ?h AND ?l = 0"
    by (rule bit_eqI) (auto simp: bit_simps dest: bit_imp_le_length)
  then have "push_bit 16 ?h OR ?l = push_bit 16 ?h + ?l" by (simp only: disjunctive_add_eq_or)
  also have "\<dots> = ?h * 65536 + ?l" by (simp add: push_bit_eq_mult)
  finally have e: "push_bit 16 ?h OR ?l = ?h * 65536 + ?l" .
  have h: "unat ?h = hi mod 65536" by (simp add: unat_ucast_up unat_of_nat take_bit_eq_mod)
  have l: "unat ?l = lo" using assms by (simp add: unat_ucast_up unat_of_nat take_bit_eq_mod)
  have hm: "unat (?h * 65536) = (hi mod 65536) * 65536"
    using h by (subst unat_mult_small) (simp_all)
  have "unat (?h * 65536 + ?l) = (hi mod 65536) * 65536 + lo"
    using hm l assms by (subst unat_add_small) (simp_all)
  moreover have "unat (word_of_nat (hi * 65536 + lo) :: u32) = (hi mod 65536) * 65536 + lo"
  proof -
    have "(hi * 65536 + lo) mod (65536 * 65536) = 65536 * ((hi * 65536 + lo) div 65536 mod 65536) + (hi * 65536 + lo) mod 65536"
      by (rule mod_mult2_eq)
    also have "\<dots> = (hi mod 65536) * 65536 + lo" using assms by simp
    finally have "(hi * 65536 + lo) mod 4294967296 = (hi mod 65536) * 65536 + lo" by simp
    moreover have "unat (word_of_nat n :: u32) = n mod 4294967296" for n by (simp add: unat_of_nat take_bit_eq_mod)
    ultimately show ?thesis by (simp only:)
  qed
  ultimately show ?thesis unfolding e by (simp add: word_eq_iff_unsigned [where ?'a = nat])
qed

text \<open>The value of a round whose two high reads agree is the count at its low read.\<close>

lemma round_value:
  assumes "shows_count dev c" "dev h CNT_2S = dev (after_low dev h) CNT_2S"
  shows "push_bit 16 (ucast (dev h CNT_2S)) OR ucast (dev (after_high dev h) CNT_32K) = (word_of_nat (c (after_high dev h)) :: u32)"
proof -
  let ?a = "c h" and ?b = "c (after_high dev h)" and ?d = "c (after_low dev h)"
  have s: "dev h CNT_2S = word_of_nat (?a div 65536)" "dev (after_low dev h) CNT_2S = word_of_nat (?d div 65536)"
    "dev (after_high dev h) CNT_32K = word_of_nat (?b mod 65536)" "?a \<le> ?b" "?b \<le> ?d" "?d < ?a + 32768"
    using assms(1) [unfolded shows_count_def, rule_format, of h] assms(1) [unfolded shows_count_def, rule_format, of "after_low dev h"]
      assms(1) [unfolded shows_count_def, rule_format, of "after_high dev h"] by auto
  have "?a div 65536 mod 65536 = ?d div 65536 mod 65536"
  proof -
    have u: "unat (word_of_nat n :: u16) = n mod 65536" for n by (simp add: unat_of_nat take_bit_eq_mod)
    from assms(2) have "unat (dev h CNT_2S) = unat (dev (after_low dev h) CNT_2S)" by (rule arg_cong)
    then show ?thesis unfolding s(1,2) u .
  qed
  moreover have "?d div 65536 = ?a div 65536 \<or> ?d div 65536 = Suc (?a div 65536)"
    using s(4-6) by linarith
  moreover have "Suc x mod 65536 \<noteq> x mod 65536" for x :: nat by (simp add: mod_Suc)
  ultimately have "?d div 65536 = ?a div 65536" by metis
  then have "?b div 65536 = ?a div 65536" using div_le_mono [OF s(4), of 65536] div_le_mono [OF s(5), of 65536] by linarith
  then have "?a div 65536 * 65536 + ?b mod 65536 = ?b" by (metis div_mult_mod_eq)
  then show ?thesis unfolding s(1,3) by (subst join_halves) (simp_all only: mod_less_divisor zero_less_numeral)
qed

section \<open>Properties\<close>

text \<open>
  C19. On hardware whose two registers show the halves of one running count that advances by less than
  a second during a round of reads, counter_ticks returns after at most two rounds, and its
  value is the whole 32-bit count at the moment of its low read: never torn across a rollover.
\<close>

theorem counter_never_torn:
  assumes "shows_count dev c"
  shows "\<exists>k. (k = h \<or> k = after_round dev h)
    \<and> counter_ticks dev h = Some (word_of_nat (c (after_high dev k)), after_round dev k)"
proof (cases "dev h CNT_2S = dev (after_low dev h) CNT_2S")
  case True
  then show ?thesis using round [of dev h] round_value [OF assms True] by (intro exI [of _ h]) simp
next
  case False
  let ?k = "after_round dev h"
  have s: "\<And>h. dev h CNT_2S = word_of_nat (c h div 65536)" "c h \<le> c (after_low dev h)" "c (after_low dev h) \<le> c ?k" "c ?k < c h + 32768"
    "c ?k \<le> c (after_low dev ?k)" "c (after_low dev ?k) < c ?k + 32768"
    using assms [unfolded shows_count_def] by (blast, meson le_trans, blast, blast, meson le_trans, meson le_less_trans)
  have "c h div 65536 \<noteq> c (after_low dev h) div 65536" using False s(1) by metis
  then have "c h div 65536 < c (after_low dev h) div 65536" using div_le_mono [OF s(2), of 65536] by linarith
  then have "65536 * Suc (c h div 65536) \<le> 65536 * (c (after_low dev h) div 65536)" by (intro mult_le_mono2 Suc_leI)
  also have "\<dots> \<le> c (after_low dev h)" by (rule times_div_less_eq_dividend)
  finally have lo: "65536 * Suc (c h div 65536) \<le> c (after_low dev h)" .
  have hi: "c h < 65536 * Suc (c h div 65536)" by (simp add: dividend_less_times_div)
  obtain q where "65536 * q \<le> c (after_low dev h)" "c h < 65536 * q" using lo hi by blast
  then have "x div 65536 = q" if "c (after_low dev h) \<le> x" "x < c h + 65536" for x
    using that by (intro div_nat_eqI) auto
  then have "c ?k div 65536 = q" "c (after_low dev ?k) div 65536 = q" using s(3-6) by simp_all
  then have "c ?k div 65536 = c (after_low dev ?k) div 65536" by simp
  then have k: "dev ?k CNT_2S = dev (after_low dev ?k) CNT_2S" using s(1) by simp
  show ?thesis using round [of dev h] round [of dev ?k] False k round_value [OF assms k] by (intro exI [of _ ?k]) simp
qed

text \<open>A count that advances by one with every read, begun just before a rollover.\<close>

theorem counter_never_torn_witness:
  "shows_count (\<lambda>h r. if r = CNT_2S then word_of_nat ((65534 + length h) div 65536) else word_of_nat ((65534 + length h) mod 65536)) (\<lambda>h. 65534 + length h)
   \<and> (\<exists>t. counter_ticks (\<lambda>h r. if r = CNT_2S then word_of_nat ((65534 + length h) div 65536) else word_of_nat ((65534 + length h) mod 65536)) []
        = Some (65538, t))"
proof -
  let ?dev = "\<lambda>h r. if r = CNT_2S then word_of_nat ((65534 + length h) div 65536) else word_of_nat ((65534 + length h) mod 65536) :: u16"
  have s: "shows_count ?dev (\<lambda>h. 65534 + length h)"
    by (auto simp: shows_count_def after_high_def after_low_def after_round_def)
  obtain k where k: "k = [] \<or> k = after_round ?dev []"
    and c: "counter_ticks ?dev [] = Some (word_of_nat (65534 + length (after_high ?dev k)), after_round ?dev k)"
    using counter_never_torn [OF s, of "[]"] by auto
  have "?dev [] CNT_2S \<noteq> ?dev (after_low ?dev []) CNT_2S" by (simp add: after_low_def after_high_def)
  then have "counter_ticks ?dev [] = counter_ticks ?dev (after_round ?dev [])" using round [of ?dev "[]"] by simp
  moreover have "?dev (after_round ?dev []) CNT_2S = ?dev (after_low ?dev (after_round ?dev [])) CNT_2S"
    by (simp add: after_round_def after_low_def after_high_def)
  ultimately have "\<exists>v. counter_ticks ?dev [] = Some (v, after_round ?dev (after_round ?dev []))" using round [of ?dev "after_round ?dev []"] by simp
  with c have "length (after_round ?dev k) = length (after_round ?dev (after_round ?dev []))" by simp
  then have "length k = 3" by (simp add: after_round_def after_low_def after_high_def)
  with c s show ?thesis by (auto simp: after_high_def)
qed

end
