(* ===== verification/Adc.thy ===== *)
theory Adc
  imports Prelude
begin

text \<open>
  The converter driver of \<^verbatim>\<open>src/adc.rs\<close>. Its registers are reached through the register crate, so each
  field access is an event; the device is any function from the history to the start bit and the data read.
\<close>

section \<open>Model\<close>

datatype SamplingClock = Mhz3_2 | Mhz2_67 | Mhz5_33 | Mhz4
datatype Gain = Minus12Db | Minus6Db | ZeroDb | Plus6Db
datatype adc_channel =
    Pa4 | Pa5 | Pa12 | Pa13 | Pa14 | Pa15 | Pa3 | Pa2 | Pa1 | Pa0 | Pa6 | Pa7 | Pa8 | Pa9 | Internal

primrec clock_code :: "SamplingClock \<Rightarrow> u8" where
  "clock_code Mhz3_2 = 0" | "clock_code Mhz2_67 = 1" | "clock_code Mhz5_33 = 2" | "clock_code Mhz4 = 3"

primrec gain_code :: "Gain \<Rightarrow> u8" where
  "gain_code Minus12Db = 0" | "gain_code Minus6Db = 1" | "gain_code ZeroDb = 2" | "gain_code Plus6Db = 3"

primrec channel_code :: "adc_channel \<Rightarrow> u8" where
  "channel_code Pa4 = 0" | "channel_code Pa5 = 1" | "channel_code Pa12 = 2" | "channel_code Pa13 = 3"
| "channel_code Pa14 = 4" | "channel_code Pa15 = 5" | "channel_code Pa3 = 6" | "channel_code Pa2 = 7"
| "channel_code Pa1 = 8" | "channel_code Pa0 = 9" | "channel_code Pa6 = 10" | "channel_code Pa7 = 11"
| "channel_code Pa8 = 12" | "channel_code Pa9 = 13" | "channel_code Internal = 15"

record adc_config =
  ad_clock :: SamplingClock
  ad_gain :: Gain
  ad_differential :: bool
  ad_buffer_enabled :: bool
  ad_offset_test :: bool

definition adc_config_default :: adc_config where
  "adc_config_default = \<lparr>ad_clock = Mhz3_2, ad_gain = Minus6Db, ad_differential = False, ad_buffer_enabled = True, ad_offset_test = False\<rparr>"

definition temperature :: adc_config where
  "temperature = \<lparr>ad_clock = Mhz3_2, ad_gain = Plus6Db, ad_differential = True, ad_buffer_enabled = False, ad_offset_test = False\<rparr>"

definition offset_noise :: adc_config where
  "offset_noise = \<lparr>ad_clock = Mhz3_2, ad_gain = Minus6Db, ad_differential = False, ad_buffer_enabled = False, ad_offset_test = True\<rparr>"

datatype adc_error = Adc_Timeout

text \<open>\<open>Cfg_Modify\<close> sets the power bit and the fields diff, clock, buffer, gain and offset test.\<close>

datatype adc_event =
    Cfg_Modify bool u8 bool u8 bool | Cfg_Power_Off | Tem_Power bool
  | Channel_Write u8 | Convert_Start | Convert_Read bool | Data_Read u16

type_synonym adc_bus = "adc_event list"

record adc_device =
  dev_start :: "adc_bus \<Rightarrow> bool"
  dev_data :: "adc_bus \<Rightarrow> u16"

definition set_config :: "adc_config \<Rightarrow> adc_bus \<Rightarrow> adc_bus" where
  "set_config config h = h @ [Cfg_Modify (ad_differential config) (clock_code (ad_clock config)) (ad_buffer_enabled config)
     (gain_code (ad_gain config)) (ad_offset_test config)]"

definition adc_new :: "adc_config \<Rightarrow> adc_bus \<Rightarrow> adc_bus" where
  "adc_new config h = set_config config h"

definition enable_temperature :: "adc_bus \<Rightarrow> adc_bus" where
  "enable_temperature h = h @ [Tem_Power True]"

definition disable_temperature :: "adc_bus \<Rightarrow> adc_bus" where
  "disable_temperature h = h @ [Tem_Power False]"

definition MAX_POLLS :: nat where "MAX_POLLS = 4096"

primrec convert_polls :: "adc_device \<Rightarrow> nat \<Rightarrow> adc_bus \<Rightarrow> (adc_error + u16) \<times> adc_bus" where
  "convert_polls dev 0 h = (Inl Adc_Timeout, h)"
| "convert_polls dev (Suc n) h =
     (let start = dev_start dev h; h1 = h @ [Convert_Read start] in
      if \<not> start then (Inr (dev_data dev h1), h1 @ [Data_Read (dev_data dev h1)])
      else convert_polls dev n h1)"

definition adc_read :: "adc_device \<Rightarrow> adc_channel \<Rightarrow> adc_bus \<Rightarrow> (adc_error + u16) \<times> adc_bus" where
  "adc_read dev ch h = convert_polls dev MAX_POLLS (h @ [Channel_Write (channel_code ch), Convert_Start])"

definition adc_drop :: "adc_bus \<Rightarrow> adc_bus" where
  "adc_drop h = h @ [Tem_Power False, Cfg_Power_Off]"

section \<open>Properties\<close>

lemma convert_polls_ok:
  "convert_polls dev n h = (res, h') \<Longrightarrow>
     \<exists>k t. h' = h @ replicate k (Convert_Read True) @ t \<and> k \<le> n
       \<and> (case res of Inl e \<Rightarrow> k = n \<and> t = []
          | Inr v \<Rightarrow> k < n \<and> t = [Convert_Read False, Data_Read v] \<and> v = dev_data dev (h @ replicate k (Convert_Read True) @ [Convert_Read False]))"
proof (induction n arbitrary: h)
  case 0
  then show ?case by auto
next
  case (Suc n)
  show ?case
  proof (cases "dev_start dev h")
    case False
    then have "res = Inr (dev_data dev (h @ [Convert_Read False]))" "h' = h @ [Convert_Read False, Data_Read (dev_data dev (h @ [Convert_Read False]))]"
      using Suc.prems by (auto simp: Let_def)
    then show ?thesis by (intro exI [of _ 0]) simp
  next
    case True
    then have "convert_polls dev n (h @ [Convert_Read True]) = (res, h')" using Suc.prems by (simp add: Let_def)
    from Suc.IH [OF this] obtain k t where
      "h' = (h @ [Convert_Read True]) @ replicate k (Convert_Read True) @ t" "k \<le> n"
      "case res of Inl e \<Rightarrow> k = n \<and> t = []
       | Inr v \<Rightarrow> k < n \<and> t = [Convert_Read False, Data_Read v]
           \<and> v = dev_data dev ((h @ [Convert_Read True]) @ replicate k (Convert_Read True) @ [Convert_Read False])" by blast
    then show ?thesis by (intro exI [of _ "Suc k"] exI [of _ t]) (auto split: sum.splits)
  qed
qed

text \<open>
  One conversion, on any device: it selects the channel, starts, and polls at most 4096 times. A value is
  the data read right after the first poll that shows the conversion finished; without such a
  poll the result is a timeout. Distinct channels have distinct codes within the four-bit field.
\<close>

theorem adc_read_exact:
  "\<exists>k t. snd (adc_read dev ch h) = h @ [Channel_Write (channel_code ch), Convert_Start] @ replicate k (Convert_Read True) @ t
     \<and> (case fst (adc_read dev ch h) of Inl e \<Rightarrow> k = 4096 \<and> t = []
        | Inr v \<Rightarrow> k < 4096 \<and> t = [Convert_Read False, Data_Read v]
            \<and> v = dev_data dev (h @ [Channel_Write (channel_code ch), Convert_Start] @ replicate k (Convert_Read True) @ [Convert_Read False]))
     \<and> channel_code ch < 16 \<and> (channel_code ch = channel_code ch' \<longleftrightarrow> ch = ch')"
proof -
  let ?r = "adc_read dev ch h"
  have "convert_polls dev MAX_POLLS (h @ [Channel_Write (channel_code ch), Convert_Start]) = (fst ?r, snd ?r)" by (simp add: adc_read_def)
  from convert_polls_ok [OF this] obtain k t where
    "snd ?r = (h @ [Channel_Write (channel_code ch), Convert_Start]) @ replicate k (Convert_Read True) @ t"
    "case fst ?r of Inl e \<Rightarrow> k = MAX_POLLS \<and> t = []
     | Inr v \<Rightarrow> k < MAX_POLLS \<and> t = [Convert_Read False, Data_Read v]
         \<and> v = dev_data dev ((h @ [Channel_Write (channel_code ch), Convert_Start]) @ replicate k (Convert_Read True) @ [Convert_Read False])"
    by blast
  moreover have "channel_code ch < 16" by (cases ch) simp_all
  moreover have "channel_code ch = channel_code ch' \<longleftrightarrow> ch = ch'" by (cases ch; cases ch') simp_all
  ultimately show ?thesis by (intro exI [of _ k] exI [of _ t]) (simp add: MAX_POLLS_def split: sum.splits)
qed

end
