(* ===== verification/System_Clock.thy ===== *)
theory System_Clock
  imports Prelude
begin

text \<open>
  Start-up of the chip: the critical section of \<^verbatim>\<open>src/critical_section_impl.rs\<close>, the singleton gate and
  the protected transaction of \<^verbatim>\<open>src/lib.rs\<close>, and the clock set-up of \<^verbatim>\<open>src/sysctl.rs\<close> for both chips. A
  device is any function from the history of accesses to the value read. The registers of the CH582
  are reached through the register crate, so their field accesses are events of their own; the
  CH585 code writes addresses. Delays, fences and \<open>nop\<close>s only take time. \<open>None\<close> is a failed
  assertion. \<open>bracketed\<close> is what \<open>critical_section::with\<close> documents: acquire, run, release.
\<close>

section \<open>Model\<close>

datatype pac_access =
    Wdog_Count_Zero | Ck32k_Xt_Power | Ck32k_Select_Xt | Ck32k_Select_Internal
  | Read_Xt32m_Power bool | Xt32m_Power | Pll_Config_Clear_5 | Read_Pll_Power bool | Pll_Power
  | Clk_Sys_Pll_Div_8 | Flash_Cfg_52 | Pll_Config_Set_7

datatype sys_event =
    R8 u32 u8 | W8 u32 u8 | R16 u32 u16 | W16 u32 u16 | R32 u32 u32 | W32 u32 u32
  | Csr_Clear u32 u32 | Csr_Set u32 | Pac pac_access | Hclk_Store u32

type_synonym sys_bus = "sys_event list"

record sys_device =
  dev8 :: "sys_bus \<Rightarrow> u32 \<Rightarrow> u8"
  dev16 :: "sys_bus \<Rightarrow> u32 \<Rightarrow> u16"
  dev32 :: "sys_bus \<Rightarrow> u32 \<Rightarrow> u32"
  dev_csr :: "sys_bus \<Rightarrow> u32"
  dev_xt32m :: "sys_bus \<Rightarrow> bool"
  dev_pll :: "sys_bus \<Rightarrow> bool"

definition sys_emit :: "sys_event \<Rightarrow> sys_bus \<Rightarrow> sys_bus" where
  "sys_emit e h = h @ [e]"

definition sys_steps :: "(sys_bus \<Rightarrow> sys_bus) list \<Rightarrow> sys_bus \<Rightarrow> sys_bus" where
  "sys_steps ss h = fold (\<lambda>s h. s h) ss h"

definition update8 :: "sys_device \<Rightarrow> u32 \<Rightarrow> (u8 \<Rightarrow> u8) \<Rightarrow> sys_bus \<Rightarrow> sys_bus" where
  "update8 dev a f h = h @ [R8 a (dev8 dev h a), W8 a (f (dev8 dev h a))]"

definition update32 :: "sys_device \<Rightarrow> u32 \<Rightarrow> (u32 \<Rightarrow> u32) \<Rightarrow> sys_bus \<Rightarrow> sys_bus" where
  "update32 dev a f h = h @ [R32 a (dev32 dev h a), W32 a (f (dev32 dev h a))]"

subsection \<open>Critical section\<close>

definition GLOBAL_INTERRUPT_ENABLE :: u32 where "GLOBAL_INTERRUPT_ENABLE = 0x08"
definition GLOBAL_INTERRUPT_STATE_MASK :: u32 where "GLOBAL_INTERRUPT_STATE_MASK = 0x88"

definition disable_and_save :: "sys_device \<Rightarrow> sys_bus \<Rightarrow> bool \<times> sys_bus" where
  "disable_and_save dev h =
     (let previous = dev_csr dev h
      in (previous AND GLOBAL_INTERRUPT_ENABLE \<noteq> 0, h @ [Csr_Clear GLOBAL_INTERRUPT_STATE_MASK previous]))"

definition enable_interrupts :: "sys_bus \<Rightarrow> sys_bus" where
  "enable_interrupts h = h @ [Csr_Set GLOBAL_INTERRUPT_STATE_MASK]"

definition acquire :: "sys_device \<Rightarrow> sys_bus \<Rightarrow> bool \<times> sys_bus" where
  "acquire dev h = disable_and_save dev h"

definition release_section :: "bool \<Rightarrow> sys_bus \<Rightarrow> sys_bus" where
  "release_section was_enabled h = (if was_enabled then enable_interrupts h else h)"

definition bracketed :: "sys_device \<Rightarrow> (sys_bus \<Rightarrow> sys_bus) \<Rightarrow> sys_bus \<Rightarrow> sys_bus" where
  "bracketed dev f h = (let (was, h1) = acquire dev h in release_section was (f h1))"

subsection \<open>Protected transactions\<close>

definition SAFE_MODE_CTRL :: u32 where "SAFE_MODE_CTRL = 0x40001010"
definition SAFE_ACCESS :: u32 where "SAFE_ACCESS = 0x40001040"
definition SAFE_AUTO_EN :: u8 where "SAFE_AUTO_EN = 0x01"

definition with_safe_access :: "sys_device \<Rightarrow> (sys_bus \<Rightarrow> sys_bus) \<Rightarrow> sys_bus \<Rightarrow> sys_bus" where
  "with_safe_access dev f = bracketed dev (sys_steps
     [sys_emit (W8 SAFE_ACCESS 0x57), sys_emit (W8 SAFE_ACCESS 0xa8), f, sys_emit (W8 SAFE_ACCESS 0)])"

definition with_ch585_safe_access :: "sys_device \<Rightarrow> (sys_bus \<Rightarrow> sys_bus) \<Rightarrow> sys_bus \<Rightarrow> sys_bus" where
  "with_ch585_safe_access dev f = bracketed dev (sys_steps
     [update8 dev SAFE_MODE_CTRL (\<lambda>v. v AND NOT SAFE_AUTO_EN),
      sys_emit (W8 SAFE_ACCESS 0x57), sys_emit (W8 SAFE_ACCESS 0xa8),
      f,
      update8 dev SAFE_MODE_CTRL (\<lambda>v. v OR SAFE_AUTO_EN),
      sys_emit (W8 SAFE_ACCESS 0)])"

subsection \<open>Clock configuration\<close>

record clock_config =
  hclk_hz :: u32
  enable_hse :: bool
  enable_lse :: bool

datatype chip = Ch582 | Ch585

definition clock_config_default :: "chip \<Rightarrow> clock_config" where
  "clock_config_default c =
     \<lparr>hclk_hz = (case c of Ch582 \<Rightarrow> 60000000 | Ch585 \<Rightarrow> 62400000), enable_hse = True, enable_lse = False\<rparr>"

definition power_xt32m :: "sys_device \<Rightarrow> sys_bus \<Rightarrow> sys_bus" where
  "power_xt32m dev h =
     (let on = dev_xt32m dev h; h1 = h @ [Pac (Read_Xt32m_Power on)]
      in if \<not> on then with_safe_access dev (sys_emit (Pac Xt32m_Power)) h1 else h1)"

definition power_pll :: "sys_device \<Rightarrow> sys_bus \<Rightarrow> sys_bus" where
  "power_pll dev h =
     (let on = dev_pll dev h; h1 = h @ [Pac (Read_Pll_Power on)]
      in if \<not> on then with_safe_access dev (sys_emit (Pac Pll_Power)) h1 else h1)"

definition freeze_ch582 :: "sys_device \<Rightarrow> clock_config \<Rightarrow> sys_bus \<Rightarrow> sys_bus option" where
  "freeze_ch582 dev config h =
     (if hclk_hz config \<noteq> 60000000 \<or> \<not> enable_hse config then None
      else Some (sys_steps
        ([sys_emit (Pac Wdog_Count_Zero)]
         @ (if enable_lse config then
              [with_safe_access dev (sys_emit (Pac Ck32k_Xt_Power)),
               sys_emit (Pac Wdog_Count_Zero),
               with_safe_access dev (sys_emit (Pac Ck32k_Select_Xt))]
            else [with_safe_access dev (sys_emit (Pac Ck32k_Select_Internal))])
         @ [power_xt32m dev,
            with_safe_access dev (sys_emit (Pac Pll_Config_Clear_5)),
            power_pll dev,
            with_safe_access dev (sys_emit (Pac Clk_Sys_Pll_Div_8)),
            with_safe_access dev (sys_emit (Pac Flash_Cfg_52)),
            with_safe_access dev (sys_emit (Pac Pll_Config_Set_7)),
            sys_emit (Hclk_Store (hclk_hz config))]) h))"

definition CLK_SYS_CFG :: u32 where "CLK_SYS_CFG = 0x40001008"
definition HFCK_PWR_CTRL :: u32 where "HFCK_PWR_CTRL = 0x4000100a"
definition CK32K_CONFIG :: u32 where "CK32K_CONFIG = 0x4000102f"
definition WATCHDOG_COUNT :: u32 where "WATCHDOG_COUNT = 0x40001043"
definition MISC_CTRL :: u32 where "MISC_CTRL = 0x40001048"
definition PLL_CONFIG :: u32 where "PLL_CONFIG = 0x4000104b"
definition XT32M_TUNE :: u32 where "XT32M_TUNE = 0x4000104e"
definition FLASH_SCK :: u32 where "FLASH_SCK = 0x40001805"
definition FLASH_CFG :: u32 where "FLASH_CFG = 0x40001807"
definition CLK_RC16M_PON :: u8 where "CLK_RC16M_PON = 0x02"
definition CLK_XT32M_PON :: u8 where "CLK_XT32M_PON = 0x04"
definition CLK_PLL_PON :: u8 where "CLK_PLL_PON = 0x10"
definition CLK_XT32K_PON :: u8 where "CLK_XT32K_PON = 0x01"
definition CLK_INT32K_PON :: u8 where "CLK_INT32K_PON = 0x02"
definition CLK_OSC32K_XT :: u8 where "CLK_OSC32K_XT = 0x04"
definition HSI_PLL_62M4 :: u16 where "HSI_PLL_62M4 = 0x0145"
definition HSE_PLL_62M4 :: u16 where "HSE_PLL_62M4 = 0x0345"

definition highcode_init :: "sys_device \<Rightarrow> sys_bus \<Rightarrow> sys_bus" where
  "highcode_init dev = sys_steps
     [update32 dev SAFE_MODE_CTRL (\<lambda>v. v OR 0x10),
      update32 dev MISC_CTRL (\<lambda>v. v OR 5 OR push_bit 25 3),
      update8 dev PLL_CONFIG (\<lambda>v. v AND NOT (push_bit 5 1)),
      update8 dev HFCK_PWR_CTRL (\<lambda>v. v OR CLK_RC16M_PON OR CLK_PLL_PON),
      sys_emit (W16 CLK_SYS_CFG HSI_PLL_62M4),
      update8 dev FLASH_SCK (\<lambda>v. v AND NOT (push_bit 4 1)),
      sys_emit (W8 FLASH_CFG 0x02),
      update8 dev XT32M_TUNE (\<lambda>v. (v AND NOT 0x03) OR 0x01),
      update8 dev CK32K_CONFIG (\<lambda>v. v OR CLK_INT32K_PON)]"

definition start_hse :: "sys_device \<Rightarrow> sys_bus \<Rightarrow> sys_bus" where
  "start_hse dev h =
     (let power = dev8 dev h HFCK_PWR_CTRL; h1 = h @ [R8 HFCK_PWR_CTRL power] in
      if power AND CLK_XT32M_PON = 0 then
        (let tune = dev8 dev h1 XT32M_TUNE;
             h2 = update8 dev HFCK_PWR_CTRL (\<lambda>v. v OR CLK_XT32M_PON) (h1 @ [R8 XT32M_TUNE tune, W8 XT32M_TUNE (tune OR 0x03)]);
             previous = dev16 dev h2 CLK_SYS_CFG
         in h2 @ [R16 CLK_SYS_CFG previous, W16 CLK_SYS_CFG (previous OR 0x00c0), W16 CLK_SYS_CFG previous, W8 XT32M_TUNE tune])
      else h1)"

definition select_clock :: "sys_device \<Rightarrow> sys_bus \<Rightarrow> sys_bus" where
  "select_clock dev = sys_steps
     [update32 dev SAFE_MODE_CTRL (\<lambda>v. v OR 0x10),
      start_hse dev,
      update8 dev HFCK_PWR_CTRL (\<lambda>v. v OR CLK_PLL_PON),
      update8 dev FLASH_SCK (\<lambda>v. v AND NOT (push_bit 4 1)),
      sys_emit (W8 FLASH_CFG 0x01),
      sys_emit (W16 CLK_SYS_CFG (HSE_PLL_62M4 OR 0x00c0)),
      sys_emit (W16 CLK_SYS_CFG HSE_PLL_62M4)]"

definition select_32k :: "sys_device \<Rightarrow> bool \<Rightarrow> sys_bus \<Rightarrow> sys_bus" where
  "select_32k dev lse = sys_steps
     (if lse then
        [with_ch585_safe_access dev (update8 dev CK32K_CONFIG (\<lambda>v. v OR CLK_XT32K_PON)),
         sys_emit (W8 WATCHDOG_COUNT 0),
         with_ch585_safe_access dev (update8 dev CK32K_CONFIG (\<lambda>v. v OR CLK_OSC32K_XT))]
      else [with_ch585_safe_access dev (update8 dev CK32K_CONFIG (\<lambda>v. (v AND NOT CLK_OSC32K_XT) OR CLK_INT32K_PON))])"

definition freeze_ch585 :: "sys_device \<Rightarrow> clock_config \<Rightarrow> sys_bus \<Rightarrow> sys_bus option" where
  "freeze_ch585 dev config h =
     (if hclk_hz config \<noteq> 62400000 \<or> \<not> enable_hse config then None
      else Some (sys_steps
        [sys_emit (W8 WATCHDOG_COUNT 0),
         with_ch585_safe_access dev (highcode_init dev),
         select_32k dev (enable_lse config),
         with_ch585_safe_access dev (select_clock dev),
         sys_emit (Hclk_Store (hclk_hz config))] h))"

definition freeze :: "chip \<Rightarrow> sys_device \<Rightarrow> clock_config \<Rightarrow> sys_bus \<Rightarrow> sys_bus option" where
  "freeze c = (case c of Ch582 \<Rightarrow> freeze_ch582 | Ch585 \<Rightarrow> freeze_ch585)"

text \<open>\<open>hclk_hz()\<close>: the last stored value, or the initial one.\<close>

definition stored_hclk :: "sys_bus \<Rightarrow> u32" where
  "stored_hclk h = fold (\<lambda>e v. case e of Hclk_Store w \<Rightarrow> w | _ \<Rightarrow> v) h 6400000"

subsection \<open>Singleton gate\<close>

definition claim_peripherals :: "bool \<Rightarrow> bool \<times> bool" where
  "claim_peripherals taken = (if taken then (False, taken) else (True, True))"

datatype claim_call = Init clock_config | Take

text \<open>The gate and the registers after a call; \<open>Inl\<close> is a panic, \<open>Inr\<close> whether the caller got the peripherals.\<close>

definition init_hal :: "chip \<Rightarrow> sys_device \<Rightarrow> clock_config \<Rightarrow> bool \<Rightarrow> sys_bus \<Rightarrow> (unit + bool) \<times> bool \<times> sys_bus" where
  "init_hal c dev config taken h =
     (let (won, taken') = claim_peripherals taken in
      if \<not> won then (Inl (), taken', h)
      else case freeze c dev config h of None \<Rightarrow> (Inl (), taken', h) | Some h' \<Rightarrow> (Inr True, taken', h'))"

definition take_hal :: "bool \<Rightarrow> bool \<times> bool" where
  "take_hal taken = claim_peripherals taken"


section \<open>Lemmas: protected windows\<close>

text \<open>
  A monitor of the accesses: the progress of the unlock sequence, the automatic expiry of the window,
  whether interrupts are masked, and whether every protected write so far was inside an open window
  with interrupts masked (and, at the addresses of the CH585, without automatic expiry).
\<close>

record guard =
  g_open :: nat
  g_auto :: bool
  g_masked :: bool
  g_ok :: bool

definition protect :: "guard \<Rightarrow> guard" where
  "protect g = g\<lparr>g_ok := g_ok g \<and> g_open g = 2 \<and> \<not> g_auto g \<and> g_masked g\<rparr>"

primrec pac_protected :: "pac_access \<Rightarrow> bool" where
  "pac_protected Wdog_Count_Zero = False"
| "pac_protected Ck32k_Xt_Power = True"
| "pac_protected Ck32k_Select_Xt = True"
| "pac_protected Ck32k_Select_Internal = True"
| "pac_protected (Read_Xt32m_Power b) = False"
| "pac_protected Xt32m_Power = True"
| "pac_protected Pll_Config_Clear_5 = True"
| "pac_protected (Read_Pll_Power b) = False"
| "pac_protected Pll_Power = True"
| "pac_protected Clk_Sys_Pll_Div_8 = True"
| "pac_protected Flash_Cfg_52 = True"
| "pac_protected Pll_Config_Set_7 = True"

fun guard_step :: "guard \<Rightarrow> sys_event \<Rightarrow> guard" where
  "guard_step g (W8 a v) =
     (if a = SAFE_ACCESS then g\<lparr>g_open := (if v = 0x57 then 1 else if v = 0xa8 \<and> g_open g = 1 then 2 else 0)\<rparr>
      else if a = SAFE_MODE_CTRL then g\<lparr>g_auto := bit v 0\<rparr>
      else if a = WATCHDOG_COUNT then g else protect g)"
| "guard_step g (W16 a v) = protect g"
| "guard_step g (W32 a v) = (if a = SAFE_MODE_CTRL then (protect g)\<lparr>g_auto := bit v 0\<rparr> else protect g)"
| "guard_step g (Csr_Clear m v) = g\<lparr>g_masked := True\<rparr>"
| "guard_step g (Csr_Set m) = g\<lparr>g_masked := False\<rparr>"
| "guard_step g (Pac p) = (if pac_protected p then g\<lparr>g_ok := g_ok g \<and> g_open g = 2 \<and> g_masked g\<rparr> else g)"
| "guard_step g _ = g"

definition guards :: "guard \<Rightarrow> sys_bus \<Rightarrow> guard" where
  "guards g0 h = foldl guard_step g0 h"

lemma guards_append [simp]: "guards g0 (h @ t) = foldl guard_step (guards g0 h) t"
  by (simp add: guards_def)

text \<open>
  Hardware that reads back the automatic-expiry bit it was last given and reports in the control
  register whether interrupts are enabled.
\<close>

definition faithful :: "guard \<Rightarrow> sys_device \<Rightarrow> bool" where
  "faithful g0 dev \<longleftrightarrow> (\<forall>h. bit (dev32 dev h SAFE_MODE_CTRL) 0 = g_auto (guards g0 h)
     \<and> (dev_csr dev h AND GLOBAL_INTERRUPT_ENABLE \<noteq> 0) = (\<not> g_masked (guards g0 h)))"

definition unlocked585 :: "guard \<Rightarrow> bool" where
  "unlocked585 g \<longleftrightarrow> g_open g = 2 \<and> \<not> g_auto g \<and> g_masked g"

text \<open>What may run inside a window: it leaves the monitor as it is there.\<close>

definition secure :: "guard \<Rightarrow> (sys_bus \<Rightarrow> sys_bus) \<Rightarrow> bool" where
  "secure g0 f \<longleftrightarrow> (\<forall>h. unlocked585 (guards g0 h) \<longrightarrow> guards g0 (f h) = guards g0 h)"

lemma protect_unlocked [simp]: "unlocked585 g \<Longrightarrow> protect g = g"
  by (simp add: protect_def unlocked585_def)

lemmas clock_addresses = SAFE_MODE_CTRL_def SAFE_ACCESS_def CLK_SYS_CFG_def HFCK_PWR_CTRL_def CK32K_CONFIG_def WATCHDOG_COUNT_def
  MISC_CTRL_def PLL_CONFIG_def XT32M_TUNE_def FLASH_SCK_def FLASH_CFG_def

lemma sys_steps_simps [simp]: "sys_steps [] h = h" "sys_steps (s # ss) h = sys_steps ss (s h)"
  by (simp_all add: sys_steps_def)

lemma secure_steps: "\<forall>s \<in> set ss. secure g0 s \<Longrightarrow> secure g0 (sys_steps ss)"
proof (induction ss)
  case Nil
  then show ?case by (simp add: secure_def)
next
  case (Cons s ss)
  then have "secure g0 s" "secure g0 (sys_steps ss)" by simp_all
  then show ?case unfolding secure_def sys_steps_simps by metis
qed

lemma secure_update8: "a \<noteq> SAFE_ACCESS \<Longrightarrow> a \<noteq> SAFE_MODE_CTRL \<Longrightarrow> secure g0 (update8 dev a f)"
  by (simp add: secure_def update8_def)

lemma secure_update32: "a \<noteq> SAFE_MODE_CTRL \<Longrightarrow> secure g0 (update32 dev a f)"
  by (simp add: secure_def update32_def)

lemma secure_safe_mode: "faithful g0 dev \<Longrightarrow> secure g0 (update32 dev SAFE_MODE_CTRL (\<lambda>v. v OR 0x10))"
  by (simp add: secure_def update32_def faithful_def unlocked585_def bit_simps)

lemma secure_emit: "secure g0 (sys_emit (W16 a v))" "a \<noteq> SAFE_ACCESS \<Longrightarrow> a \<noteq> SAFE_MODE_CTRL \<Longrightarrow> secure g0 (sys_emit (W8 a w))"
  by (simp_all add: secure_def sys_emit_def)

lemma secure_start_hse: "secure g0 (start_hse dev)"
  by (simp add: secure_def start_hse_def update8_def Let_def clock_addresses)

lemmas secure_rules = secure_update8 secure_update32 secure_safe_mode secure_emit secure_start_hse

lemma secure_highcode: "faithful g0 dev \<Longrightarrow> secure g0 (highcode_init dev)"
  unfolding highcode_init_def by (rule secure_steps) (simp add: secure_rules, simp add: secure_rules clock_addresses)

lemma secure_select_clock: "faithful g0 dev \<Longrightarrow> secure g0 (select_clock dev)"
  unfolding select_clock_def by (rule secure_steps) (simp add: secure_rules, simp add: secure_rules clock_addresses)

text \<open>A critical section leaves the interrupts as it found them, whatever runs inside keeps them masked.\<close>

lemma bracketed_guards:
  assumes "faithful g0 dev" "\<And>h. g_masked (guards g0 h) \<Longrightarrow> g_masked (guards g0 (f h))"
  shows "guards g0 (bracketed dev f h) =
    (guards g0 (f (h @ [Csr_Clear GLOBAL_INTERRUPT_STATE_MASK (dev_csr dev h)])))\<lparr>g_masked := g_masked (guards g0 h)\<rparr>"
proof -
  let ?k = "h @ [Csr_Clear GLOBAL_INTERRUPT_STATE_MASK (dev_csr dev h)]"
  have "g_masked (guards g0 (f ?k))" using assms(2) [of ?k] by simp
  moreover have "(dev_csr dev h AND GLOBAL_INTERRUPT_ENABLE \<noteq> 0) = (\<not> g_masked (guards g0 h))"
    using assms(1) by (simp add: faithful_def)
  ultimately show ?thesis
    by (cases "g_masked (guards g0 h)")
       (simp_all add: bracketed_def acquire_def disable_and_save_def release_section_def enable_interrupts_def)
qed

text \<open>The two kinds of window, on code that may run inside them.\<close>

lemma window585:
  assumes "faithful g0 dev" "secure g0 f"
  shows "guards g0 (with_ch585_safe_access dev f h) = (guards g0 h)\<lparr>g_open := 0, g_auto := True\<rparr>"
proof -
  let ?in = "sys_steps [update8 dev SAFE_MODE_CTRL (\<lambda>v. v AND NOT SAFE_AUTO_EN), sys_emit (W8 SAFE_ACCESS 0x57),
      sys_emit (W8 SAFE_ACCESS 0xa8), f, update8 dev SAFE_MODE_CTRL (\<lambda>v. v OR SAFE_AUTO_EN), sys_emit (W8 SAFE_ACCESS 0)]"
  have inner: "guards g0 (?in k) = (guards g0 k)\<lparr>g_open := 0, g_auto := True\<rparr>" if "g_masked (guards g0 k)" for k
  proof -
    let ?k = "sys_steps [update8 dev SAFE_MODE_CTRL (\<lambda>v. v AND NOT SAFE_AUTO_EN), sys_emit (W8 SAFE_ACCESS 0x57), sys_emit (W8 SAFE_ACCESS 0xa8)] k"
    have k: "guards g0 ?k = (guards g0 k)\<lparr>g_open := 2, g_auto := False\<rparr>"
      by (simp add: update8_def sys_emit_def clock_addresses SAFE_AUTO_EN_def bit_simps)
    then have "unlocked585 (guards g0 ?k)" using that by (simp add: unlocked585_def)
    then have "guards g0 (f ?k) = (guards g0 k)\<lparr>g_open := 2, g_auto := False\<rparr>" using assms(2) k unfolding secure_def by metis
    then show ?thesis by (simp add: update8_def sys_emit_def clock_addresses SAFE_AUTO_EN_def bit_simps)
  qed
  then show ?thesis
    unfolding with_ch585_safe_access_def by (subst bracketed_guards [OF assms(1)]) (simp_all only: guard.simps, simp_all)
qed

lemma window582:
  assumes "faithful g0 dev" "pac_protected p"
  shows "guards g0 (with_safe_access dev (sys_emit (Pac p)) h) = (guards g0 h)\<lparr>g_open := 0\<rparr>"
  unfolding with_safe_access_def
  by (subst bracketed_guards [OF assms(1)]) (simp_all add: sys_emit_def assms(2))

text \<open>Statements that add no violation and leave the interrupts as they are.\<close>

definition sound :: "guard \<Rightarrow> (sys_bus \<Rightarrow> sys_bus) \<Rightarrow> bool" where
  "sound g0 f \<longleftrightarrow> (\<forall>h. g_ok (guards g0 (f h)) = g_ok (guards g0 h) \<and> g_masked (guards g0 (f h)) = g_masked (guards g0 h))"

lemma sound_steps: "\<forall>s \<in> set ss. sound g0 s \<Longrightarrow> sound g0 (sys_steps ss)"
  by (induction ss) (simp_all add: sound_def)

lemma sound_windows:
  "faithful g0 dev \<Longrightarrow> secure g0 f \<Longrightarrow> sound g0 (with_ch585_safe_access dev f)"
  "faithful g0 dev \<Longrightarrow> pac_protected p \<Longrightarrow> sound g0 (with_safe_access dev (sys_emit (Pac p)))"
  by (simp_all add: sound_def window585 window582)

lemma sound_emit:
  "\<not> pac_protected p \<Longrightarrow> sound g0 (sys_emit (Pac p))" "sound g0 (sys_emit (Hclk_Store v))" "sound g0 (sys_emit (W8 WATCHDOG_COUNT w))"
  by (simp_all add: sound_def sys_emit_def clock_addresses)

lemma sound_power: "faithful g0 dev \<Longrightarrow> sound g0 (power_xt32m dev)" "faithful g0 dev \<Longrightarrow> sound g0 (power_pll dev)"
  by (simp_all add: sound_def power_xt32m_def power_pll_def Let_def window582)

lemma sound_select_32k: "faithful g0 dev \<Longrightarrow> sound g0 (select_32k dev lse)"
  unfolding select_32k_def
  by (rule sound_steps) (simp add: sound_windows sound_emit secure_update8 CK32K_CONFIG_def SAFE_ACCESS_def SAFE_MODE_CTRL_def)

lemma sys_steps_append: "sys_steps (xs @ ys) h = sys_steps ys (sys_steps xs h)"
  by (simp add: sys_steps_def)

lemma guards_store [simp]: "guards g0 (sys_emit (Hclk_Store v) h) = guards g0 h"
  by (simp add: sys_emit_def)

lemma stored_hclk_emit [simp]: "stored_hclk (sys_emit (Hclk_Store v) h) = v"
  by (simp add: stored_hclk_def sys_emit_def)

section \<open>Lemmas: final register values\<close>

definition clk_sys_written :: "sys_bus \<Rightarrow> u16 option" where
  "clk_sys_written h = fold (\<lambda>e v. case e of W16 a w \<Rightarrow> if a = CLK_SYS_CFG then Some w else v | _ \<Rightarrow> v) h None"

definition ck32k_written :: "sys_bus \<Rightarrow> u8 option" where
  "ck32k_written h = fold (\<lambda>e v. case e of W8 a w \<Rightarrow> if a = CK32K_CONFIG then Some w else v | _ \<Rightarrow> v) h None"

lemma written_bracketed [simp]:
  "clk_sys_written (bracketed dev f h) = clk_sys_written (f (h @ [Csr_Clear GLOBAL_INTERRUPT_STATE_MASK (dev_csr dev h)]))"
  "ck32k_written (bracketed dev f h) = ck32k_written (f (h @ [Csr_Clear GLOBAL_INTERRUPT_STATE_MASK (dev_csr dev h)]))"
  by (simp_all add: bracketed_def acquire_def disable_and_save_def release_section_def enable_interrupts_def
      clk_sys_written_def ck32k_written_def Let_def)

lemma written_update [simp]:
  "ck32k_written (update8 dev a f h) = (if a = CK32K_CONFIG then Some (f (dev8 dev h a)) else ck32k_written h)"
  "ck32k_written (update32 dev a g h) = ck32k_written h"
  "clk_sys_written (update8 dev a f h) = clk_sys_written h"
  "ck32k_written (sys_emit (W16 a w) h) = ck32k_written h"
  "ck32k_written (sys_emit (W8 a v) h) = (if a = CK32K_CONFIG then Some v else ck32k_written h)"
  "clk_sys_written (sys_emit (W8 a v) h) = clk_sys_written h"
  "clk_sys_written (sys_emit (W16 a w) h) = (if a = CLK_SYS_CFG then Some w else clk_sys_written h)"
  "ck32k_written (sys_emit (Hclk_Store x) h) = ck32k_written h" "clk_sys_written (sys_emit (Hclk_Store x) h) = clk_sys_written h"
  by (simp_all add: update8_def update32_def sys_emit_def clk_sys_written_def ck32k_written_def)

lemma ck32k_csr: "ck32k_written (h @ [Csr_Clear m v]) = ck32k_written h"
  by (simp add: ck32k_written_def)

lemma ck32k_start_hse [simp]: "ck32k_written (start_hse dev h) = ck32k_written h"
  by (simp add: start_hse_def Let_def update8_def ck32k_written_def clock_addresses)

text \<open>
  What the register crate's accesses select on the CH582: which oscillators are on, as last read or
  switched on, the 32 kHz source, and whether the PLL was made the system clock while the crystal and the PLL
  were on, the flash timing set after that and the PLL tuned last.
\<close>

record clock_tree =
  ct_xt32m :: bool
  ct_pll :: bool
  ct_xt32k :: bool
  ct_32k_crystal :: "bool option"
  ct_system_pll :: bool
  ct_flash :: bool
  ct_tuned :: bool

primrec clock_tree_step :: "clock_tree \<Rightarrow> pac_access \<Rightarrow> clock_tree" where
  "clock_tree_step t Wdog_Count_Zero = t"
| "clock_tree_step t Ck32k_Xt_Power = t\<lparr>ct_xt32k := True\<rparr>"
| "clock_tree_step t Ck32k_Select_Xt = t\<lparr>ct_32k_crystal := (if ct_xt32k t then Some True else None)\<rparr>"
| "clock_tree_step t Ck32k_Select_Internal = t\<lparr>ct_32k_crystal := Some False\<rparr>"
| "clock_tree_step t (Read_Xt32m_Power b) = t\<lparr>ct_xt32m := b\<rparr>"
| "clock_tree_step t Xt32m_Power = t\<lparr>ct_xt32m := True\<rparr>"
| "clock_tree_step t Pll_Config_Clear_5 = t\<lparr>ct_tuned := False\<rparr>"
| "clock_tree_step t (Read_Pll_Power b) = t\<lparr>ct_pll := b\<rparr>"
| "clock_tree_step t Pll_Power = t\<lparr>ct_pll := True\<rparr>"
| "clock_tree_step t Clk_Sys_Pll_Div_8 = t\<lparr>ct_system_pll := ct_xt32m t \<and> ct_pll t\<rparr>"
| "clock_tree_step t Flash_Cfg_52 = t\<lparr>ct_flash := ct_system_pll t\<rparr>"
| "clock_tree_step t Pll_Config_Set_7 = t\<lparr>ct_tuned := ct_flash t\<rparr>"

definition clock_tree_of :: "sys_bus \<Rightarrow> clock_tree" where
  "clock_tree_of h = foldl (\<lambda>t e. case e of Pac p \<Rightarrow> clock_tree_step t p | _ \<Rightarrow> t)
     \<lparr>ct_xt32m = False, ct_pll = False, ct_xt32k = False, ct_32k_crystal = None, ct_system_pll = False, ct_flash = False,
      ct_tuned = False\<rparr> h"

lemma clock_tree_events [simp]:
  "clock_tree_of (h @ [Pac p]) = clock_tree_step (clock_tree_of h) p"
  "clock_tree_of (sys_emit (Pac p) h) = clock_tree_step (clock_tree_of h) p"
  "clock_tree_of (sys_emit (W8 a v) h) = clock_tree_of h"
  "clock_tree_of (sys_emit (Hclk_Store x) h) = clock_tree_of h"
  by (simp_all add: clock_tree_of_def sys_emit_def)

lemma clock_tree_bracketed:
  "clock_tree_of (bracketed dev f h) = clock_tree_of (f (h @ [Csr_Clear GLOBAL_INTERRUPT_STATE_MASK (dev_csr dev h)]))"
  "clock_tree_of (h @ [Csr_Clear m v]) = clock_tree_of h"
  by (simp_all add: bracketed_def acquire_def disable_and_save_def release_section_def enable_interrupts_def
      clock_tree_of_def Let_def)

lemma clock_tree_window [simp]:
  "clock_tree_of (with_safe_access dev (sys_emit (Pac p)) h) = clock_tree_step (clock_tree_of h) p"
  by (simp add: with_safe_access_def clock_tree_bracketed)

lemma clock_tree_power [simp]:
  "clock_tree_of (power_xt32m dev h) = (clock_tree_of h)\<lparr>ct_xt32m := True\<rparr>"
  "clock_tree_of (power_pll dev h) = (clock_tree_of h)\<lparr>ct_pll := True\<rparr>"
  by (simp_all add: power_xt32m_def power_pll_def Let_def)

lemma freeze_ch582_tree:
  assumes "freeze_ch582 dev config h = Some h'"
  shows "ct_system_pll (clock_tree_of h') \<and> ct_xt32m (clock_tree_of h') \<and> ct_pll (clock_tree_of h')
    \<and> ct_32k_crystal (clock_tree_of h') = Some (enable_lse config) \<and> ct_flash (clock_tree_of h') \<and> ct_tuned (clock_tree_of h')"
  using assms by (auto simp: freeze_ch582_def split: if_split_asm)

lemma freeze_refused:
  "freeze c dev config h = None \<longleftrightarrow> hclk_hz config \<noteq> hclk_hz (clock_config_default c) \<or> \<not> enable_hse config"
  by (cases c) (simp_all add: freeze_def freeze_ch582_def freeze_ch585_def clock_config_default_def)

lemma freeze_ch582_guarded:
  assumes "faithful g0 dev" "freeze_ch582 dev config h = Some h'"
  shows "g_ok (guards g0 h') = g_ok (guards g0 h)" "g_open (guards g0 h') = 0"
    "g_masked (guards g0 h') = g_masked (guards g0 h)" "stored_hclk h' = hclk_hz config"
proof -
  let ?head = "[sys_emit (Pac Wdog_Count_Zero)]
         @ (if enable_lse config then
              [with_safe_access dev (sys_emit (Pac Ck32k_Xt_Power)), sys_emit (Pac Wdog_Count_Zero),
               with_safe_access dev (sys_emit (Pac Ck32k_Select_Xt))]
            else [with_safe_access dev (sys_emit (Pac Ck32k_Select_Internal))])
         @ [power_xt32m dev, with_safe_access dev (sys_emit (Pac Pll_Config_Clear_5)), power_pll dev,
            with_safe_access dev (sys_emit (Pac Clk_Sys_Pll_Div_8)), with_safe_access dev (sys_emit (Pac Flash_Cfg_52))]"
  define k where "k = sys_steps ?head h"
  have "sound g0 (sys_steps ?head)"
    by (rule sound_steps) (simp add: sound_windows sound_emit sound_power assms(1))
  then have k: "g_ok (guards g0 k) = g_ok (guards g0 h)" "g_masked (guards g0 k) = g_masked (guards g0 h)"
    by (simp_all only: sound_def k_def)
  have h': "h' = sys_emit (Hclk_Store (hclk_hz config)) (with_safe_access dev (sys_emit (Pac Pll_Config_Set_7)) k)"
    using assms(2) by (simp add: freeze_ch582_def k_def split: if_split_asm)
  show "g_ok (guards g0 h') = g_ok (guards g0 h)" "g_open (guards g0 h') = 0"
    "g_masked (guards g0 h') = g_masked (guards g0 h)" "stored_hclk h' = hclk_hz config"
    using k by (simp_all add: h' window582 [OF assms(1)])
qed

lemma freeze_ch585_guarded:
  assumes "faithful g0 dev" "freeze_ch585 dev config h = Some h'"
  shows "g_ok (guards g0 h') = g_ok (guards g0 h)" "g_open (guards g0 h') = 0" "g_auto (guards g0 h')"
    "g_masked (guards g0 h') = g_masked (guards g0 h)" "stored_hclk h' = hclk_hz config" "clk_sys_written h' = Some HSE_PLL_62M4"
    "\<exists>v. ck32k_written h' = Some v \<and> bit v 2 = enable_lse config \<and> (bit v 1 \<or> enable_lse config)"
proof -
  let ?head = "[sys_emit (W8 WATCHDOG_COUNT 0), with_ch585_safe_access dev (highcode_init dev), select_32k dev (enable_lse config)]"
  define k where "k = sys_steps ?head h"
  have "sound g0 (sys_steps ?head)"
    by (rule sound_steps) (simp add: sound_windows sound_emit sound_select_32k secure_highcode assms(1))
  then have k: "g_ok (guards g0 k) = g_ok (guards g0 h)" "g_masked (guards g0 k) = g_masked (guards g0 h)"
    by (simp_all only: sound_def k_def)
  have h': "h' = sys_emit (Hclk_Store (hclk_hz config)) (with_ch585_safe_access dev (select_clock dev) k)"
    using assms(2) by (simp add: freeze_ch585_def k_def split: if_split_asm)
  show "g_ok (guards g0 h') = g_ok (guards g0 h)" "g_open (guards g0 h') = 0" "g_auto (guards g0 h')"
    "g_masked (guards g0 h') = g_masked (guards g0 h)" "stored_hclk h' = hclk_hz config"
    using k by (simp_all add: h' window585 [OF assms(1) secure_select_clock [OF assms(1)]])
  show "clk_sys_written h' = Some HSE_PLL_62M4" by (simp add: h' with_ch585_safe_access_def select_clock_def)
  have "ck32k_written h' = ck32k_written k"
    by (simp add: h' with_ch585_safe_access_def select_clock_def ck32k_csr clock_addresses)
  moreover have "\<exists>v. ck32k_written (select_32k dev lse x) = Some v \<and> bit v 2 = lse \<and> (bit v 1 \<or> lse)" for lse x
    by (cases lse) (simp_all add: select_32k_def with_ch585_safe_access_def clock_addresses CLK_OSC32K_XT_def CLK_INT32K_PON_def bit_simps)
  ultimately show "\<exists>v. ck32k_written h' = Some v \<and> bit v 2 = enable_lse config \<and> (bit v 1 \<or> enable_lse config)"
    by (simp add: k_def)
qed

section \<open>Properties\<close>

text \<open>
  C20. Clock set-up of both chips on hardware that reads back what it was given. It panics, before any
  access, exactly on a configuration other than the supported one. Otherwise every protected register is
  written inside an open protected window with interrupts masked, on the CH585 also with
  the automatic expiry switched off; at the end the window is closed, interrupts are as they were, and the
  recorded clock is the requested one. On the CH582 the crystal and the PLL are on, the PLL was made the system
  clock only then, the flash timing was set after it and the PLL tuned last, and the 32 kHz source is the
  requested one. On the CH585 the automatic expiry is on again, the system clock selects the external
  crystal's PLL, and the 32 kHz source is the requested one.
\<close>

theorem freeze_guarded:
  assumes "faithful g0 dev"
  shows "case freeze c dev config h of
      None \<Rightarrow> hclk_hz config \<noteq> hclk_hz (clock_config_default c) \<or> \<not> enable_hse config
    | Some h' \<Rightarrow>
        hclk_hz config = hclk_hz (clock_config_default c) \<and> enable_hse config
        \<and> g_ok (guards g0 h') = g_ok (guards g0 h) \<and> g_open (guards g0 h') = 0 \<and> g_masked (guards g0 h') = g_masked (guards g0 h)
        \<and> stored_hclk h' = hclk_hz config
        \<and> (c = Ch582 \<longrightarrow> ct_system_pll (clock_tree_of h') \<and> ct_xt32m (clock_tree_of h') \<and> ct_pll (clock_tree_of h')
             \<and> ct_32k_crystal (clock_tree_of h') = Some (enable_lse config)
             \<and> ct_flash (clock_tree_of h') \<and> ct_tuned (clock_tree_of h'))
        \<and> (c = Ch585 \<longrightarrow> g_auto (guards g0 h') \<and> clk_sys_written h' = Some HSE_PLL_62M4
             \<and> (\<exists>v. ck32k_written h' = Some v \<and> bit v 2 = enable_lse config \<and> (bit v 1 \<or> enable_lse config)))"
proof (cases "freeze c dev config h")
  case None
  then show ?thesis using freeze_refused [of c dev config h] by simp
next
  case (Some h')
  have ok: "hclk_hz config = hclk_hz (clock_config_default c) \<and> enable_hse config"
    using freeze_refused [of c dev config h] Some by simp
  show ?thesis
  proof (cases c)
    case Ch582
    then have f: "freeze_ch582 dev config h = Some h'" using Some by (simp add: freeze_def)
    show ?thesis using Ch582 Some ok freeze_ch582_tree [OF f] by (simp add: freeze_ch582_guarded [OF assms f])
  next
    case Ch585
    then have f: "freeze_ch585 dev config h = Some h'" using Some by (simp add: freeze_def)
    show ?thesis using Ch585 Some ok freeze_ch585_guarded(7) [OF assms f] by (simp add: freeze_ch585_guarded(1-6) [OF assms f])
  qed
qed

text \<open>The reset state, and a device that behaves as the monitor says.\<close>

definition reset_guard :: guard where
  "reset_guard = \<lparr>g_open = 0, g_auto = True, g_masked = False, g_ok = True\<rparr>"

definition memory_device :: "guard \<Rightarrow> sys_device" where
  "memory_device g0 = \<lparr>dev8 = \<lambda>_ _. 0, dev16 = \<lambda>_ _. 0, dev32 = \<lambda>h _. if g_auto (guards g0 h) then 1 else 0,
     dev_csr = \<lambda>h. if g_masked (guards g0 h) then 0 else 0x88, dev_xt32m = \<lambda>_. False, dev_pll = \<lambda>_. False\<rparr>"

lemma memory_device_faithful: "faithful g0 (memory_device g0)"
  by (simp add: faithful_def memory_device_def GLOBAL_INTERRUPT_ENABLE_def)

theorem freeze_guarded_witness:
  "(\<exists>h'. freeze Ch582 (memory_device reset_guard) (clock_config_default Ch582) [] = Some h'
     \<and> g_ok (guards reset_guard h') \<and> stored_hclk h' = 60000000 \<and> ct_system_pll (clock_tree_of h')
     \<and> ct_32k_crystal (clock_tree_of h') = Some False)
   \<and> (\<exists>h'. freeze Ch585 (memory_device reset_guard) (clock_config_default Ch585) [] = Some h'
     \<and> g_ok (guards reset_guard h') \<and> g_open (guards reset_guard h') = 0 \<and> \<not> g_masked (guards reset_guard h')
     \<and> stored_hclk h' = 62400000 \<and> clk_sys_written h' = Some 0x0345)"
  using freeze_guarded [OF memory_device_faithful, where ?g0.0 = reset_guard and c = Ch585 and config = "clock_config_default Ch585" and h = "[]"]
    freeze_guarded [OF memory_device_faithful, where ?g0.0 = reset_guard and c = Ch582 and config = "clock_config_default Ch582" and h = "[]"]
  by (auto simp: clock_config_default_def HSE_PLL_62M4_def guards_def reset_guard_def split: option.splits)

text \<open>
  The control register of a hart whose own sections are the only code that changes it: a section
  whose body ends with the register as it began leaves both interrupt bits equal to the enable bit it
  found, so a nested section never enables the interrupts of the outer one.
\<close>

definition csr_run :: "u32 \<Rightarrow> sys_bus \<Rightarrow> u32" where
  "csr_run c h = foldl (\<lambda>v e. case e of Csr_Clear m _ \<Rightarrow> v AND NOT m | Csr_Set m \<Rightarrow> v OR m | _ \<Rightarrow> v) c h"

theorem critical_section_restores:
  assumes "\<And>h. dev_csr dev h = csr_run c h" "\<And>h. csr_run c (f h) = csr_run c h"
  shows "csr_run c (bracketed dev f h) =
    (if bit (csr_run c h) 3 then csr_run c h OR GLOBAL_INTERRUPT_STATE_MASK else csr_run c h AND NOT GLOBAL_INTERRUPT_STATE_MASK)"
proof -
  have b: "(v AND GLOBAL_INTERRUPT_ENABLE \<noteq> 0) = bit v 3" for v :: u32
    using and_exp_eq_0_iff_not_bit [of v 3] by (simp add: GLOBAL_INTERRUPT_ENABLE_def)
  have "(v AND NOT m) OR m = v OR m" for v m :: u32 by (rule bit_eqI) (auto simp: bit_simps)
  then show ?thesis
    using assms b
    by (simp add: bracketed_def acquire_def disable_and_save_def release_section_def enable_interrupts_def Let_def)
       (simp add: csr_run_def)
qed

text \<open>A run of calls of \<open>init\<close> and \<open>take\<close>, and how many of them got the peripherals.\<close>

primrec claims :: "chip \<Rightarrow> sys_device \<Rightarrow> claim_call list \<Rightarrow> bool \<Rightarrow> sys_bus \<Rightarrow> nat" where
  "claims c dev [] taken h = 0"
| "claims c dev (call # calls) taken h =
     (case call of
        Init config \<Rightarrow> (let (r, taken', h') = init_hal c dev config taken h
                         in (if r = Inr True then 1 else 0) + claims c dev calls taken' h')
      | Take \<Rightarrow> (let (won, taken') = take_hal taken in (if won then 1 else 0) + claims c dev calls taken' h))"

theorem peripherals_claimed_once: "claims c dev calls taken h \<le> (if taken then 0 else 1)"
proof (induction calls arbitrary: taken h)
  case (Cons call calls)
  have "claims c dev calls True k \<le> 0" for k using Cons.IH [of True k] by simp
  then show ?case
    by (cases call) (auto simp: init_hal_def take_hal_def claim_peripherals_def split: option.splits)
qed simp

end
