(* ===== verification/Radio_Bus.thy ===== *)
theory Radio_Bus
  imports Prelude
begin

text \<open>
  Ground of the radio driver in \<^verbatim>\<open>crates/ch58x-ble\<close>: DMA length policy (\<^verbatim>\<open>radio_dma_policy.rs\<close>), packet
  layout and countdowns (\<^verbatim>\<open>radio_phy.rs\<close>), interrupt acknowledgement (\<^verbatim>\<open>radio_rx_status.rs\<close>) and the
  registers of \<^verbatim>\<open>radio.rs\<close>. The hardware, the DMA engine, the baseband interrupt between two
  instructions and the clock are one arbitrary device: every volatile read, DMA read, clock read and
  load of a flag shared with the interrupt returns any function of the history. Spin hints have no effect.
\<close>

section \<open>Length policy, packet layout, countdowns\<close>

definition MAX_LL_DATA_PAYLOAD_LEN :: nat where "MAX_LL_DATA_PAYLOAD_LEN = 27"
definition MAX_LEGACY_ADV_PAYLOAD_LEN :: nat where "MAX_LEGACY_ADV_PAYLOAD_LEN = 37"
definition RF_DMA_BUFFER_LEN :: nat where "RF_DMA_BUFFER_LEN = 64"
definition LL_HEADER_LEN :: nat where "LL_HEADER_LEN = 2"
definition MAX_LEGACY_ADV_WIRE_LEN :: nat where "MAX_LEGACY_ADV_WIRE_LEN = LL_HEADER_LEN + MAX_LEGACY_ADV_PAYLOAD_LEN"
definition MAX_DATA_WIRE_LEN :: nat where "MAX_DATA_WIRE_LEN = LL_HEADER_LEN + MAX_LL_DATA_PAYLOAD_LEN"
definition CONNECTION_RX_MAX_WIRE_PAYLOAD_LEN :: nat where "CONNECTION_RX_MAX_WIRE_PAYLOAD_LEN = MAX_LL_DATA_PAYLOAD_LEN"

datatype ReceiveLengthPolicy = Accepted (accepted_len: nat) | PhysicalDmaOverflow | UnsupportedCapability

definition classify_received_length :: "bool \<Rightarrow> nat \<Rightarrow> ReceiveLengthPolicy" where
  "classify_received_length advertising payload_len =
     (let wire_len = LL_HEADER_LEN + payload_len in
      if wire_len > RF_DMA_BUFFER_LEN then PhysicalDmaOverflow
      else if wire_len > (if advertising then MAX_LEGACY_ADV_WIRE_LEN else MAX_DATA_WIRE_LEN) then UnsupportedCapability
      else Accepted wire_len)"

definition legacy_request_payload_len_is_valid :: "u8 \<Rightarrow> nat \<Rightarrow> bool" where
  "legacy_request_payload_len_is_valid pdu_type payload_len \<longleftrightarrow>
     (pdu_type, payload_len) = (0x03, 12) \<or> (pdu_type, payload_len) = (0x05, 34)"

text \<open>The bank after \<open>encode_transmit_buffer\<close>; the callers have bounded the packet.\<close>

definition encode_transmit_buffer :: "bytes \<Rightarrow> bytes" where
  "encode_transmit_buffer packet = splice (replicate RF_DMA_BUFFER_LEN 0) 0 packet"

definition tx_1m_countdown :: "nat \<Rightarrow> u32" where
  "tx_1m_countdown packet_len = push_bit 1 ((word_of_nat packet_len + 2) * 8 + 0xee)"

definition rx_1m_capture_countdown :: "nat \<Rightarrow> u32" where
  "rx_1m_capture_countdown max_packet_len = push_bit 4 (word_of_nat max_packet_len + 5) + 0x3c"

definition rx_to_tx_timing :: "u8 \<Rightarrow> u32" where
  "rx_to_tx_timing received_len = 0x76"

definition capture_ack :: "u32 \<Rightarrow> u32" where
  "capture_ack status = status AND push_bit 6 1"

section \<open>Registers\<close>

text \<open>One constructor for each kind of access.\<close>

datatype radio_event =
    RegRead u32 u32 | RegWrite u32 u32 | HalfWrite u32 u16
  | RxByte nat u8 | ClockRead nat
  | CaptureSeenLoad bool | CaptureSeenStore bool | CountdownLoad u32 | CountdownStore u32
  | TxStage bytes | ResponseStage bytes | RxFill
  | IrqEnable | IrqDisable | IrqUnpend
  | DiagnosticStore nat u32 | DiagnosticAdd nat

type_synonym radio_bus = "radio_event list"

record radio_device =
  dev_reg :: "radio_bus \<Rightarrow> u32 \<Rightarrow> u32"
  dev_rx :: "radio_bus \<Rightarrow> nat \<Rightarrow> u8"
  dev_now :: "radio_bus \<Rightarrow> nat"
  dev_capture_seen :: "radio_bus \<Rightarrow> bool"
  dev_countdown :: "radio_bus \<Rightarrow> u32"
  tx_address :: u32
  response_address :: u32
  rx_address :: u32

definition reg_read :: "radio_device \<Rightarrow> u32 \<Rightarrow> radio_bus \<Rightarrow> u32 \<times> radio_bus" where
  "reg_read dev a h = (dev_reg dev h a, h @ [RegRead a (dev_reg dev h a)])"

definition reg_write :: "u32 \<Rightarrow> u32 \<Rightarrow> radio_bus \<Rightarrow> radio_bus" where
  "reg_write a v h = h @ [RegWrite a v]"

definition reg_modify :: "radio_device \<Rightarrow> u32 \<Rightarrow> (u32 \<Rightarrow> u32) \<Rightarrow> radio_bus \<Rightarrow> radio_bus" where
  "reg_modify dev a f h = (let (v, h1) = reg_read dev a h in reg_write a (f v) h1)"

definition half_write :: "u32 \<Rightarrow> u16 \<Rightarrow> radio_bus \<Rightarrow> radio_bus" where
  "half_write a v h = h @ [HalfWrite a v]"

definition read_dma_byte :: "radio_device \<Rightarrow> nat \<Rightarrow> radio_bus \<Rightarrow> u8 \<times> radio_bus" where
  "read_dma_byte dev i h = (dev_rx dev h i, h @ [RxByte i (dev_rx dev h i)])"

definition clock :: "radio_device \<Rightarrow> radio_bus \<Rightarrow> nat \<times> radio_bus" where
  "clock dev h = (dev_now dev h, h @ [ClockRead (dev_now dev h)])"

definition record_event :: "radio_event \<Rightarrow> radio_bus \<Rightarrow> radio_bus" where
  "record_event e h = h @ [e]"

text \<open>Statements in sequence.\<close>

definition steps :: "(radio_bus \<Rightarrow> radio_bus) list \<Rightarrow> radio_bus \<Rightarrow> radio_bus" where
  "steps fs h = fold (\<lambda>f h. f h) fs h"

definition BB_BASE :: u32 where "BB_BASE = 0x4000c100"
definition LLE_BASE :: u32 where "LLE_BASE = 0x4000c200"
definition RFEND_BASE :: u32 where "RFEND_BASE = 0x4000d000"
definition TX_POWER_0_DBM :: u8 where "TX_POWER_0_DBM = 0x15"
definition BB_TX_POWER_MASK :: u32 where "BB_TX_POWER_MASK = 0x7e000000"
definition BB_INTERRUPT_STATUS_MASK :: u32 where "BB_INTERRUPT_STATUS_MASK = 0x1f0"
definition MAX_OPERATION_POLLS :: nat where "MAX_OPERATION_POLLS = 65536"
definition BB_MODE_MASK :: u32 where "BB_MODE_MASK = 0x300"
definition BB_MODE_IDLE :: u32 where "BB_MODE_IDLE = 0x100"
definition BB_MODE_ACTIVE :: u32 where "BB_MODE_ACTIVE = 0x200"
definition LLE_MODE_IDLE :: u32 where "LLE_MODE_IDLE = 0x00030000"
definition LLE_MODE_CALIBRATION :: u32 where "LLE_MODE_CALIBRATION = 0x00030558"
definition LLE_MODE_RX :: u32 where "LLE_MODE_RX = 0x00030158"
definition LLE_MODE_TX :: u32 where "LLE_MODE_TX = 0x00030258"
definition LLE_TX_BUFFER_OFFSET :: u32 where "LLE_TX_BUFFER_OFFSET = 0x78"
definition LLE_RX_BUFFER_OFFSET :: u32 where "LLE_RX_BUFFER_OFFSET = 0x7c"
definition LLE_STATUS_RX_COMPLETE :: u32 where "LLE_STATUS_RX_COMPLETE = push_bit 0 1"
definition LLE_STATUS_TX_COMPLETE :: u32 where "LLE_STATUS_TX_COMPLETE = push_bit 1 1"
definition LLE_STATUS_RX_TO_TX :: u32 where "LLE_STATUS_RX_TO_TX = push_bit 2 1"
definition LLE_STATUS_TX_TO_RX :: u32 where "LLE_STATUS_TX_TO_RX = push_bit 3 1"
definition LLE_STATUS_RX_CAPTURE_COMPLETE :: u32 where "LLE_STATUS_RX_CAPTURE_COMPLETE = push_bit 17 1"
definition LLE_STATUS_TIMING :: u32 where "LLE_STATUS_TIMING = LLE_STATUS_RX_CAPTURE_COMPLETE"
definition LLE_1M_TRANSITION_COUNTDOWN :: u32 where "LLE_1M_TRANSITION_COUNTDOWN = 0x18e"
definition LEGACY_ADV_RX_MAX_LEN :: nat where "LEGACY_ADV_RX_MAX_LEN = MAX_LEGACY_ADV_PAYLOAD_LEN"
definition CONNECTION_EVENT_RX_BUFFER_LEN :: nat where
  "CONNECTION_EVENT_RX_BUFFER_LEN = 2 + CONNECTION_RX_MAX_WIRE_PAYLOAD_LEN"
definition LEGACY_ADV_RESPONSE_WINDOW_US :: nat where "LEGACY_ADV_RESPONSE_WINDOW_US = 650"
definition RF_DMA_LIMITS_MAGIC :: u32 where "RF_DMA_LIMITS_MAGIC = 0x52464c31"

definition bb_config :: u32 where "bb_config = BB_BASE + 0x00"
definition bb_tx_crc_init :: u32 where "bb_tx_crc_init = BB_BASE + 0x04"
definition bb_tx_access_address :: u32 where "bb_tx_access_address = BB_BASE + 0x08"
definition bb_receive_config_10 :: u32 where "bb_receive_config_10 = BB_BASE + 0x10"
definition bb_receive_config_18 :: u32 where "bb_receive_config_18 = BB_BASE + 0x18"
definition bb_tx_control :: u32 where "bb_tx_control = BB_BASE + 0x2c"
definition bb_rssi_status :: u32 where "bb_rssi_status = BB_BASE + 0x30"
definition bb_interrupt_enable :: u32 where "bb_interrupt_enable = BB_BASE + 0x34"
definition bb_interrupt_status :: u32 where "bb_interrupt_status = BB_BASE + 0x38"
definition bb_config_3c :: u32 where "bb_config_3c = BB_BASE + 0x3c"
definition lle_command :: u32 where "lle_command = LLE_BASE + 0x00"
definition lle_config :: u32 where "lle_config = LLE_BASE + 0x04"
definition lle_status :: u32 where "lle_status = LLE_BASE + 0x08"
definition lle_interrupt_enable :: u32 where "lle_interrupt_enable = LLE_BASE + 0x0c"
definition lle_rx_to_tx_timing :: u32 where "lle_rx_to_tx_timing = LLE_BASE + 0x1c"
definition lle_mode :: u32 where "lle_mode = LLE_BASE + 0x50"
definition lle_operation_countdown :: u32 where "lle_operation_countdown = LLE_BASE + 0x64"
definition lle_tx_buffer :: u32 where "lle_tx_buffer = LLE_BASE + LLE_TX_BUFFER_OFFSET"
definition lle_rx_buffer :: u32 where "lle_rx_buffer = LLE_BASE + LLE_RX_BUFFER_OFFSET"

end
