(* ===== verification/Rf_Calibration.thy ===== *)
theory Rf_Calibration
  imports Prelude "HOL-Library.Signed_Division"
begin

text \<open>
  The tuning-table generator of \<^verbatim>\<open>rf_calibration.rs\<close>. The \<open>i32\<close> intermediates stay below
  255 * 42 in absolute value, so they are \<open>int\<close> and Rust's truncating division is \<open>sdiv\<close>.
\<close>

section \<open>Model\<close>

definition TABLE_WORDS :: nat where "TABLE_WORDS = 13"

record Measurement =
  co :: u8
  ga :: u8

datatype calibration_error = DegenerateCoarseRange

definition put_nibble :: "u32 list \<Rightarrow> nat \<Rightarrow> int \<Rightarrow> u32 list" where
  "put_nibble table slot v =
     table[slot div 8 := table ! (slot div 8) OR push_bit ((slot mod 8) * 4) (word_of_int v AND 0x0f)]"

definition build_table :: "Measurement \<Rightarrow> Measurement \<Rightarrow> Measurement \<Rightarrow> calibration_error + u32 list" where
  "build_table mhz_2401 mhz_2440 mhz_2480 =
     (let low_co_delta = uint (co mhz_2401) - uint (co mhz_2440);
          high_co_delta = uint (co mhz_2440) - uint (co mhz_2480)
      in if low_co_delta = 0 \<or> high_co_delta = 0 then Inl DegenerateCoarseRange
         else (let low_ga_delta = uint (ga mhz_2401) - uint (ga mhz_2440);
                   high_ga_delta = uint (ga mhz_2440) - uint (ga mhz_2480);
                   table = replicate TABLE_WORDS 0;
                   table = fold (\<lambda>slot t. put_nibble t slot (low_co_delta * (39 - int slot) sdiv 39)) [0..<40] table;
                   table = fold (\<lambda>step t. put_nibble t (39 + step) (high_co_delta * int step sdiv 40)) [1..<43] table;
                   table = fold (\<lambda>step t. put_nibble t (82 + (10 - step)) ((high_ga_delta * int step sdiv high_co_delta) OR 0x08))
                             (rev [1..<11]) table;
                   table = fold (\<lambda>step t. put_nibble t (92 + step) (low_ga_delta * int step sdiv low_co_delta)) [0..<11] table
               in Inr table))"

section \<open>Lemmas\<close>

text \<open>The four bits the hardware reads at a slot.\<close>

definition nibble :: "u32 list \<Rightarrow> nat \<Rightarrow> u32" where
  "nibble table slot = drop_bit ((slot mod 8) * 4) (table ! (slot div 8)) AND 0x0f"

lemma length_put_nibble [simp]: "length (put_nibble t s v) = length t"
  by (simp add: put_nibble_def)

lemma bit_15 [simp]: "bit (15 :: int) n \<longleftrightarrow> n < 4"
proof -
  have "(15 :: int) = mask 4" by (simp add: mask_eq_exp_minus_1)
  then show ?thesis by (simp only: bit_mask_iff possible_bit_def) simp
qed

lemma nibble_put:
  assumes "s < 8 * length t"
  shows "nibble (put_nibble t s v) s' = (if s' = s then nibble t s' OR (word_of_int v AND 0x0f) else nibble t s')"
proof (cases "s' div 8 = s div 8")
  case False
  then show ?thesis by (auto simp: nibble_def put_nibble_def)
next
  case True
  have l: "s div 8 < length t" using assms by auto
  show ?thesis
  proof (rule bit_eqI)
    fix n
    have e: "s' = s \<longleftrightarrow> s' mod 8 = s mod 8" using True by (metis div_mult_mod_eq)
    have "n < 4 \<Longrightarrow> \<not> s' = s \<Longrightarrow> \<not> (s mod 8 * 4 \<le> s' mod 8 * 4 + n \<and> s' mod 8 * 4 + n - s mod 8 * 4 < 4)"
      unfolding e by auto
    moreover have "n < 4 \<Longrightarrow> s' mod 8 * 4 + n < 32" using mod_less_divisor [of 8 s'] by linarith
    ultimately show "bit (nibble (put_nibble t s v) s') n
        \<longleftrightarrow> bit (if s' = s then nibble t s' OR (word_of_int v AND 0x0f) else nibble t s') n"
      using True l by (auto simp: nibble_def put_nibble_def bit_simps)
  qed
qed

text \<open>A loop of writes to distinct slots: each written slot gets its value, the others keep theirs.\<close>

lemma length_put_fold [simp]: "length (fold (\<lambda>x t. put_nibble t (f x) (g x)) xs t) = length t"
  by (induction xs arbitrary: t) auto

lemma nibble_miss:
  "\<forall>x\<in>set xs. f x < 8 * length t \<and> f x \<noteq> s \<Longrightarrow> nibble (fold (\<lambda>x t. put_nibble t (f x) (g x)) xs t) s = nibble t s"
  by (induction xs arbitrary: t) (auto simp: nibble_put)

lemma nibble_hit:
  "distinct (map f xs) \<Longrightarrow> \<forall>x\<in>set xs. f x < 8 * length t \<Longrightarrow> x \<in> set xs \<Longrightarrow>
   nibble (fold (\<lambda>x t. put_nibble t (f x) (g x)) xs t) (f x) = nibble t (f x) OR (word_of_int (g x) AND 0x0f)"
proof (induction xs arbitrary: t)
  case (Cons y xs)
  show ?case
  proof (cases "x = y")
    case True
    then have "\<forall>z\<in>set xs. f z < 8 * length (put_nibble t (f y) (g y)) \<and> f z \<noteq> f x"
      using Cons.prems by (auto simp: image_iff)
    from nibble_miss [OF this, of g] show ?thesis using True Cons.prems by (simp add: nibble_put)
  next
    case False
    then have x: "x \<in> set xs" using Cons.prems by simp
    then have "f x \<noteq> f y" using Cons.prems(1) by (auto simp: image_iff)
    then show ?thesis using Cons.IH [of "put_nibble t (f y) (g y)"] Cons.prems x by (simp add: nibble_put)
  qed
qed simp

text \<open>The same with the written slots given by a predicate and an inverse of \<open>f\<close>.\<close>

lemma nibble_loop:
  assumes "\<And>x. x \<in> set xs \<Longrightarrow> f x < 8 * length t \<and> p (f x) \<and> r (f x) = x" "p s \<Longrightarrow> r s \<in> set xs \<and> f (r s) = s" "distinct xs"
  shows "nibble (fold (\<lambda>x t. put_nibble t (f x) (g x)) xs t) s
    = (if p s then nibble t s OR (word_of_int (g (r s)) AND 0x0f) else nibble t s)"
proof (cases "p s")
  case True
  have "distinct (map f xs)" using assms(1,3) unfolding distinct_map by (metis inj_on_inverseI)
  from nibble_hit [OF this, of t "r s" g] show ?thesis using True assms(1,2) by auto
next
  case False
  then show ?thesis using nibble_miss [of xs f t s g] assms(1) by fastforce
qed

lemma build_table_length: "build_table a b c = Inr t \<Longrightarrow> length t = 13"
  by (auto simp: build_table_def Let_def TABLE_WORDS_def split: if_splits)

lemma nibble_zero [simp]: "slot < 104 \<Longrightarrow> nibble (replicate TABLE_WORDS 0) slot = 0"
  by (auto simp: nibble_def TABLE_WORDS_def)

text \<open>The correction each slot is meant to hold.\<close>

definition correction :: "int \<Rightarrow> int \<Rightarrow> int \<Rightarrow> int \<Rightarrow> nat \<Rightarrow> int" where
  "correction low_co high_co low_ga high_ga slot =
     (if slot < 40 then low_co * (39 - int slot) sdiv 39
      else if slot < 82 then high_co * (int slot - 39) sdiv 40
      else if slot < 92 then (high_ga * (92 - int slot) sdiv high_co) OR 0x08
      else if slot < 103 then low_ga * (int slot - 92) sdiv low_co
      else 0)"

lemma four_loops:
  assumes "slot < 104"
  shows "nibble (fold (\<lambda>x t. put_nibble t (92 + x) (g4 x)) [0..<11]
      (fold (\<lambda>x t. put_nibble t (82 + (10 - x)) (g3 x)) (rev [1..<11])
        (fold (\<lambda>x t. put_nibble t (39 + x) (g2 x)) [1..<43]
          (fold (\<lambda>x t. put_nibble t x (g1 x)) [0..<40] (replicate TABLE_WORDS 0))))) slot
    = word_of_int (if slot < 40 then g1 slot else if slot < 82 then g2 (slot - 39)
        else if slot < 92 then g3 (92 - slot) else if slot < 103 then g4 (slot - 92) else 0) AND 0x0f"
    (is "nibble (fold ?f4 _ ?t3) slot = _")
proof -
  let ?t0 = "replicate TABLE_WORDS (0 :: u32)"
  define t1 where "t1 = fold (\<lambda>x t. put_nibble t x (g1 x)) [0..<40] ?t0"
  define t2 where "t2 = fold (\<lambda>x t. put_nibble t (39 + x) (g2 x)) [1..<43] t1"
  define t3 where "t3 = fold (\<lambda>x t. put_nibble t (82 + (10 - x)) (g3 x)) (rev [1..<11]) t2"
  define t4 where "t4 = fold (\<lambda>x t. put_nibble t (92 + x) (g4 x)) [0..<11] t3"
  have len: "length ?t0 = 13" "length t1 = 13" "length t2 = 13" "length t3 = 13"
    by (simp_all add: TABLE_WORDS_def t1_def t2_def t3_def)
  have n1: "nibble t1 slot = (if slot < 40 then nibble ?t0 slot OR (word_of_int (g1 slot) AND 0x0f) else nibble ?t0 slot)"
    unfolding t1_def by (rule nibble_loop [where p = "\<lambda>s. s < 40" and r = "\<lambda>s. s"]) (use len in auto)
  have n2: "nibble t2 slot = (if 40 \<le> slot \<and> slot < 82 then nibble t1 slot OR (word_of_int (g2 (slot - 39)) AND 0x0f) else nibble t1 slot)"
    unfolding t2_def by (rule nibble_loop [where r = "\<lambda>s. s - 39"]) (use len in auto)
  have n3: "nibble t3 slot = (if 82 \<le> slot \<and> slot < 92 then nibble t2 slot OR (word_of_int (g3 (92 - slot)) AND 0x0f) else nibble t2 slot)"
    unfolding t3_def by (rule nibble_loop [where r = "\<lambda>s. 92 - s"]) (use len in auto)
  have n4: "nibble t4 slot = (if 92 \<le> slot \<and> slot < 103 then nibble t3 slot OR (word_of_int (g4 (slot - 92)) AND 0x0f) else nibble t3 slot)"
    unfolding t4_def by (rule nibble_loop [where r = "\<lambda>s. s - 92"]) (use len in auto)
  show ?thesis unfolding t1_def [symmetric] t2_def [symmetric] t3_def [symmetric] t4_def [symmetric]
    using n1 n2 n3 n4 assms by auto
qed

section \<open>Properties\<close>

text \<open>
  C26. build_table fails exactly when two neighbouring coarse measurements coincide; otherwise it
  returns thirteen words whose 104 four-bit slots are exactly, modulo 16, the interpolated
  corrections: coarse from 2401 to 2440 MHz in slots 0..39 and on to 2480 MHz in 40..81, the high and
  low gain ratios in 82..91 (with bit 3 set) and 92..102, and 0 in the last slot; no slot is written twice.
\<close>

theorem build_table_exact:
  "if co a = co b \<or> co b = co c then build_table a b c = Inl DegenerateCoarseRange
   else \<exists>t. build_table a b c = Inr t \<and> length t = 13
     \<and> map (nibble t) [0..<104]
       = map (\<lambda>slot. word_of_int (correction (uint (co a) - uint (co b)) (uint (co b) - uint (co c))
             (uint (ga a) - uint (ga b)) (uint (ga b) - uint (ga c)) slot) AND 0x0f) [0..<104]"
proof (cases "co a = co b \<or> co b = co c")
  case True
  then show ?thesis by (auto simp: build_table_def)
next
  case False
  then have n: "uint (co a) - uint (co b) \<noteq> 0" "uint (co b) - uint (co c) \<noteq> 0"
    by (auto simp: word_eq_iff_unsigned [where ?'a = int])
  let ?lc = "uint (co a) - uint (co b)" and ?hc = "uint (co b) - uint (co c)"
  let ?lg = "uint (ga a) - uint (ga b)" and ?hg = "uint (ga b) - uint (ga c)"
  define t where "t = fold (\<lambda>x t. put_nibble t (92 + x) (?lg * int x sdiv ?lc)) [0..<11]
      (fold (\<lambda>x t. put_nibble t (82 + (10 - x)) ((?hg * int x sdiv ?hc) OR 0x08)) (rev [1..<11])
        (fold (\<lambda>x t. put_nibble t (39 + x) (?hc * int x sdiv 40)) [1..<43]
          (fold (\<lambda>x t. put_nibble t x (?lc * (39 - int x) sdiv 39)) [0..<40] (replicate TABLE_WORDS 0))))"
  have "build_table a b c = Inr t" using n by (simp add: build_table_def Let_def t_def)
  moreover have "length t = 13" by (simp add: t_def TABLE_WORDS_def)
  moreover have "nibble t slot = word_of_int (correction ?lc ?hc ?lg ?hg slot) AND 0x0f" if "slot < 104" for slot
    unfolding t_def by (subst four_loops [OF that]) (auto simp: correction_def of_nat_diff)
  ultimately show ?thesis using False by auto
qed

end
