(* ===== verification/Rf_Frontend.thy ===== *)
theory Rf_Frontend
  imports Radio_Bus Phy_Transforms Rf_Calibration
begin

text \<open>
  The analog front end of the radio, \<^verbatim>\<open>crates/ch58x-ble/src/rf_frontend.rs\<close>: baseline, tuning
  measurements with their bounded polls, the table written from \<^verbatim>\<open>rf_calibration.rs\<close>, receive filter and
  converter calibration. The diagnostic \<open>snapshot\<close> is empty in the source and left out.
\<close>

section \<open>Analog front end\<close>

definition TUNE_COUNTDOWN :: u32 where "TUNE_COUNTDOWN = 0x1f40"
definition FILTER_COUNTDOWN :: u32 where "FILTER_COUNTDOWN = 0x64"
definition MAX_CALIBRATION_POLLS :: nat where "MAX_CALIBRATION_POLLS = 32768"

definition fe_control_04 :: u32 where "fe_control_04 = RFEND_BASE + 0x04"
definition fe_analog_enable_08 :: u32 where "fe_analog_enable_08 = RFEND_BASE + 0x08"
definition fe_reset_control_0c :: u32 where "fe_reset_control_0c = RFEND_BASE + 0x0c"
definition fe_config_28 :: u32 where "fe_config_28 = RFEND_BASE + 0x28"
definition fe_config_2c :: u32 where "fe_config_2c = RFEND_BASE + 0x2c"
definition fe_config_30 :: u32 where "fe_config_30 = RFEND_BASE + 0x30"
definition fe_config_38 :: u32 where "fe_config_38 = RFEND_BASE + 0x38"
definition fe_config_3c :: u32 where "fe_config_3c = RFEND_BASE + 0x3c"
definition fe_config_48 :: u32 where "fe_config_48 = RFEND_BASE + 0x48"
definition fe_config_4c :: u32 where "fe_config_4c = RFEND_BASE + 0x4c"
definition fe_filter_50 :: u32 where "fe_filter_50 = RFEND_BASE + 0x50"
definition fe_adc_58 :: u32 where "fe_adc_58 = RFEND_BASE + 0x58"
definition fe_config_5c :: u32 where "fe_config_5c = RFEND_BASE + 0x5c"
definition fe_tune_co_90 :: u32 where "fe_tune_co_90 = RFEND_BASE + 0x90"
definition fe_tune_ga_94 :: u32 where "fe_tune_ga_94 = RFEND_BASE + 0x94"
definition fe_filter_status_9c :: u32 where "fe_filter_status_9c = RFEND_BASE + 0x9c"

definition fe_tune_table :: "u32 list" where
  "fe_tune_table = map (\<lambda>x. RFEND_BASE + x)
     [0xa0, 0xa4, 0xa8, 0xac, 0xb0, 0xb4, 0xb8, 0xbc, 0xc0, 0xc4, 0xc8, 0xcc, 0xd0]"

definition initialize_baseline :: "radio_device \<Rightarrow> radio_bus \<Rightarrow> radio_bus" where
  "initialize_baseline dev = steps
     [reg_write fe_config_28 0x480,
      reg_modify dev fe_config_3c (\<lambda>v. (v AND NOT 0x06000000) OR 0x02000000),
      reg_modify dev fe_config_3c (\<lambda>v. (v AND NOT 0xe0000000) OR 0x40000000),
      reg_modify dev fe_config_30 (\<lambda>v. v OR 0x00000700),
      reg_modify dev fe_config_30 (\<lambda>v. v OR 0x00007000),
      reg_modify dev fe_config_30 (\<lambda>v. v OR 0x00070000),
      reg_modify dev fe_config_30 (\<lambda>v. (v AND NOT 0x70000000) OR 0x10000000),
      reg_modify dev fe_config_48 (\<lambda>v. v AND NOT 0x00070000),
      reg_modify dev fe_config_4c (\<lambda>v. v AND NOT 0x00000007),
      reg_modify dev fe_config_4c (\<lambda>v. v AND NOT 0x00000070),
      reg_modify dev fe_config_4c (\<lambda>v. v AND NOT 0x00030000),
      reg_modify dev fe_config_5c (\<lambda>v. v AND NOT 0x00070000),
      reg_modify dev fe_config_5c (\<lambda>v. v AND NOT 0x00700000)]"

primrec tune_polls :: "radio_device \<Rightarrow> nat \<Rightarrow> radio_bus \<Rightarrow> (radio_error + unit) \<times> radio_bus" where
  "tune_polls dev 0 h = (Inl Err_Timeout, h)"
| "tune_polls dev (Suc n) h =
     (let (co, h1) = reg_read dev fe_tune_co_90 h in
      if co AND 0x06000000 = 0x06000000 then (Inr (), h1)
      else (let (left, h2) = reg_read dev lle_operation_countdown h1 in
            if left = 0 then (Inl Err_Timeout, h2) else tune_polls dev n h2))"

definition wait_tune :: "radio_device \<Rightarrow> radio_bus \<Rightarrow> (radio_error + unit) \<times> radio_bus" where
  "wait_tune dev h = tune_polls dev MAX_CALIBRATION_POLLS (reg_write lle_operation_countdown TUNE_COUNTDOWN h)"

definition measure_ctune :: "radio_device \<Rightarrow> u32 \<Rightarrow> radio_bus \<Rightarrow> (radio_error + Measurement) \<times> radio_bus" where
  "measure_ctune dev tune h =
     (let h1 = steps [reg_modify dev fe_control_04 (\<lambda>v. v AND NOT 0x01),
                      reg_modify dev fe_config_38 (\<lambda>v. (v AND 0xfffe00ff) OR tune),
                      reg_modify dev fe_control_04 (\<lambda>v. v OR 0x01)] h
      in case wait_tune dev h1 of (Inl e, h2) \<Rightarrow> (Inl e, h2)
         | (Inr _, h2) \<Rightarrow>
             (let (c, h3) = reg_read dev fe_tune_co_90 h2;
                  (g, h4) = reg_read dev fe_tune_ga_94 h3
              in (Inr \<lparr>co = ucast (c AND 0x3f), ga = ucast (drop_bit 10 g AND 0x7f)\<rparr>, h4)))"

text \<open>The \<open>?\<close> operator.\<close>

definition and_try :: "(radio_bus \<Rightarrow> ('e + 'a) \<times> radio_bus) \<Rightarrow> ('a \<Rightarrow> radio_bus \<Rightarrow> ('e + 'b) \<times> radio_bus)
    \<Rightarrow> radio_bus \<Rightarrow> ('e + 'b) \<times> radio_bus" where
  "and_try m k h = (case m h of (Inl e, h1) \<Rightarrow> (Inl e, h1) | (Inr x, h1) \<Rightarrow> k x h1)"

definition measurements :: "radio_device \<Rightarrow> radio_bus \<Rightarrow> (radio_error + Measurement \<times> Measurement \<times> Measurement) \<times> radio_bus" where
  "measurements dev =
     and_try (measure_ctune dev 0x0000bf00) (\<lambda>mhz_2401.
     and_try (measure_ctune dev 0x0000e800) (\<lambda>mhz_2480.
     and_try (measure_ctune dev 0x0000d400) (\<lambda>mhz_2440.
     and_try (measure_ctune dev 0x0000fc00) (\<lambda>_. Pair (Inr (mhz_2401, mhz_2440, mhz_2480))))))"

fun write_table :: "radio_device \<Rightarrow> u32 list \<Rightarrow> u32 list \<Rightarrow> nat \<Rightarrow> radio_bus \<Rightarrow> radio_bus" where
  "write_table dev (r # rs) (v # vs) index h =
     write_table dev rs vs (index + 1)
       (if index + 1 = TABLE_WORDS then reg_modify dev r (\<lambda>old. (old AND 0xf0000000) OR (v AND 0x0fffffff)) h
        else reg_write r v h)"
| "write_table dev _ _ index h = h"

definition tx_ctune :: "radio_device \<Rightarrow> radio_bus \<Rightarrow> (radio_error + unit) \<times> radio_bus" where
  "tx_ctune dev h =
     (let h1 = steps [reg_modify dev fe_control_04 (\<lambda>v. v AND NOT 0x100),
                      reg_modify dev fe_config_28 (\<lambda>v. v AND NOT 0x1000),
                      reg_modify dev fe_config_2c (\<lambda>v. v AND NOT 0x10),
                      reg_modify dev fe_analog_enable_08 (\<lambda>v. v OR 0x00020000),
                      reg_modify dev fe_control_04 (\<lambda>v. v OR 0x10)] h;
          (ms, h2) = measurements dev h1;
          h3 = steps [reg_modify dev fe_control_04 (\<lambda>v. v AND NOT 0x11),
                      reg_modify dev fe_config_28 (\<lambda>v. v OR 0x1000),
                      reg_modify dev fe_config_2c (\<lambda>v. v OR 0x10)] h2
      in case ms of Inl e \<Rightarrow> (Inl e, h3)
         | Inr (mhz_2401, mhz_2440, mhz_2480) \<Rightarrow>
             (let h4 = reg_modify dev fe_config_38
                    (\<lambda>v. (v AND 0x80ffffc0) OR ucast (co mhz_2440 AND 0x3f) OR push_bit 24 (ucast (ga mhz_2440 AND 0x7f))) h3
              in case build_table mhz_2401 mhz_2440 mhz_2480 of Inl _ \<Rightarrow> (Inl Err_Hardware, h4)
                 | Inr table \<Rightarrow> (Inr (), write_table dev fe_tune_table table 0 h4)))"

definition tx_ftune :: "radio_device \<Rightarrow> radio_bus \<Rightarrow> radio_bus" where
  "tx_ftune dev = reg_modify dev fe_control_04 (\<lambda>v. v OR 0x100)"

primrec filter_polls :: "radio_device \<Rightarrow> nat \<Rightarrow> radio_bus \<Rightarrow> radio_bus" where
  "filter_polls dev 0 h = h"
| "filter_polls dev (Suc n) h =
     (let (s, h1) = reg_read dev fe_filter_status_9c h in
      if s AND 0x100 \<noteq> 0 then h1
      else (let (left, h2) = reg_read dev lle_operation_countdown h1 in
            if left = 0 then h2 else filter_polls dev n h2))"

definition rx_filter :: "radio_device \<Rightarrow> radio_bus \<Rightarrow> radio_bus" where
  "rx_filter dev h =
     (let h1 = steps [reg_modify dev fe_filter_50 (\<lambda>v. v AND NOT 0x00010000),
                      reg_modify dev fe_analog_enable_08 (\<lambda>v. v OR 0x00200000),
                      reg_modify dev fe_reset_control_0c (\<lambda>v. v OR 0x10),
                      reg_modify dev fe_reset_control_0c (\<lambda>v. v AND NOT 0x10),
                      reg_modify dev fe_reset_control_0c (\<lambda>v. v OR 0x10),
                      reg_modify dev fe_control_04 (\<lambda>v. v OR 0x1000),
                      reg_write lle_operation_countdown FILTER_COUNTDOWN] h;
          h2 = filter_polls dev MAX_CALIBRATION_POLLS h1;
          (s, h3) = reg_read dev fe_filter_status_9c h2;
          result = s AND 0x1f
      in steps [reg_modify dev fe_filter_50 (\<lambda>v. v OR 0x00010000),
                reg_modify dev fe_filter_50 (\<lambda>v. (v AND NOT 0x1f) OR result),
                reg_modify dev fe_analog_enable_08 (\<lambda>v. v AND NOT 0x00200000)] h3)"

definition rx_adc :: "radio_device \<Rightarrow> radio_bus \<Rightarrow> radio_bus" where
  "rx_adc dev = steps
     [reg_modify dev fe_adc_58 (\<lambda>v. v AND NOT 0x00010000),
      reg_modify dev fe_analog_enable_08 (\<lambda>v. v OR 0x00010000),
      reg_modify dev fe_reset_control_0c (\<lambda>v. v AND NOT 0x100),
      reg_modify dev fe_control_04 (\<lambda>v. v AND NOT 0x00010000),
      reg_modify dev fe_reset_control_0c (\<lambda>v. v OR 0x100),
      reg_modify dev fe_control_04 (\<lambda>v. v OR 0x00010000)]"

definition calibrate :: "radio_device \<Rightarrow> radio_bus \<Rightarrow> (radio_error + unit) \<times> radio_bus" where
  "calibrate dev h =
     (case tx_ctune dev (reg_modify dev fe_analog_enable_08 (\<lambda>v. v OR 0x00330000) h) of
        (Inl e, h1) \<Rightarrow> (Inl e, h1)
      | (Inr _, h1) \<Rightarrow> (Inr (), rx_adc dev (rx_filter dev (tx_ftune dev h1))))"

definition leave_calibration :: "radio_device \<Rightarrow> radio_bus \<Rightarrow> radio_bus" where
  "leave_calibration dev = reg_modify dev fe_analog_enable_08 (\<lambda>v. v AND 0xffcdffff)"

end
