(* ===== verification/Radio.thy ===== *)
theory Radio
  imports Rf_Frontend Advertising
begin

text \<open>
  The baseband driver \<^verbatim>\<open>crates/ch58x-ble/src/radio.rs\<close>: initialization, the blocking transmit and
  receive operations, the connection exchange, the advertising exchange and the baseband interrupt.
  Deadline loops have no bound in the source and are \<open>partial_function\<close>s; \<open>None\<close> is running forever.
  Instants and durations are microseconds. \<open>frequency_khz\<close> leaves out the panic of \<open>frequency_mhz\<close> for
  an index that no channel has, and the negation of the signal strength wraps as in a release build.
\<close>

section \<open>State and initialization\<close>

record radio =
  rd_access_address :: u32
  rd_crc_init :: u32
  rd_phy :: phy
  rd_digital_initialized :: bool
  rd_frontend_calibrated :: bool

definition radio_new :: "radio_bus \<Rightarrow> radio \<times> radio_bus" where
  "radio_new h =
     (\<lparr>rd_access_address = ADV_ACCESS_ADDRESS, rd_crc_init = ADV_CRC_INIT, rd_phy = Le1M,
       rd_digital_initialized = False, rd_frontend_calibrated = False\<rparr>,
      steps [record_event (DiagnosticStore 1 0), record_event (DiagnosticStore 2 0),
             record_event (DiagnosticStore 0 RF_DMA_LIMITS_MAGIC)] h)"

definition radio_set_access_address :: "u32 \<Rightarrow> radio \<Rightarrow> radio_bus \<Rightarrow> radio \<times> radio_bus" where
  "radio_set_access_address access_address r h =
     (r\<lparr>rd_access_address := access_address\<rparr>, reg_write bb_tx_access_address access_address h)"

definition radio_set_crc_init :: "u32 \<Rightarrow> radio \<Rightarrow> radio_bus \<Rightarrow> radio \<times> radio_bus" where
  "radio_set_crc_init crc_init r h =
     (let c = crc_init AND 0x00ffffff in (r\<lparr>rd_crc_init := c\<rparr>, reg_write bb_tx_crc_init c h))"

definition set_phy :: "phy \<Rightarrow> radio \<Rightarrow> (radio_error + unit) \<times> radio" where
  "set_phy p r = (if p \<noteq> Le1M then (Inl Err_Hardware, r) else (Inr (), r\<lparr>rd_phy := p\<rparr>))"

definition init_lle :: "radio_device \<Rightarrow> radio_bus \<Rightarrow> radio_bus" where
  "init_lle dev = steps
     ([reg_write lle_tx_buffer (tx_address dev), reg_write lle_rx_buffer (rx_address dev)]
      @ map (\<lambda>(offset, v). reg_write (LLE_BASE + offset) v)
          [(0x14, 0x8c), (0x1c, 0x76), (0x24, 0x8c), (0x2c, 0x6e), (0x34, 0x8c), (0x3c, 0x6e), (0x44, 0x8c), (0x4c, 0x76)]
      @ [reg_modify dev lle_config (\<lambda>v. v AND NOT 0x1f), half_write (LLE_BASE + 0x06) 1,
         reg_write (LLE_BASE + 0x54) 0, reg_write lle_status (- 1), reg_write lle_interrupt_enable 0x001f000f])"

definition init_baseband :: "radio_device \<Rightarrow> radio \<Rightarrow> radio_bus \<Rightarrow> radio \<times> radio_bus" where
  "init_baseband dev r h =
     (let h1 = steps
        [reg_modify dev bb_config (\<lambda>v. ((v OR push_bit 23 1) AND NOT BB_MODE_MASK) OR BB_MODE_IDLE),
         reg_write bb_interrupt_status 0x3ff, reg_write bb_interrupt_enable 0x50,
         reg_modify dev bb_tx_control
           (\<lambda>v. ((v OR push_bit 31 1) AND NOT BB_TX_POWER_MASK) OR push_bit 25 (ucast TX_POWER_0_DBM)),
         reg_modify dev (RFEND_BASE + 0x5c) (\<lambda>v. (v AND NOT 0x07000000) OR 0x01000000),
         reg_write bb_config_3c 0x0002020c,
         reg_modify dev bb_receive_config_10 (\<lambda>v. (v AND NOT 0x3f) OR 0x0e),
         reg_write lle_mode LLE_MODE_IDLE] h;
          (r1, h2) = radio_set_access_address (rd_access_address r) r h1
      in radio_set_crc_init (rd_crc_init r1) r1 h2)"

definition init_digital :: "radio_device \<Rightarrow> radio \<Rightarrow> radio_bus \<Rightarrow> radio \<times> radio_bus" where
  "init_digital dev r h =
     (let (r1, h1) = init_baseband dev r (init_lle dev h)
      in (r1\<lparr>rd_digital_initialized := True, rd_frontend_calibrated := False\<rparr>, h1))"

definition initialize :: "radio_device \<Rightarrow> radio \<Rightarrow> radio_bus \<Rightarrow> (radio_error + unit) \<times> radio \<times> radio_bus" where
  "initialize dev r h =
     (let h1 = initialize_baseline dev (init_lle dev h);
          (r1, h2) = init_baseband dev r h1;
          r2 = r1\<lparr>rd_digital_initialized := True, rd_frontend_calibrated := False\<rparr>;
          h3 = steps [reg_modify dev lle_mode (\<lambda>v. v AND NOT 0x700),
                      reg_modify dev lle_command (\<lambda>v. v OR 0x08),
                      reg_modify dev bb_config (\<lambda>v. v OR push_bit 7 1),
                      reg_modify dev bb_config (\<lambda>v. (v AND NOT BB_MODE_MASK) OR BB_MODE_ACTIVE),
                      reg_write lle_mode LLE_MODE_CALIBRATION] h2;
          (result, h4) = calibrate dev h3;
          h5 = steps [reg_modify dev bb_config (\<lambda>v. (v AND NOT BB_MODE_MASK) OR BB_MODE_IDLE),
                      reg_write lle_status LLE_STATUS_TIMING,
                      leave_calibration dev,
                      reg_write lle_mode LLE_MODE_IDLE] h4;
          ok = (case result of Inl _ \<Rightarrow> False | Inr _ \<Rightarrow> True)
      in (result, r2\<lparr>rd_frontend_calibrated := ok\<rparr>, if ok then record_event IrqEnable h5 else h5))"

section \<open>Operations\<close>

definition frequency_khz :: "channel \<Rightarrow> bool \<Rightarrow> u32" where
  "frequency_khz c receive =
     (let f = (case frequency_mhz c of Some m \<Rightarrow> ucast m * 1000 | None \<Rightarrow> 0) in if receive then f - 1000 else f)"

definition configure_ch585_synth :: "radio_device \<Rightarrow> channel \<Rightarrow> bool \<Rightarrow> radio_bus \<Rightarrow> radio_bus" where
  "configure_ch585_synth dev channel receive =
     (let khz = frequency_khz channel receive;
          integer = (khz div 64000) AND 0x1f;
          fraction = (push_bit 10 (khz mod 64000) div 250) AND 0x0003ffff
      in steps [reg_modify dev (RFEND_BASE + 0x2c) (\<lambda>v. v OR 0x02),
                reg_modify dev (RFEND_BASE + 0x44) (\<lambda>v. (v AND 0xfe0c0000) OR push_bit 20 integer OR fraction)])"

definition set_channel :: "radio_device \<Rightarrow> channel \<Rightarrow> radio_bus \<Rightarrow> radio_bus" where
  "set_channel dev channel = steps
     [reg_modify dev bb_config (\<lambda>v. (v AND NOT 0x7f) OR ucast (channel_index channel)),
      configure_ch585_synth dev channel False]"

definition set_receive_channel :: "radio_device \<Rightarrow> channel \<Rightarrow> radio_bus \<Rightarrow> radio_bus" where
  "set_receive_channel dev channel = steps
     [reg_modify dev bb_config (\<lambda>v. (v AND NOT 0x7f) OR ucast (channel_index channel)),
      configure_ch585_synth dev channel True,
      reg_modify dev (RFEND_BASE + 0x2c) (\<lambda>v. v AND NOT 0x03)]"

definition stage_transmit :: "radio_device \<Rightarrow> radio \<Rightarrow> channel \<Rightarrow> bytes \<Rightarrow> radio_bus \<Rightarrow> (radio_error + unit) \<times> radio_bus" where
  "stage_transmit dev r channel packet h =
     (if \<not> rd_digital_initialized r \<or> \<not> rd_frontend_calibrated r then (Inl Err_Hardware, h)
      else if length packet < 2 \<or> length packet > RF_DMA_BUFFER_LEN then (Inl Err_InvalidPacket, h)
      else (Inr (), steps [record_event (TxStage (encode_transmit_buffer packet)), set_channel dev channel,
                           reg_write lle_tx_buffer (tx_address dev)] h))"

definition stage_response :: "radio_device \<Rightarrow> bytes \<Rightarrow> radio_bus \<Rightarrow> (radio_error + u32) \<times> radio_bus" where
  "stage_response dev packet h =
     (if length packet < 2 \<or> length packet > RF_DMA_BUFFER_LEN then (Inl Err_InvalidPacket, h)
      else (Inr (response_address dev), record_event (ResponseStage (encode_transmit_buffer packet)) h))"

definition prepare_common_operation :: "radio_device \<Rightarrow> u32 \<Rightarrow> radio_bus \<Rightarrow> radio_bus" where
  "prepare_common_operation dev mode = steps
     [half_write (LLE_BASE + 0x06) (if mode = LLE_MODE_TX then 0x50 else 1),
      reg_modify dev bb_tx_control (\<lambda>v. (v AND NOT 0x03) OR 0x01),
      reg_modify dev bb_config (\<lambda>v. (v AND NOT BB_MODE_MASK) OR BB_MODE_ACTIVE),
      reg_modify dev (RFEND_BASE + 0x08) (\<lambda>v. v OR 0x00330000),
      reg_write lle_mode mode]"

definition prepare_receive_operation :: "radio_device \<Rightarrow> radio_bus \<Rightarrow> radio_bus" where
  "prepare_receive_operation dev = steps
     [half_write (LLE_BASE + 0x06) 1,
      reg_modify dev bb_config (\<lambda>v. (v AND NOT BB_MODE_MASK) OR BB_MODE_ACTIVE),
      reg_modify dev (RFEND_BASE + 0x08) (\<lambda>v. v OR 0x00330000),
      reg_write lle_mode LLE_MODE_RX]"

primrec settle_polls :: "radio_device \<Rightarrow> nat \<Rightarrow> radio_bus \<Rightarrow> (radio_error + unit) \<times> radio_bus" where
  "settle_polls dev 0 h = (Inl Err_Timeout, h)"
| "settle_polls dev (Suc n) h =
     (let (left, h1) = reg_read dev lle_operation_countdown h in if left = 0 then (Inr (), h1) else settle_polls dev n h1)"

definition wait_for_settle_countdown :: "radio_device \<Rightarrow> radio_bus \<Rightarrow> (radio_error + unit) \<times> radio_bus" where
  "wait_for_settle_countdown dev = settle_polls dev MAX_OPERATION_POLLS"

definition configure_transmit_phy_1m :: "radio_device \<Rightarrow> nat \<Rightarrow> radio_bus \<Rightarrow> radio_bus" where
  "configure_transmit_phy_1m dev packet_len = steps
     [reg_modify dev bb_config (\<lambda>v. v AND NOT (push_bit 7 1)),
      reg_modify dev lle_interrupt_enable (\<lambda>v. v AND NOT LLE_STATUS_TIMING),
      reg_write lle_status LLE_STATUS_TIMING,
      reg_write lle_operation_countdown (tx_1m_countdown packet_len)]"

definition configure_receive_phy_1m :: "radio_device \<Rightarrow> radio_bus \<Rightarrow> radio_bus" where
  "configure_receive_phy_1m dev = steps
     [reg_modify dev bb_config (\<lambda>v. v AND NOT (push_bit 7 1)),
      reg_modify dev bb_receive_config_18 (\<lambda>v. (v AND NOT 0xff0003ff) OR 0x7f000132)]"

definition continue_tx_to_rx_1m :: "radio_device \<Rightarrow> channel \<Rightarrow> radio_bus \<Rightarrow> radio_bus" where
  "continue_tx_to_rx_1m dev channel = steps
     [reg_write lle_status LLE_STATUS_TX_TO_RX,
      reg_modify dev bb_tx_control (\<lambda>v. (v AND NOT 0x03) OR 0x01),
      configure_ch585_synth dev channel True,
      configure_receive_phy_1m dev,
      reg_write lle_status LLE_STATUS_TIMING,
      reg_write lle_operation_countdown LLE_1M_TRANSITION_COUNTDOWN]"

definition release_receive_to_transmit_1m :: "radio_device \<Rightarrow> channel \<Rightarrow> u32 \<Rightarrow> nat \<Rightarrow> u8 \<Rightarrow> radio_bus \<Rightarrow> radio_bus" where
  "release_receive_to_transmit_1m dev channel transmit_address transmit_len received_len = steps
     [reg_write lle_tx_buffer transmit_address,
      reg_write lle_rx_to_tx_timing (rx_to_tx_timing received_len),
      reg_write lle_status LLE_STATUS_RX_TO_TX,
      reg_modify dev bb_tx_control (\<lambda>v. (v AND NOT 0x03) OR 0x01),
      configure_ch585_synth dev channel False,
      configure_transmit_phy_1m dev transmit_len,
      reg_modify dev bb_config (\<lambda>v. (v AND NOT BB_MODE_MASK) OR BB_MODE_ACTIVE OR push_bit 23 1),
      reg_modify dev (RFEND_BASE + 0x08) (\<lambda>v. v OR 0x00330000),
      reg_write lle_mode LLE_MODE_TX,
      reg_modify dev bb_tx_control (\<lambda>v. v AND NOT 0x03)]"

definition start_transmit_operation :: "radio_device \<Rightarrow> radio_bus \<Rightarrow> radio_bus" where
  "start_transmit_operation dev = steps
     [reg_modify dev bb_config (\<lambda>v. v OR push_bit 23 1),
      reg_modify dev bb_tx_control (\<lambda>v. v AND NOT 0x03),
      reg_write lle_command 2]"

definition shut_down_operation :: "radio_device \<Rightarrow> radio_bus \<Rightarrow> radio_bus" where
  "shut_down_operation dev = steps
     [record_event (CountdownStore 0),
      reg_modify dev lle_mode (\<lambda>v. v AND NOT 0x10),
      reg_modify dev lle_mode (\<lambda>v. v AND NOT 0x700),
      reg_modify dev lle_command (\<lambda>v. v OR 0x08),
      reg_modify dev bb_config (\<lambda>v. (v AND NOT BB_MODE_MASK) OR BB_MODE_IDLE),
      reg_modify dev (RFEND_BASE + 0x08) (\<lambda>v. v AND 0xffcdffff),
      reg_write lle_mode LLE_MODE_IDLE]"

primrec operation_polls :: "radio_device \<Rightarrow> u32 \<Rightarrow> nat \<Rightarrow> radio_bus \<Rightarrow> (radio_error + unit) \<times> radio_bus" where
  "operation_polls dev completion_mask 0 h = (Inl Err_Timeout, h)"
| "operation_polls dev completion_mask (Suc n) h =
     (let (status, h1) = reg_read dev lle_status h in
      if status AND completion_mask \<noteq> 0 then (Inr (), h1)
      else (let (left, h2) = reg_read dev lle_operation_countdown h1 in
            if left = 0 then (Inl Err_Timeout, h2) else operation_polls dev completion_mask n h2))"

definition wait_for_operation :: "radio_device \<Rightarrow> u32 \<Rightarrow> radio_bus \<Rightarrow> (radio_error + unit) \<times> radio_bus" where
  "wait_for_operation dev completion_mask = operation_polls dev completion_mask MAX_OPERATION_POLLS"

definition clear_bb_interrupt_status :: "radio_device \<Rightarrow> radio_bus \<Rightarrow> radio_bus" where
  "clear_bb_interrupt_status dev = reg_modify dev bb_interrupt_status (\<lambda>observed. observed AND BB_INTERRUPT_STATUS_MASK)"

definition clear_lle_status :: "radio_bus \<Rightarrow> radio_bus" where
  "clear_lle_status = reg_write lle_status (- 1)"

primrec receive_polls :: "radio_device \<Rightarrow> nat \<Rightarrow> nat \<Rightarrow> bool \<Rightarrow> radio_bus \<Rightarrow> (radio_error + unit) \<times> radio_bus" where
  "receive_polls dev deadline 0 capture_started h = (Inl Err_Timeout, h)"
| "receive_polls dev deadline (Suc n) capture_started h =
     (let (bb_status, h1) = reg_read dev bb_interrupt_status h;
          captured = bb_status AND push_bit 6 1 \<noteq> 0;
          h2 = (if captured then steps [reg_write bb_interrupt_status (capture_ack bb_status),
                    reg_write lle_status LLE_STATUS_TIMING,
                    reg_write lle_operation_countdown (rx_1m_capture_countdown LEGACY_ADV_RX_MAX_LEN)] h1 else h1);
          started = (capture_started \<or> captured);
          (complete, h3) = (if started then
              (let (s, h') = reg_read dev lle_status h2
               in (s AND (LLE_STATUS_RX_COMPLETE OR LLE_STATUS_RX_CAPTURE_COMPLETE) \<noteq> 0, h')) else (False, h2))
      in if complete then (Inr (), h3)
         else (let (left, h4) = reg_read dev lle_operation_countdown h3 in
               if left = 0 then (Inl Err_Timeout, h4)
               else if \<not> started then
                 (let (now, h5) = clock dev h4 in
                  if now \<ge> deadline then (Inl Err_Timeout, h5) else receive_polls dev deadline n started h5)
               else receive_polls dev deadline n started h4))"

definition wait_for_polled_receive_operation :: "radio_device \<Rightarrow> nat \<Rightarrow> radio_bus \<Rightarrow> (radio_error + unit) \<times> radio_bus" where
  "wait_for_polled_receive_operation dev deadline = receive_polls dev deadline MAX_OPERATION_POLLS False"

function copy_bytes :: "radio_device \<Rightarrow> nat \<Rightarrow> nat \<Rightarrow> bytes \<Rightarrow> radio_bus \<Rightarrow> bytes \<times> radio_bus" where
  "copy_bytes dev index copy_len output h =
     (if index < copy_len then
        (let (b, h1) = read_dma_byte dev index h in copy_bytes dev (index + 1) copy_len (output[index := b]) h1)
      else (output, h))"
  by pat_completeness auto
termination
  by (relation "measure (\<lambda>(dev, index, copy_len, output, h). copy_len - index)") auto

declare copy_bytes.simps [simp del]

definition copy_received_packet :: "radio_device \<Rightarrow> bytes \<Rightarrow> bool \<Rightarrow> radio_bus \<Rightarrow> nat \<times> bytes \<times> radio_bus" where
  "copy_received_packet dev output advertising h =
     (let (b, h1) = read_dma_byte dev 1 h;
          payload_len = (if advertising then unat (b AND 0x3f) else unat b)
      in case classify_received_length advertising payload_len of
           PhysicalDmaOverflow \<Rightarrow> (0, output, record_event (DiagnosticAdd 1) h1)
         | UnsupportedCapability \<Rightarrow> (0, output, record_event (DiagnosticAdd 2) h1)
         | Accepted wire_len \<Rightarrow>
             if length output < wire_len then (0, output, h1)
             else (let (output', h2) = copy_bytes dev 0 wire_len output h1 in (wire_len, output', h2)))"

section \<open>Transmit and receive\<close>

definition transmit_blocking :: "radio_device \<Rightarrow> radio \<Rightarrow> channel \<Rightarrow> bytes \<Rightarrow> radio_bus \<Rightarrow> (radio_error + unit) \<times> radio_bus" where
  "transmit_blocking dev r channel packet =
     and_try (stage_transmit dev r channel packet) (\<lambda>_ h.
       and_try (wait_for_settle_countdown dev) (\<lambda>_ h2.
           let (result, h3) = wait_for_operation dev (push_bit 1 1)
                 (steps [configure_transmit_phy_1m dev (length packet), start_transmit_operation dev] h2)
           in (result, shut_down_operation dev h3))
         (steps [prepare_common_operation dev LLE_MODE_TX,
                 reg_modify dev lle_config (\<lambda>v. v AND NOT 0x01),
                 clear_lle_status,
                 clear_bb_interrupt_status dev,
                 reg_write lle_operation_countdown 0xa0] h))"

text \<open>\<open>timeout.as_micros().saturating_mul(4).clamp(1, u32::MAX)\<close>\<close>

definition receive_ticks :: "nat \<Rightarrow> u32" where
  "receive_ticks timeout = word_of_nat (max 1 (min (4 * timeout) (2 ^ 32 - 1)))"

definition rssi_of :: "u32 \<Rightarrow> i8" where
  "rssi_of v = - ucast (drop_bit 15 v)"

definition receive_blocking ::
    "radio_device \<Rightarrow> radio \<Rightarrow> channel \<Rightarrow> nat \<Rightarrow> bytes \<Rightarrow> radio_bus \<Rightarrow> (radio_error + received_packet) \<times> bytes \<times> radio_bus" where
  "receive_blocking dev r channel timeout output h =
     (if \<not> rd_digital_initialized r \<or> \<not> rd_frontend_calibrated r then (Inl Err_Hardware, output, h)
      else if output = [] then (Inl Err_InvalidPacket, output, h)
      else (let h1 = steps [record_event RxFill, reg_write lle_rx_buffer (rx_address dev),
                     set_receive_channel dev channel,
                     reg_modify dev lle_config (\<lambda>v. v AND NOT 0x01),
                     clear_lle_status, clear_bb_interrupt_status dev, configure_receive_phy_1m dev,
                     record_event IrqDisable, record_event IrqUnpend,
                     reg_write lle_operation_countdown (receive_ticks timeout),
                     prepare_receive_operation dev] h;
                (now, h2) = clock dev h1;
                (wait, h3) = wait_for_polled_receive_operation dev (now + timeout) (reg_write lle_command 1 h2);
                (status, h4) = reg_read dev bb_interrupt_status h3;
                ok = (status AND push_bit 5 1 = 0);
                (copy_len, output', h5) = copy_received_packet dev output (rd_access_address r = ADV_ACCESS_ADDRESS) h4;
                (level, h6) = reg_read dev bb_rssi_status h5;
                h7 = steps [shut_down_operation dev, record_event IrqUnpend, record_event IrqEnable] h6
            in case wait of Inl e \<Rightarrow> (Inl e, output', h7)
               | Inr _ \<Rightarrow>
                   if copy_len = 0 then (Inl Err_Timeout, output', h7)
                   else (let (t, h8) = clock dev h7
                         in (Inr \<lparr>payload = take copy_len output', rssi_dbm = rssi_of level, crc_ok = ok, timestamp_us = t\<rparr>, output', h8))))"

section \<open>Connection exchange\<close>

definition release_exchange :: "radio_device \<Rightarrow> channel \<Rightarrow> nat \<Rightarrow> u8 \<Rightarrow> radio_bus \<Rightarrow> radio_bus" where
  "release_exchange dev channel transmit_len len = steps
     [reg_write lle_rx_to_tx_timing (rx_to_tx_timing len),
      reg_write lle_status LLE_STATUS_RX_COMPLETE,
      reg_write lle_status LLE_STATUS_RX_TO_TX,
      reg_modify dev bb_tx_control (\<lambda>v. (v AND NOT 0x03) OR 0x01),
      configure_transmit_phy_1m dev transmit_len,
      configure_ch585_synth dev channel False,
      reg_modify dev bb_config (\<lambda>v. (v AND NOT BB_MODE_MASK) OR BB_MODE_ACTIVE OR push_bit 23 1),
      reg_modify dev (RFEND_BASE + 0x08) (\<lambda>v. v OR 0x00330000),
      reg_write lle_mode LLE_MODE_TX,
      reg_modify dev bb_tx_control (\<lambda>v. v AND NOT 0x03)]"

text \<open>The polling loop: the time of the turnaround, if any, and whether the response was transmitted.\<close>

partial_function (option) exchange_loop ::
    "radio_device \<Rightarrow> channel \<Rightarrow> nat \<Rightarrow> nat \<Rightarrow> nat \<Rightarrow> nat option \<Rightarrow> bool \<Rightarrow> radio_bus \<Rightarrow> (nat option \<times> bool \<times> radio_bus) option" where
  "exchange_loop dev channel transmit_len receive_deadline operation_deadline ts turnaround h =
     (let (now, h1) = clock dev h in
      if \<not> now < operation_deadline then Some (ts, False, h1)
      else (let (status, h2) = reg_read dev lle_status h1 in
        if status AND LLE_STATUS_RX_TO_TX \<noteq> 0 \<and> \<not> turnaround then
          (let (len, h3) = read_dma_byte dev 1 h2;
               (t, h4) = clock dev h3;
               (bb, h5) = reg_read dev bb_interrupt_status h4
           in if bb AND push_bit 5 1 \<noteq> 0 \<or> unat len > CONNECTION_RX_MAX_WIRE_PAYLOAD_LEN then Some (Some t, False, h5)
              else exchange_loop dev channel transmit_len receive_deadline operation_deadline (Some t) True
                     (release_exchange dev channel transmit_len len h5))
        else if turnaround \<and> status AND LLE_STATUS_RX_COMPLETE \<noteq> 0 then
          Some (ts, True, reg_write lle_status LLE_STATUS_RX_COMPLETE h2)
        else (let (left, h3) = reg_read dev lle_operation_countdown h2 in
          if left = 0 then Some (ts, False, h3)
          else if \<not> turnaround then
            (let (now2, h4) = clock dev h3 in
             if now2 \<ge> receive_deadline then Some (ts, False, h4)
             else exchange_loop dev channel transmit_len receive_deadline operation_deadline ts turnaround h4)
          else exchange_loop dev channel transmit_len receive_deadline operation_deadline ts turnaround h3)))"

definition exchange_start :: "radio_device \<Rightarrow> channel \<Rightarrow> nat \<Rightarrow> radio_bus \<Rightarrow> radio_bus" where
  "exchange_start dev channel timeout = steps
     [record_event RxFill, reg_write lle_rx_buffer (rx_address dev),
      set_receive_channel dev channel,
      prepare_common_operation dev LLE_MODE_RX,
      reg_modify dev lle_config (\<lambda>v. v OR 0x01),
      clear_lle_status, clear_bb_interrupt_status dev, configure_receive_phy_1m dev,
      record_event (CountdownStore (rx_1m_capture_countdown CONNECTION_RX_MAX_WIRE_PAYLOAD_LEN)),
      reg_write lle_operation_countdown (receive_ticks timeout),
      reg_write lle_command 1]"

text \<open>From the end of the loop: CRC flag, copy, signal strength, shut down.\<close>

definition exchange_finish ::
    "radio_device \<Rightarrow> bytes \<Rightarrow> nat option \<Rightarrow> bool \<Rightarrow> radio_bus \<Rightarrow> (radio_error + received_packet \<times> bool) \<times> bytes \<times> radio_bus" where
  "exchange_finish dev output ts transmitted h =
     (let (bb, h1) = reg_read dev bb_interrupt_status h;
          (len, output', h2) = copy_received_packet dev output False h1;
          (level, h3) = reg_read dev bb_rssi_status h2;
          h4 = shut_down_operation dev h3
      in case ts of None \<Rightarrow> (Inl Err_Timeout, output', h4)
         | Some t \<Rightarrow>
             if len < 2 then (Inl Err_InvalidPacket, output', h4)
             else (Inr (\<lparr>payload = take len output', rssi_dbm = rssi_of level,
                          crc_ok = (bb AND push_bit 5 1 = 0), timestamp_us = t\<rparr>, transmitted), output', h4))"

definition exchange ::
    "radio_device \<Rightarrow> radio \<Rightarrow> channel \<Rightarrow> nat \<Rightarrow> nat \<Rightarrow> bytes \<Rightarrow> bytes \<Rightarrow> radio_bus
       \<Rightarrow> ((radio_error + received_packet \<times> bool) \<times> bytes \<times> radio_bus) option" where
  "exchange dev r channel deadline timeout transmit output h =
     (if length output < CONNECTION_EVENT_RX_BUFFER_LEN then Some (Inl Err_InvalidPacket, output, h)
      else case stage_transmit dev r channel transmit h of
        (Inl e, h1) \<Rightarrow> Some (Inl e, output, h1)
      | (Inr _, h1) \<Rightarrow>
          (let (now, h2) = clock dev (exchange_start dev channel timeout h1);
               receive_deadline = min (now + timeout) deadline
           in Option.bind (exchange_loop dev channel (length transmit) receive_deadline (receive_deadline + 1000) None False h2)
                (\<lambda>(ts, transmitted, h3). Some (exchange_finish dev output ts transmitted h3))))"

section \<open>Advertising exchange\<close>

record adv_state =
  as_deadline :: nat
  as_armed :: bool
  as_responding :: bool
  as_buffered_end :: "nat option"
  as_received :: "(nat \<times> bool \<times> nat) option"
  as_output :: bytes

datatype adv_control = Adv_Continue adv_state radio_bus | Adv_Break adv_state radio_bus

text \<open>The four parts of one round of the loop, after the deadline check and the status read.\<close>

definition adv_arm :: "radio_device \<Rightarrow> channel \<Rightarrow> nat \<Rightarrow> u32 \<Rightarrow> adv_state \<Rightarrow> radio_bus \<Rightarrow> adv_state \<times> radio_bus" where
  "adv_arm dev channel timeout status s h =
     (if \<not> as_armed s \<and> status AND (LLE_STATUS_TX_TO_RX OR LLE_STATUS_TX_COMPLETE) \<noteq> 0 then
        (let (now, h1) = clock dev (continue_tx_to_rx_1m dev channel h)
         in (s\<lparr>as_armed := True, as_deadline := now + max timeout LEGACY_ADV_RESPONSE_WINDOW_US\<rparr>, h1))
      else (s, h))"

definition adv_buffered :: "radio_device \<Rightarrow> u8 \<Rightarrow> u8 \<Rightarrow> adv_state \<Rightarrow> radio_bus \<Rightarrow> bool \<times> adv_state \<times> radio_bus" where
  "adv_buffered dev pdu_type len s h =
     (let (s1, h1) =
        (if as_armed s \<and> as_buffered_end s = None \<and> legacy_request_payload_len_is_valid pdu_type (unat len) then
           (let (now, h') = clock dev h in (s\<lparr>as_buffered_end := Some (now + (unat len + 3) * 8)\<rparr>, h'))
         else (s, h))
      in if pdu_type = 3 then
           (case as_buffered_end s1 of None \<Rightarrow> (False, s1, h1)
            | Some ending \<Rightarrow> (let (now, h2) = clock dev h1 in (now \<ge> ending, s1, h2)))
         else (False, s1, h1))"

definition adv_captured :: "radio_device \<Rightarrow> radio_bus \<Rightarrow> bool \<times> radio_bus" where
  "adv_captured dev h =
     (let seen = dev_capture_seen dev h; h1 = record_event (CaptureSeenLoad seen) h in
      if \<not> seen then (False, h1)
      else (let (status, h2) = reg_read dev lle_status h1 in
            if status AND (LLE_STATUS_RX_COMPLETE OR LLE_STATUS_RX_CAPTURE_COMPLETE) \<noteq> 0 then (True, h2)
            else (let (left, h3) = reg_read dev lle_operation_countdown h2 in (left = 0, h3))))"

definition adv_finish :: "u32 \<Rightarrow> adv_state \<Rightarrow> radio_bus \<Rightarrow> adv_control" where
  "adv_finish status s h =
     (if as_responding s \<and> status AND (LLE_STATUS_RX_COMPLETE OR LLE_STATUS_TX_COMPLETE) \<noteq> 0 then Adv_Break s h else Adv_Continue s h)"

definition adv_packet ::
    "radio_device \<Rightarrow> channel \<Rightarrow> u32 \<Rightarrow> nat \<Rightarrow> device_address \<Rightarrow> u8 \<Rightarrow> u32 \<Rightarrow> adv_state \<Rightarrow> radio_bus \<Rightarrow> adv_control" where
  "adv_packet dev channel response response_len address len status s h =
     (let (bb, h1) = reg_read dev bb_interrupt_status h;
          ok = (bb AND push_bit 5 1 = 0);
          (n, output', h2) = copy_received_packet dev (as_output s) True h1;
          s1 = s\<lparr>as_output := output'\<rparr>
      in if \<not> n \<ge> 2 then adv_finish status s1 h2
         else (let (b0, h3) = read_dma_byte dev 0 h2 in
           if b0 = 0xff then adv_finish status s1 h3
           else (let (t, h4) = clock dev h3;
                     s2 = s1\<lparr>as_received := Some (n, ok, t)\<rparr>
                 in if ok \<and> is_scan_request (take n output') address then
                      (let (now, h5) = clock dev (release_receive_to_transmit_1m dev channel response response_len len h4)
                       in Adv_Continue (s2\<lparr>as_responding := True, as_deadline := now + 1000\<rparr>) h5)
                    else Adv_Break s2 h4)))"

definition adv_round ::
    "radio_device \<Rightarrow> channel \<Rightarrow> nat \<Rightarrow> u32 \<Rightarrow> nat \<Rightarrow> device_address \<Rightarrow> adv_state \<Rightarrow> radio_bus \<Rightarrow> adv_control" where
  "adv_round dev channel timeout response response_len address s h =
     (let (status, h1) = reg_read dev lle_status h;
          (s1, h2) = adv_arm dev channel timeout status s h1;
          (b0, h3) = read_dma_byte dev 0 h2; pdu_type = b0 AND 0x0f;
          (b1, h4) = read_dma_byte dev 1 h3; len = b1 AND 0x3f;
          (buffered_scan, s2, h5) = adv_buffered dev pdu_type len s1 h4;
          (captured, h6) = adv_captured dev h5
      in if as_armed s2 \<and> \<not> as_responding s2 \<and> (status AND LLE_STATUS_RX_TO_TX \<noteq> 0 \<or> captured \<or> buffered_scan)
         then adv_packet dev channel response response_len address len status s2 h6
         else adv_finish status s2 h6)"

partial_function (option) adv_loop ::
    "radio_device \<Rightarrow> channel \<Rightarrow> nat \<Rightarrow> u32 \<Rightarrow> nat \<Rightarrow> device_address \<Rightarrow> adv_state \<Rightarrow> radio_bus \<Rightarrow> (adv_state \<times> radio_bus) option" where
  "adv_loop dev channel timeout response response_len address s h =
     (let (now, h1) = clock dev h in
      if \<not> now < as_deadline s then Some (s, h1)
      else case adv_round dev channel timeout response response_len address s h1 of
        Adv_Break s' h' \<Rightarrow> Some (s', h')
      | Adv_Continue s' h' \<Rightarrow> adv_loop dev channel timeout response response_len address s' h')"

definition adv_prepare :: "radio_device \<Rightarrow> radio_bus \<Rightarrow> radio_bus" where
  "adv_prepare dev = steps
     [record_event RxFill, reg_write lle_rx_buffer (rx_address dev),
      prepare_common_operation dev LLE_MODE_TX,
      reg_modify dev lle_config (\<lambda>v. v OR 1),
      clear_lle_status, clear_bb_interrupt_status dev,
      reg_write lle_operation_countdown 0xa0]"

definition adv_launch :: "radio_device \<Rightarrow> nat \<Rightarrow> radio_bus \<Rightarrow> radio_bus" where
  "adv_launch dev transmit_len = steps
     [configure_transmit_phy_1m dev transmit_len,
      record_event (CountdownStore (rx_1m_capture_countdown LEGACY_ADV_RX_MAX_LEN)),
      record_event (CaptureSeenStore False),
      start_transmit_operation dev]"

definition adv_result :: "radio_device \<Rightarrow> adv_state \<Rightarrow> radio_bus \<Rightarrow> (radio_error + received_packet) \<times> bytes \<times> radio_bus" where
  "adv_result dev s h =
     (let (level, h1) = reg_read dev bb_rssi_status h;
          h2 = shut_down_operation dev h1
      in case as_received s of None \<Rightarrow> (Inl Err_Timeout, as_output s, h2)
         | Some (n, ok, t) \<Rightarrow>
             (Inr \<lparr>payload = take n (as_output s), rssi_dbm = rssi_of level, crc_ok = ok, timestamp_us = t\<rparr>, as_output s, h2))"

definition advertising_exchange ::
    "radio_device \<Rightarrow> radio \<Rightarrow> channel \<Rightarrow> nat \<Rightarrow> bytes \<Rightarrow> bytes \<Rightarrow> bytes \<Rightarrow> bytes \<Rightarrow> radio_bus
       \<Rightarrow> ((radio_error + received_packet) \<times> bytes \<times> radio_bus) option" where
  "advertising_exchange dev r channel timeout transmit scan_response advertiser_address output h =
     (case stage_transmit dev r channel transmit h of (Inl e, h1) \<Rightarrow> Some (Inl e, output, h1)
      | (Inr _, h1) \<Rightarrow>
     (case stage_response dev scan_response h1 of (Inl e, h2) \<Rightarrow> Some (Inl e, output, h2)
      | (Inr response, h2) \<Rightarrow>
     (case wait_for_settle_countdown dev (adv_prepare dev h2) of (Inl e, h3) \<Rightarrow> Some (Inl e, output, h3)
      | (Inr _, h3) \<Rightarrow>
          (let (now, h4) = clock dev (adv_launch dev (length transmit) h3);
               address = \<lparr>da_bytes = advertiser_address, da_kind = (if transmit ! 0 AND push_bit 6 1 \<noteq> 0 then Random else Public)\<rparr>;
               s = \<lparr>as_deadline = now + 2000, as_armed = False, as_responding = False, as_buffered_end = None,
                    as_received = None, as_output = output\<rparr>
           in Option.bind (adv_loop dev channel timeout response (length scan_response) address s h4)
                (\<lambda>(s', h5). Some (adv_result dev s' h5))))))"

section \<open>Baseband interrupt\<close>

definition BLEB :: "radio_device \<Rightarrow> radio_bus \<Rightarrow> radio_bus" where
  "BLEB dev h =
     (let (status, h1) = reg_read dev (BB_BASE + 0x38) h;
          h2 = (if status AND push_bit 6 1 \<noteq> 0 then
                  (let h' = reg_write (BB_BASE + 0x38) (capture_ack status) h1;
                       countdown = dev_countdown dev h';
                       h'' = record_event (CountdownLoad countdown) h'
                   in if countdown \<noteq> 0 then
                        steps [reg_write (LLE_BASE + 0x08) LLE_STATUS_TIMING, reg_write (LLE_BASE + 0x64) countdown,
                               record_event (CaptureSeenStore True)] h''
                      else h'')
                else h1)
      in reg_modify dev (BB_BASE + 0x38) (\<lambda>remaining. remaining AND 0x190) h2)"

end
