(* ===== verification/Radio_Safety.thy ===== *)
theory Radio_Safety
  imports Radio
begin

text \<open>
  Safety of the radio driver on every device: an operation that has begun ends with the radio idle, a
  response is released only for a checked packet and reported as transmitted only after a fresh
  completion, copies stay within the caller's buffer, and an exchange ends if the clock runs.
\<close>

section \<open>Growing histories\<close>

definition grows :: "radio_bus \<Rightarrow> radio_bus \<Rightarrow> bool" where
  "grows h h' \<longleftrightarrow> (\<exists>t. h' = h @ t)"

lemma grows_refl [simp, intro]: "grows h h"
  by (simp add: grows_def)

lemma grows_trans [trans]: "grows h h1 \<Longrightarrow> grows h1 h2 \<Longrightarrow> grows h h2"
  by (auto simp: grows_def)

lemma grows_length: "grows h h' \<Longrightarrow> length h \<le> length h'"
  by (auto simp: grows_def)

text \<open>A statement only adds to the history.\<close>

definition statement :: "(radio_bus \<Rightarrow> radio_bus) \<Rightarrow> bool" where
  "statement f \<longleftrightarrow> (\<forall>h. grows h (f h))"

lemma statement_prims [simp, intro]:
  "statement (reg_write a v)" "statement (reg_modify dev a f)" "statement (half_write a w)" "statement (record_event e)"
  by (auto simp: statement_def grows_def reg_write_def reg_modify_def reg_read_def half_write_def record_event_def)

lemma statement_steps [simp, intro]: "list_all statement fs \<Longrightarrow> statement (steps fs)"
proof (induction fs)
  case Nil
  show ?case by (simp add: statement_def steps_def)
next
  case (Cons f fs)
  then have "statement f" "statement (steps fs)" by auto
  then show ?case unfolding statement_def steps_def by (auto intro: grows_trans)
qed

lemma steps_simps [simp]: "steps [] h = h" "steps (f # fs) h = steps fs (f h)"
  by (simp_all add: steps_def)

lemma grows_statement: "statement f \<Longrightarrow> grows h h' \<Longrightarrow> grows h (f h')"
  by (auto simp: statement_def intro: grows_trans)

lemma grows_reads:
  "grows h h' \<Longrightarrow> grows h (snd (reg_read dev a h'))" "grows h h' \<Longrightarrow> grows h (snd (read_dma_byte dev i h'))"
  "grows h h' \<Longrightarrow> grows h (snd (clock dev h'))"
  by (auto simp: grows_def reg_read_def read_dma_byte_def clock_def)

section \<open>Last writes and the idle radio\<close>

definition last_write :: "u32 \<Rightarrow> radio_bus \<Rightarrow> u32 option" where
  "last_write a h = fold (\<lambda>e acc. case e of RegWrite b v \<Rightarrow> if b = a then Some v else acc | _ \<Rightarrow> acc) h None"

lemma last_write_prims [simp]:
  "last_write a (reg_write b v h) = (if b = a then Some v else last_write a h)"
  "last_write a (reg_modify dev b f h) = (if b = a then Some (f (dev_reg dev h b)) else last_write a h)"
  "last_write a (half_write b w h) = last_write a h"
  by (simp_all add: last_write_def reg_write_def reg_modify_def reg_read_def half_write_def)

lemma last_write_events [simp]:
  "last_write a (record_event (CountdownStore v) h) = last_write a h" "last_write a (record_event IrqEnable h) = last_write a h"
  "last_write a (record_event IrqUnpend h) = last_write a h" "last_write a (h @ [ClockRead t]) = last_write a h"
  "last_write a (h @ [RegRead b v]) = last_write a h" "last_write a (h @ [RegRead b v, RegRead c u]) = last_write a h"
  by (simp_all add: last_write_def record_event_def)

definition radio_idle :: "radio_bus \<Rightarrow> bool" where
  "radio_idle h \<longleftrightarrow> last_write lle_mode h = Some LLE_MODE_IDLE
     \<and> (\<exists>v. last_write bb_config h = Some v \<and> v AND BB_MODE_MASK = BB_MODE_IDLE)
     \<and> (\<exists>v. last_write (RFEND_BASE + 0x08) h = Some v \<and> v AND 0x00320000 = 0)"

lemmas radio_addresses = bb_config_def lle_mode_def lle_command_def lle_status_def lle_config_def lle_operation_countdown_def
  bb_interrupt_status_def bb_tx_control_def lle_tx_buffer_def lle_rx_buffer_def lle_rx_to_tx_timing_def lle_interrupt_enable_def
  bb_receive_config_18_def bb_rssi_status_def LLE_TX_BUFFER_OFFSET_def LLE_RX_BUFFER_OFFSET_def BB_BASE_def LLE_BASE_def RFEND_BASE_def

lemma mode_field: "((v AND NOT BB_MODE_MASK) OR BB_MODE_IDLE) AND BB_MODE_MASK = BB_MODE_IDLE"
proof -
  have "((v AND NOT BB_MODE_MASK) OR BB_MODE_IDLE) AND BB_MODE_MASK = BB_MODE_IDLE AND BB_MODE_MASK"
    by (rule bit_eqI) (auto simp: bit_simps)
  then show ?thesis by (simp add: BB_MODE_MASK_def BB_MODE_IDLE_def)
qed

lemma analog_field: "(v AND 0xffcdffff) AND 0x00320000 = (0 :: u32)"
proof -
  have "(v AND 0xffcdffff) AND 0x00320000 = v AND (0xffcdffff AND 0x00320000 :: u32)" by (simp only: and.assoc)
  then show ?thesis by simp
qed

lemma shut_down_idle: "radio_idle (shut_down_operation dev h)"
  by (auto simp: shut_down_operation_def radio_idle_def mode_field analog_field radio_addresses)

lemma statement_shut_down [simp, intro]: "statement (shut_down_operation dev)"
  by (simp add: shut_down_operation_def)

lemma statement_ops [simp, intro]:
  "statement (configure_ch585_synth dev ch rx)" "statement (set_channel dev ch)" "statement (set_receive_channel dev ch)"
  "statement (prepare_common_operation dev mode)" "statement (prepare_receive_operation dev)"
  "statement (configure_transmit_phy_1m dev n)" "statement (configure_receive_phy_1m dev)"
  "statement (start_transmit_operation dev)" "statement clear_lle_status" "statement (clear_bb_interrupt_status dev)"
  by (simp_all add: configure_ch585_synth_def set_channel_def set_receive_channel_def prepare_common_operation_def Let_def
      prepare_receive_operation_def configure_transmit_phy_1m_def configure_receive_phy_1m_def start_transmit_operation_def
      clear_lle_status_def clear_bb_interrupt_status_def)

lemma statement_compounds [simp, intro]:
  "statement (continue_tx_to_rx_1m dev ch)" "statement (release_receive_to_transmit_1m dev ch a n l)"
  "statement (release_exchange dev ch n l)" "statement (exchange_start dev ch timeout)"
  by (simp_all add: continue_tx_to_rx_1m_def release_receive_to_transmit_1m_def release_exchange_def exchange_start_def)

section \<open>Copies out of the DMA bank\<close>

fun dma_bytes :: "radio_bus \<Rightarrow> bytes" where
  "dma_bytes [] = []"
| "dma_bytes (RxByte i b # t) = b # dma_bytes t"
| "dma_bytes (_ # t) = dma_bytes t"

lemma dma_bytes_append [simp]: "dma_bytes (s @ t) = dma_bytes s @ dma_bytes t"
  by (induction s rule: dma_bytes.induct) auto

text \<open>A copy reads the bank at consecutive indices, each octet once.\<close>

fun dma_from :: "nat \<Rightarrow> radio_bus \<Rightarrow> bool" where
  "dma_from i [] = True"
| "dma_from i (RxByte j b # t) \<longleftrightarrow> j = i \<and> dma_from (i + 1) t"
| "dma_from i (_ # t) = False"

lemma copy_bytes_ok:
  "i \<le> n \<Longrightarrow> n \<le> length out \<Longrightarrow> \<exists>t. snd (copy_bytes dev i n out h) = h @ t \<and> dma_from i t \<and> length t = n - i
     \<and> fst (copy_bytes dev i n out h) = take i out @ dma_bytes t @ drop n out \<and> length (dma_bytes t) = n - i"
proof (induction dev i n out h rule: copy_bytes.induct)
  case (1 dev i n out h)
  show ?case
  proof (cases "i < n")
    case False
    then have "copy_bytes dev i n out h = (out, h)" by (subst copy_bytes.simps) simp
    then show ?thesis using False 1(2) by simp
  next
    case True
    let ?b = "dev_rx dev h i"
    let ?r = "copy_bytes dev (i + 1) n (out[i := ?b]) (h @ [RxByte i ?b])"
    have e: "copy_bytes dev i n out h = ?r" using True by (subst copy_bytes.simps) (simp add: read_dma_byte_def)
    have "\<exists>t. snd ?r = (h @ [RxByte i ?b]) @ t \<and> dma_from (i + 1) t \<and> length t = n - (i + 1)
        \<and> fst ?r = take (i + 1) (out[i := ?b]) @ dma_bytes t @ drop n (out[i := ?b]) \<and> length (dma_bytes t) = n - (i + 1)"
      by (rule 1(1) [OF True refl]) (use True 1(3) in \<open>simp_all add: read_dma_byte_def\<close>)
    then obtain t where t: "snd ?r = h @ RxByte i ?b # t" "dma_from (i + 1) t" "length t = n - (i + 1)"
      "fst ?r = take (i + 1) (out[i := ?b]) @ dma_bytes t @ drop n (out[i := ?b])" "length (dma_bytes t) = n - (i + 1)" by auto
    have "take (i + 1) (out[i := ?b]) = take i out @ [?b]" using True 1(3) by (simp add: take_Suc_conv_app_nth)
    then show ?thesis unfolding e using t True by (intro exI [of _ "RxByte i ?b # t"]) auto
  qed
qed

lemma copy_packet_ok:
  assumes "copy_received_packet dev out adv h = (n, out', h')"
  shows "grows h h' \<and> length out' = length out \<and> n \<le> length out
    \<and> (n = 0 \<and> out' = out
       \<or> (\<exists>t. h' = h @ RxByte 1 (dev_rx dev h 1) # t \<and> dma_from 0 t \<and> out' = dma_bytes t @ drop n out \<and> length (dma_bytes t) = n
            \<and> n = 2 + unat (if adv then dev_rx dev h 1 AND 0x3f else dev_rx dev h 1)
            \<and> n \<le> (if adv then 39 else 29)))"
proof -
  let ?b = "dev_rx dev h 1"
  let ?h1 = "h @ [RxByte 1 ?b]"
  let ?len = "if adv then unat (?b AND 0x3f) else unat ?b"
  note d = copy_received_packet_def read_dma_byte_def
  note lens = classify_received_length_def LL_HEADER_LEN_def RF_DMA_BUFFER_LEN_def MAX_LEGACY_ADV_WIRE_LEN_def MAX_DATA_WIRE_LEN_def
    MAX_LEGACY_ADV_PAYLOAD_LEN_def MAX_LL_DATA_PAYLOAD_LEN_def
  show ?thesis
  proof (cases "classify_received_length adv ?len")
    case (Accepted w)
    then have w: "w = 2 + ?len" "w \<le> (if adv then 39 else 29)" by (auto simp: lens Let_def split: if_splits)
    show ?thesis
    proof (cases "length out < w")
      case True
      then show ?thesis using assms Accepted by (auto simp: d grows_def)
    next
      case False
      then obtain t where t: "snd (copy_bytes dev 0 w out ?h1) = ?h1 @ t" "dma_from 0 t"
        "fst (copy_bytes dev 0 w out ?h1) = dma_bytes t @ drop w out" "length (dma_bytes t) = w"
        using copy_bytes_ok [of 0 w out dev ?h1] by auto
      have "copy_bytes dev 0 w out ?h1 = (dma_bytes t @ drop w out, ?h1 @ t)" using t by (simp add: prod_eq_iff)
      then have "copy_received_packet dev out adv h = (w, dma_bytes t @ drop w out, ?h1 @ t)"
        using Accepted False t by (cases adv) (simp_all add: d case_prod_unfold Let_def)
      then show ?thesis using assms t False w by (auto simp: grows_def)
    qed
  qed (use assms in \<open>auto simp: d grows_def record_event_def\<close>)
qed

section \<open>A monitor of the response release\<close>

text \<open>
  The monitor watches the events of one exchange: the last length octet and baseband status read,
  whether the response has been released (the mode register set to transmit) and whether a later status
  read showed its completion. It rejects a second release and a release without a fresh length of at
  most 27 and a clear CRC-error bit.
\<close>

record watcher =
  w_ok :: bool
  w_released :: bool
  w_completed :: bool
  w_len :: "u8 option"
  w_bb :: "u32 option"

definition checked :: "watcher \<Rightarrow> bool" where
  "checked w \<longleftrightarrow> (\<exists>l b. w_len w = Some l \<and> w_bb w = Some b \<and> unat l \<le> 27 \<and> b AND push_bit 5 1 = 0)"

fun watch_step :: "watcher \<Rightarrow> radio_event \<Rightarrow> watcher" where
  "watch_step w (RxByte i v) = (if i = 1 then w\<lparr>w_len := Some v\<rparr> else w)"
| "watch_step w (RegRead a v) =
     (if a = bb_interrupt_status then w\<lparr>w_bb := Some v\<rparr>
      else if a = lle_status \<and> w_released w \<and> v AND LLE_STATUS_RX_COMPLETE \<noteq> 0 then w\<lparr>w_completed := True\<rparr> else w)"
| "watch_step w (RegWrite a v) =
     (if a = lle_mode \<and> v = LLE_MODE_TX then w\<lparr>w_ok := w_ok w \<and> \<not> w_released w \<and> checked w, w_released := True\<rparr> else w)"
| "watch_step w _ = w"

definition watch :: "nat \<Rightarrow> radio_bus \<Rightarrow> watcher" where
  "watch n h = foldl watch_step \<lparr>w_ok = True, w_released = False, w_completed = False, w_len = None, w_bb = None\<rparr> (drop n h)"

lemma watch_snoc: "n \<le> length h \<Longrightarrow> watch n (h @ [e]) = watch_step (watch n h) e"
  by (simp add: watch_def)

lemma watch_snoc2: "n \<le> length h \<Longrightarrow> watch n (h @ [e, e']) = watch_step (watch_step (watch n h) e) e'"
  by (simp add: watch_def)

definition flags :: "watcher \<Rightarrow> bool \<times> bool \<times> bool" where
  "flags w = (w_ok w, w_released w, w_completed w)"

text \<open>Statements the monitor does not see, and statements that keep its verdict.\<close>

definition quiet :: "(radio_bus \<Rightarrow> radio_bus) \<Rightarrow> bool" where
  "quiet f \<longleftrightarrow> statement f \<and> (\<forall>n h. n \<le> length h \<longrightarrow> watch n (f h) = watch n h)"

definition keeps :: "(radio_bus \<Rightarrow> radio_bus) \<Rightarrow> bool" where
  "keeps f \<longleftrightarrow> statement f \<and> (\<forall>n h. n \<le> length h \<longrightarrow> flags (watch n (f h)) = flags (watch n h))"

lemma quiet_keeps: "quiet f \<Longrightarrow> keeps f"
  by (simp add: quiet_def keeps_def)

lemma statement_length: "statement f \<Longrightarrow> length h \<le> length (f h)"
  by (auto simp: statement_def dest: grows_length)

lemma quiet_steps [simp, intro]: "list_all quiet fs \<Longrightarrow> quiet (steps fs)"
proof (induction fs)
  case Nil
  show ?case by (simp add: quiet_def statement_def)
next
  case (Cons f fs)
  then have f: "quiet f" and fs: "quiet (steps fs)" by auto
  then have "statement (steps (f # fs))" by (auto simp: quiet_def statement_def intro: grows_trans)
  moreover have "watch n (steps (f # fs) h) = watch n h" if "n \<le> length h" for n h
    using f fs that statement_length [of f h] unfolding quiet_def by (metis le_trans steps_simps(2))
  ultimately show ?case unfolding quiet_def by blast
qed

lemma keeps_steps [simp, intro]: "list_all keeps fs \<Longrightarrow> keeps (steps fs)"
proof (induction fs)
  case Nil
  show ?case by (simp add: keeps_def statement_def)
next
  case (Cons f fs)
  then have f: "keeps f" and fs: "keeps (steps fs)" by auto
  then have "statement (steps (f # fs))" by (auto simp: keeps_def statement_def intro: grows_trans)
  moreover have "flags (watch n (steps (f # fs) h)) = flags (watch n h)" if "n \<le> length h" for n h
    using f fs that statement_length [of f h] unfolding keeps_def by (metis le_trans steps_simps(2))
  ultimately show ?case unfolding keeps_def by blast
qed

lemma special_registers [simp]:
  "lle_mode \<noteq> bb_interrupt_status" "lle_mode \<noteq> lle_status"
  "lle_command \<noteq> bb_interrupt_status" "lle_command \<noteq> lle_status" "lle_command \<noteq> lle_mode"
  "bb_config \<noteq> bb_interrupt_status" "bb_config \<noteq> lle_status" "bb_config \<noteq> lle_mode"
  "RFEND_BASE + 0x08 \<noteq> bb_interrupt_status" "RFEND_BASE + 0x08 \<noteq> lle_status" "RFEND_BASE + 0x08 \<noteq> lle_mode"
  "RFEND_BASE + 0x2c \<noteq> bb_interrupt_status" "RFEND_BASE + 0x2c \<noteq> lle_status" "RFEND_BASE + 0x2c \<noteq> lle_mode"
  "RFEND_BASE + 0x44 \<noteq> bb_interrupt_status" "RFEND_BASE + 0x44 \<noteq> lle_status" "RFEND_BASE + 0x44 \<noteq> lle_mode"
  "bb_tx_control \<noteq> bb_interrupt_status" "bb_tx_control \<noteq> lle_status" "bb_tx_control \<noteq> lle_mode"
  "lle_interrupt_enable \<noteq> bb_interrupt_status" "lle_interrupt_enable \<noteq> lle_status" "lle_interrupt_enable \<noteq> lle_mode"
  "lle_config \<noteq> bb_interrupt_status" "lle_config \<noteq> lle_status" "lle_config \<noteq> lle_mode"
  "bb_receive_config_18 \<noteq> bb_interrupt_status" "bb_receive_config_18 \<noteq> lle_status" "bb_receive_config_18 \<noteq> lle_mode"
  "lle_operation_countdown \<noteq> bb_interrupt_status" "lle_operation_countdown \<noteq> lle_status" "lle_operation_countdown \<noteq> lle_mode"
  "lle_rx_to_tx_timing \<noteq> bb_interrupt_status" "lle_rx_to_tx_timing \<noteq> lle_status" "lle_rx_to_tx_timing \<noteq> lle_mode"
  "lle_tx_buffer \<noteq> bb_interrupt_status" "lle_tx_buffer \<noteq> lle_status" "lle_tx_buffer \<noteq> lle_mode"
  "lle_rx_buffer \<noteq> bb_interrupt_status" "lle_rx_buffer \<noteq> lle_status" "lle_rx_buffer \<noteq> lle_mode"
  "bb_rssi_status \<noteq> bb_interrupt_status" "bb_rssi_status \<noteq> lle_status" "bb_rssi_status \<noteq> lle_mode"
  "bb_interrupt_status \<noteq> lle_status" "lle_status \<noteq> bb_interrupt_status" "lle_status \<noteq> lle_mode" "bb_interrupt_status \<noteq> lle_mode"
  by (simp_all add: radio_addresses)

lemma special_modes [simp]: "LLE_MODE_IDLE \<noteq> LLE_MODE_TX" "LLE_MODE_RX \<noteq> LLE_MODE_TX"
  by (simp_all add: LLE_MODE_IDLE_def LLE_MODE_RX_def LLE_MODE_TX_def)

lemma quiet_write: "a \<noteq> lle_mode \<or> v \<noteq> LLE_MODE_TX \<Longrightarrow> quiet (reg_write a v)"
  by (auto simp: quiet_def reg_write_def watch_snoc statement_def grows_def)

lemma quiet_modify:
  "a \<noteq> bb_interrupt_status \<Longrightarrow> a \<noteq> lle_status \<Longrightarrow> a \<noteq> lle_mode \<or> (\<forall>v. f v \<noteq> LLE_MODE_TX) \<Longrightarrow> quiet (reg_modify dev a f)"
  by (auto simp: quiet_def reg_modify_def reg_read_def reg_write_def watch_snoc2 statement_def grows_def)

lemma keeps_modify_bb: "keeps (reg_modify dev bb_interrupt_status f)"
  by (auto simp: keeps_def reg_modify_def reg_read_def reg_write_def watch_snoc2 statement_def grows_def flags_def radio_addresses)

lemma quiet_half: "quiet (half_write a v)"
  by (auto simp: quiet_def half_write_def watch_snoc statement_def grows_def)

lemma quiet_event: "(\<And>w. watch_step w e = w) \<Longrightarrow> quiet (record_event e)"
  by (auto simp: quiet_def record_event_def watch_snoc statement_def grows_def)

text \<open>The mode writes of the shut-down are never the transmit mode.\<close>

lemma not_tx_mode: "v AND NOT 0x10 \<noteq> LLE_MODE_TX" "v AND NOT 0x700 \<noteq> LLE_MODE_TX"
proof -
  have "bit (v AND NOT 0x10) 4 = False" "bit (v AND NOT 0x700) 9 = False" by (simp_all add: bit_simps)
  moreover have "bit LLE_MODE_TX 4" "bit LLE_MODE_TX 9" by (simp_all add: LLE_MODE_TX_def)
  ultimately show "v AND NOT 0x10 \<noteq> LLE_MODE_TX" "v AND NOT 0x700 \<noteq> LLE_MODE_TX" by metis+
qed

lemmas quiet_prims = quiet_write quiet_modify quiet_half quiet_event

lemma quiet_modes:
  "quiet (reg_modify dev lle_mode (\<lambda>v. v AND NOT 0x10))" "quiet (reg_modify dev lle_mode (\<lambda>v. v AND NOT 0x700))"
  by (intro quiet_modify disjI2 allI not_tx_mode special_registers)+

lemma quiet_synth: "quiet (configure_ch585_synth dev ch rx)"
  by (simp add: configure_ch585_synth_def Let_def quiet_prims)

lemma quiet_tx_phy: "quiet (configure_transmit_phy_1m dev n)"
  by (simp add: configure_transmit_phy_1m_def quiet_prims)

lemma quiet_rx_phy: "quiet (configure_receive_phy_1m dev)"
  by (simp add: configure_receive_phy_1m_def quiet_prims)

lemma quiet_channels: "quiet (set_channel dev ch)" "quiet (set_receive_channel dev ch)"
  by (simp_all add: set_channel_def set_receive_channel_def quiet_synth quiet_prims)

lemma quiet_shut_down: "quiet (shut_down_operation dev)"
  by (simp add: shut_down_operation_def quiet_prims quiet_modes [simplified])

lemma keeps_clear_bb: "keeps (clear_bb_interrupt_status dev)"
  by (simp add: clear_bb_interrupt_status_def keeps_modify_bb)

lemma keeps_exchange_start: "keeps (exchange_start dev ch timeout)"
  by (simp add: exchange_start_def prepare_common_operation_def clear_lle_status_def keeps_clear_bb
      quiet_keeps quiet_channels quiet_rx_phy quiet_prims)

lemma release_watch:
  assumes "n \<le> length h"
  shows "watch n (release_exchange dev ch m l h)
    = (watch n h)\<lparr>w_ok := w_ok (watch n h) \<and> \<not> w_released (watch n h) \<and> checked (watch n h), w_released := True\<rparr>"
proof -
  let ?before = "steps [reg_write lle_rx_to_tx_timing (rx_to_tx_timing l), reg_write lle_status LLE_STATUS_RX_COMPLETE,
      reg_write lle_status LLE_STATUS_RX_TO_TX, reg_modify dev bb_tx_control (\<lambda>v. (v AND NOT 0x03) OR 0x01),
      configure_transmit_phy_1m dev m, configure_ch585_synth dev ch False,
      reg_modify dev bb_config (\<lambda>v. (v AND NOT BB_MODE_MASK) OR BB_MODE_ACTIVE OR push_bit 23 1),
      reg_modify dev (RFEND_BASE + 0x08) (\<lambda>v. v OR 0x00330000)]"
  have b: "quiet ?before" by (simp add: quiet_synth quiet_tx_phy quiet_prims)
  have a: "quiet (reg_modify dev bb_tx_control (\<lambda>v. v AND NOT 0x03))" by (simp add: quiet_prims)
  let ?h1 = "?before h"
  have l: "n \<le> length ?h1" using b assms statement_length [of ?before h] by (simp add: quiet_def)
  have "release_exchange dev ch m l h = reg_modify dev bb_tx_control (\<lambda>v. v AND NOT 0x03) (reg_write lle_mode LLE_MODE_TX ?h1)"
    by (simp add: release_exchange_def)
  moreover have "watch n (reg_write lle_mode LLE_MODE_TX ?h1) = watch_step (watch n ?h1) (RegWrite lle_mode LLE_MODE_TX)"
    using l by (simp only: reg_write_def watch_snoc)
  moreover have "n \<le> length (reg_write lle_mode LLE_MODE_TX ?h1)" using l by (simp add: reg_write_def)
  ultimately show ?thesis using a b assms by (simp add: quiet_def)
qed

lemma release_exchange_ok:
  "n \<le> length h \<Longrightarrow> w_ok (watch n h) \<Longrightarrow> \<not> w_released (watch n h) \<Longrightarrow> checked (watch n h) \<Longrightarrow>
   w_ok (watch n (release_exchange dev ch m l h)) \<and> w_released (watch n (release_exchange dev ch m l h))"
  by (simp add: release_watch)

section \<open>The exchange loop\<close>

definition clock_reads :: "radio_bus \<Rightarrow> nat" where
  "clock_reads h = length (filter (\<lambda>e. case e of ClockRead _ \<Rightarrow> True | _ \<Rightarrow> False) h)"

text \<open>A clock that runs: some number of reads always takes at least a microsecond.\<close>

definition clock_runs :: "radio_device \<Rightarrow> bool" where
  "clock_runs dev \<longleftrightarrow> (\<exists>n>0. \<forall>h. clock_reads h div n \<le> dev_now dev h)"

lemma clock_reads_grows: "grows h h' \<Longrightarrow> clock_reads h \<le> clock_reads h'"
  by (auto simp: grows_def clock_reads_def)

lemma clock_reads_snoc [simp]:
  "clock_reads (h @ [ClockRead t]) = Suc (clock_reads h)" "clock_reads (h @ [RegRead a v]) = clock_reads h"
  "clock_reads (h @ [RxByte i b]) = clock_reads h"
  by (simp_all add: clock_reads_def)

lemma watch_app [simp]: "n \<le> length h \<Longrightarrow> watch n (h @ t) = foldl watch_step (watch n h) t"
  by (simp add: watch_def)

lemma exchange_loop_ok:
  assumes N: "0 < N" "\<And>h. clock_reads h div N \<le> dev_now dev h"
  shows "n \<le> length h \<Longrightarrow> w_ok (watch n h) \<Longrightarrow> w_released (watch n h) = turnaround \<Longrightarrow> turnaround \<longrightarrow> ts \<noteq> None \<Longrightarrow>
    \<exists>ts' tr h'. exchange_loop dev ch m rdl D ts turnaround h = Some (ts', tr, h') \<and> grows h h' \<and> w_ok (watch n h')
      \<and> (tr \<longrightarrow> w_completed (watch n h')) \<and> (w_released (watch n h') \<longrightarrow> ts' \<noteq> None) \<and> (tr \<longrightarrow> w_released (watch n h'))"
proof (induction "N * D - clock_reads h" arbitrary: h ts turnaround rule: less_induct)
  case less
  note w = less.prems
  let ?now = "dev_now dev h"
  let ?h1 = "h @ [ClockRead ?now]"
  let ?st = "dev_reg dev ?h1 lle_status"
  let ?h2 = "?h1 @ [RegRead lle_status ?st]"
  let ?P = "\<lambda>r. \<exists>ts' tr h'. r = Some (ts', tr, h') \<and> grows h h' \<and> w_ok (watch n h')
      \<and> (tr \<longrightarrow> w_completed (watch n h')) \<and> (w_released (watch n h') \<longrightarrow> ts' \<noteq> None) \<and> (tr \<longrightarrow> w_released (watch n h'))"
  have IH: "?P (exchange_loop dev ch m rdl D ts1 tu h')" if a: "grows ?h1 h'" "?now < D" "w_ok (watch n h')"
    "w_released (watch n h') = tu" "tu \<longrightarrow> ts1 \<noteq> None" for h' ts1 tu
  proof -
    have "clock_reads h div N < D" using N(2) [of h] a(2) by linarith
    then have "clock_reads h < N * D" using N(1) by (metis div_less_iff_less_mult mult.commute)
    moreover have "Suc (clock_reads h) \<le> clock_reads h'" using clock_reads_grows [OF a(1)] by simp
    ultimately have "N * D - clock_reads h' < N * D - clock_reads h" by linarith
    moreover have g: "grows h h'" using a(1) by (auto simp: grows_def)
    moreover have "n \<le> length h'" using grows_length [OF g] w(1) by linarith
    ultimately obtain ts' tr h'' where "exchange_loop dev ch m rdl D ts1 tu h' = Some (ts', tr, h'')" "grows h' h''" "w_ok (watch n h'')"
      "tr \<longrightarrow> w_completed (watch n h'')" "w_released (watch n h'') \<longrightarrow> ts' \<noteq> None" "tr \<longrightarrow> w_released (watch n h'')"
      using less.hyps [of h' tu ts1] a(3-5) by blast
    then show ?thesis using g grows_trans by blast
  qed
  show ?case
  proof (cases "?now < D")
    case False
    then have "exchange_loop dev ch m rdl D ts turnaround h = Some (ts, False, ?h1)"
      by (subst exchange_loop.simps) (simp add: clock_def)
    then show ?thesis using w by (auto simp: grows_def)
  next
    case now: True
    have w2: "n \<le> length ?h2" "w_ok (watch n ?h2)" "w_released (watch n ?h2) = turnaround" using w by auto
    show ?thesis
    proof (cases "?st AND LLE_STATUS_RX_TO_TX \<noteq> 0 \<and> \<not> turnaround")
      case True
      let ?l = "dev_rx dev ?h2 1"
      let ?h3 = "?h2 @ [RxByte 1 ?l]"
      let ?t = "dev_now dev ?h3"
      let ?h4 = "?h3 @ [ClockRead ?t]"
      let ?bb = "dev_reg dev ?h4 bb_interrupt_status"
      let ?h5 = "?h4 @ [RegRead bb_interrupt_status ?bb]"
      have e: "exchange_loop dev ch m rdl D ts turnaround h
          = (if ?bb AND push_bit 5 1 \<noteq> 0 \<or> unat ?l > CONNECTION_RX_MAX_WIRE_PAYLOAD_LEN then Some (Some ?t, False, ?h5)
             else exchange_loop dev ch m rdl D (Some ?t) True (release_exchange dev ch m ?l ?h5))"
        using now True by (subst exchange_loop.simps) (simp add: clock_def reg_read_def read_dma_byte_def)
      have w5: "n \<le> length ?h5" "w_ok (watch n ?h5)" "\<not> w_released (watch n ?h5)" "w_len (watch n ?h5) = Some ?l" "w_bb (watch n ?h5) = Some ?bb"
        using w True by (auto simp: less_imp_le)
      show ?thesis
      proof (cases "?bb AND push_bit 5 1 \<noteq> 0 \<or> unat ?l > CONNECTION_RX_MAX_WIRE_PAYLOAD_LEN")
        case True
        then show ?thesis unfolding e using w5 by (auto simp: grows_def)
      next
        case False
        then have chk: "checked (watch n ?h5)"
          using w5 by (simp add: checked_def CONNECTION_RX_MAX_WIRE_PAYLOAD_LEN_def MAX_LL_DATA_PAYLOAD_LEN_def)
        have "grows ?h1 ?h5" by (simp add: grows_def)
        then have g: "grows ?h1 (release_exchange dev ch m ?l ?h5)" by (rule grows_statement [OF statement_compounds(3)])
        note r = release_exchange_ok [OF w5(1-3) chk, of dev ch m ?l]
        have "?P (exchange_loop dev ch m rdl D (Some ?t) True (release_exchange dev ch m ?l ?h5))"
          by (rule IH [OF g now]) (use r in blast)+
        then show ?thesis unfolding e using False by (simp only: if_False)
      qed
    next
      case nt: False
      show ?thesis
      proof (cases "turnaround \<and> ?st AND LLE_STATUS_RX_COMPLETE \<noteq> 0")
        case True
        have "exchange_loop dev ch m rdl D ts turnaround h = Some (ts, True, reg_write lle_status LLE_STATUS_RX_COMPLETE ?h2)"
          using now nt True by (subst exchange_loop.simps) (simp add: clock_def reg_read_def)
        moreover have "watch n (reg_write lle_status LLE_STATUS_RX_COMPLETE ?h2) = watch n ?h2"
          using quiet_write [of lle_status LLE_STATUS_RX_COMPLETE] w2(1) by (simp add: quiet_def)
        moreover have "w_completed (watch n ?h2)" using True w by simp
        ultimately show ?thesis using w2 True w(4) by (auto simp: grows_def reg_write_def)
      next
        case nc: False
        let ?c = "dev_reg dev ?h2 lle_operation_countdown"
        let ?h3 = "?h2 @ [RegRead lle_operation_countdown ?c]"
        let ?h4 = "?h3 @ [ClockRead (dev_now dev ?h3)]"
        have e: "exchange_loop dev ch m rdl D ts turnaround h =
            (if ?c = 0 then Some (ts, False, ?h3)
             else if \<not> turnaround then
               (if dev_now dev ?h3 \<ge> rdl then Some (ts, False, ?h4) else exchange_loop dev ch m rdl D ts turnaround ?h4)
             else exchange_loop dev ch m rdl D ts turnaround ?h3)"
          using now nt nc by (subst exchange_loop.simps) (cases turnaround; simp add: clock_def reg_read_def)
        have w34: "w_ok (watch n ?h3)" "w_released (watch n ?h3) = turnaround" "w_ok (watch n ?h4)" "w_released (watch n ?h4) = turnaround"
          using w nc by auto
        have g34: "grows ?h1 ?h3" "grows ?h1 ?h4" "grows h ?h3" "grows h ?h4" by (simp_all add: grows_def)
        have "?P (Some (ts, False, ?h3))" "?P (Some (ts, False, ?h4))" using w34 g34 w(4) by blast+
        moreover have "?P (exchange_loop dev ch m rdl D ts turnaround ?h3)" "?P (exchange_loop dev ch m rdl D ts turnaround ?h4)"
          using IH [OF g34(1) now w34(1,2) w(4)] IH [OF g34(2) now w34(3,4) w(4)] by blast+
        ultimately show ?thesis unfolding e by presburger
      qed
    qed
  qed
qed

section \<open>Whole operations\<close>

primrec inert :: "radio_event \<Rightarrow> bool" where
  "inert (RegRead a v) = False"
| "inert (RegWrite a v) = False"
| "inert (HalfWrite a w) = False"
| "inert (RxByte i b) = True"
| "inert (ClockRead t) = True"
| "inert (CaptureSeenLoad b) = True"
| "inert (CaptureSeenStore b) = True"
| "inert (CountdownLoad v) = True"
| "inert (CountdownStore v) = True"
| "inert (TxStage bs) = True"
| "inert (ResponseStage bs) = True"
| "inert RxFill = True"
| "inert IrqEnable = True"
| "inert IrqDisable = True"
| "inert IrqUnpend = True"
| "inert (DiagnosticStore k v) = True"
| "inert (DiagnosticAdd k) = True"

lemma inert_keeps: "list_all inert t \<Longrightarrow> flags (foldl watch_step w t) = flags w"
proof (induction t arbitrary: w)
  case (Cons e t)
  then have "flags (watch_step w e) = flags w" by (cases e) (auto simp: flags_def)
  with Cons show ?case by simp
qed simp

lemma dma_inert: "dma_from i t \<Longrightarrow> list_all inert t"
  by (induction i t rule: dma_from.induct) auto

lemma copy_inert: "\<exists>t. snd (snd (copy_received_packet dev out adv h)) = h @ t \<and> list_all inert t"
proof -
  obtain m out' h' where c: "copy_received_packet dev out adv h = (m, out', h')" by (cases "copy_received_packet dev out adv h")
  show ?thesis
  proof (cases "m = 0")
    case True
    let ?h1 = "h @ [RxByte 1 (dev_rx dev h 1)]"
    have "0 < 2 + x" for x :: nat by simp
    then have "h' = ?h1 \<or> h' = ?h1 @ [DiagnosticAdd 1] \<or> h' = ?h1 @ [DiagnosticAdd 2]"
      using c True copy_packet_ok [OF c]
      by (auto simp: copy_received_packet_def read_dma_byte_def record_event_def classify_received_length_def LL_HEADER_LEN_def Let_def
          split: ReceiveLengthPolicy.splits if_splits prod.splits)
    then show ?thesis using c by auto
  next
    case False
    then obtain t where "h' = h @ RxByte 1 (dev_rx dev h 1) # t" "dma_from 0 t" using copy_packet_ok [OF c] by blast
    then show ?thesis using c dma_inert by simp
  qed
qed

definition started :: "radio \<Rightarrow> bytes \<Rightarrow> bool" where
  "started r packet \<longleftrightarrow> rd_digital_initialized r \<and> rd_frontend_calibrated r \<and> 2 \<le> length packet \<and> length packet \<le> 64"

lemma stage_transmit_ok:
  "stage_transmit dev r ch packet h =
     (if started r packet then
        (Inr (), steps [record_event (TxStage (encode_transmit_buffer packet)), set_channel dev ch, reg_write lle_tx_buffer (tx_address dev)] h)
      else (Inl (if rd_digital_initialized r \<and> rd_frontend_calibrated r then Err_InvalidPacket else Err_Hardware), h))"
  by (auto simp: stage_transmit_def started_def RF_DMA_BUFFER_LEN_def)

lemma quiet_stage: "quiet (steps [record_event (TxStage bs), set_channel dev ch, reg_write lle_tx_buffer a])"
  by (simp add: quiet_channels quiet_prims)

text \<open>Everything up to the first poll: the staged bank comes first, and nothing has been released.\<close>

definition exchange_begin :: "radio_device \<Rightarrow> channel \<Rightarrow> nat \<Rightarrow> bytes \<Rightarrow> radio_bus \<Rightarrow> radio_bus" where
  "exchange_begin dev ch timeout tx h = exchange_start dev ch timeout
     (steps [record_event (TxStage (encode_transmit_buffer tx)), set_channel dev ch, reg_write lle_tx_buffer (tx_address dev)] h)"

lemma exchange_begin_ok:
  "grows (h @ [TxStage (encode_transmit_buffer tx)]) (exchange_begin dev ch timeout tx h)"
  "flags (watch (length h) (exchange_begin dev ch timeout tx h)) = (True, False, False)"
proof -
  let ?h0 = "h @ [TxStage (encode_transmit_buffer tx)]"
  let ?st = "steps [set_channel dev ch, reg_write lle_tx_buffer (tx_address dev)]"
  let ?h1 = "?st ?h0"
  have q: "quiet ?st" by (simp add: quiet_channels quiet_prims)
  have e: "exchange_begin dev ch timeout tx h = exchange_start dev ch timeout ?h1" by (simp add: exchange_begin_def record_event_def)
  have g: "grows ?h0 ?h1" "watch (length h) ?h1 = watch (length h) ?h0"
    using q unfolding quiet_def statement_def by (blast, simp)
  then have "length h \<le> length ?h1" using grows_length [OF g(1)] by simp
  then have k: "flags (watch (length h) (exchange_start dev ch timeout ?h1)) = flags (watch (length h) ?h1)"
      "grows ?h1 (exchange_start dev ch timeout ?h1)"
    using keeps_exchange_start unfolding keeps_def statement_def by blast+
  show "grows ?h0 (exchange_begin dev ch timeout tx h)" unfolding e using grows_trans [OF g(1) k(2)] .
  show "flags (watch (length h) (exchange_begin dev ch timeout tx h)) = (True, False, False)"
    unfolding e k(1) g(2) by (simp add: flags_def watch_def)
qed

text \<open>The octets of a packet: the values of consecutive DMA reads from offset 0.\<close>

definition from_bank :: "bytes \<Rightarrow> radio_bus \<Rightarrow> bool" where
  "from_bank bs h \<longleftrightarrow> (\<exists>k t l. h = k @ t @ l \<and> dma_from 0 t \<and> dma_bytes t = bs)"

lemma from_bank_grows: "from_bank bs h \<Longrightarrow> grows h h' \<Longrightarrow> from_bank bs h'"
  unfolding from_bank_def grows_def by (metis append.assoc)

lemma exchange_finish_ok:
  assumes "exchange_finish dev out ts tr h = (res, out', h')" "n \<le> length h"
  shows "grows h h' \<and> radio_idle h' \<and> length out' = length out \<and> flags (watch n h') = flags (watch n h)
    \<and> (case res of Inl e \<Rightarrow> True
       | Inr (p, sent) \<Rightarrow> sent = tr \<and> 2 \<le> length (payload p) \<and> length (payload p) \<le> 29
           \<and> payload p = take (length (payload p)) out' \<and> from_bank (payload p) h')"
proof -
  define h4 where "h4 = h @ [RegRead bb_interrupt_status (dev_reg dev h bb_interrupt_status)]"
  obtain len o5 h5 where cp: "copy_received_packet dev out False h4 = (len, o5, h5)" by (cases "copy_received_packet dev out False h4")
  define h6 where "h6 = h5 @ [RegRead bb_rssi_status (dev_reg dev h5 bb_rssi_status)]"
  let ?h7 = "shut_down_operation dev h6"
  obtain t where t: "h5 = h4 @ t" "list_all inert t" using copy_inert [of dev out False h4] cp by auto
  have w6: "flags (watch n h6) = flags (watch n h)"
    using assms(2) t inert_keeps [OF t(2)] by (simp add: h6_def h4_def) (simp add: flags_def)
  have l6: "n \<le> length h6" using assms(2) t by (simp add: h6_def h4_def)
  have w7: "flags (watch n ?h7) = flags (watch n h)" using quiet_shut_down l6 w6 unfolding quiet_def by metis
  have g56: "grows h5 h6" by (simp add: h6_def grows_def)
  have "grows h h6" using t(1) by (auto simp: h6_def h4_def grows_def)
  then have g7: "grows h ?h7" "grows h6 ?h7" by (rule grows_statement [OF statement_shut_down], intro grows_statement [OF statement_shut_down] grows_refl)
  note c = copy_packet_ok [OF cp]
  have bank: "from_bank (take len o5) ?h7" if big: "\<not> len < 2"
  proof -
    obtain t' where "h5 = h4 @ RxByte 1 (dev_rx dev h4 1) # t'" "dma_from 0 t'" "o5 = dma_bytes t' @ drop len out" "length (dma_bytes t') = len"
      using c big by auto
    then have "from_bank (take len o5) h5"
      unfolding from_bank_def by (intro exI [of _ "h4 @ [RxByte 1 (dev_rx dev h4 1)]"] exI [of _ t'] exI [of _ "[]"]) simp
    then show ?thesis using from_bank_grows g56 g7(2) by blast
  qed
  have e: "(res, out', h') = (case ts of None \<Rightarrow> (Inl Err_Timeout, o5, ?h7)
       | Some x \<Rightarrow> if len < 2 then (Inl Err_InvalidPacket, o5, ?h7)
                   else (Inr (\<lparr>payload = take len o5, rssi_dbm = rssi_of (dev_reg dev h5 bb_rssi_status),
                       crc_ok = (dev_reg dev h bb_interrupt_status AND push_bit 5 1 = 0), timestamp_us = x\<rparr>, tr), o5, ?h7))"
    unfolding assms(1) [symmetric] exchange_finish_def using cp by (cases ts) (simp_all add: reg_read_def h4_def h6_def Let_def)
  then have "out' = o5" "h' = ?h7" by (auto split: option.splits if_splits)
  then show ?thesis using e g7(1) w7 c bank shut_down_idle by (auto split: option.splits if_splits)
qed

lemma exchange_eq:
  "exchange dev r ch deadline timeout tx out h =
     (if length out < 29 then Some (Inl Err_InvalidPacket, out, h)
      else if \<not> started r tx then Some (Inl (if rd_digital_initialized r \<and> rd_frontend_calibrated r then Err_InvalidPacket else Err_Hardware), out, h)
      else (let h1 = exchange_begin dev ch timeout tx h;
                receive_deadline = min (dev_now dev h1 + timeout) deadline
            in Option.bind (exchange_loop dev ch (length tx) receive_deadline (receive_deadline + 1000) None False (h1 @ [ClockRead (dev_now dev h1)]))
                 (\<lambda>(ts, transmitted, h3). Some (exchange_finish dev out ts transmitted h3))))"
  by (simp add: exchange_def stage_transmit_ok exchange_begin_def clock_def Let_def CONNECTION_EVENT_RX_BUFFER_LEN_def
      CONNECTION_RX_MAX_WIRE_PAYLOAD_LEN_def MAX_LL_DATA_PAYLOAD_LEN_def del: steps_simps)

text \<open>What an exchange that was not refused does, on a device whose clock runs.\<close>

lemma exchange_runs:
  assumes "clock_runs dev" "29 \<le> length out" "started r tx"
  shows "\<exists>res out' h'. exchange dev r ch deadline timeout tx out h = Some (res, out', h')
    \<and> grows (h @ [TxStage (encode_transmit_buffer tx)]) h' \<and> length out' = length out \<and> radio_idle h' \<and> w_ok (watch (length h) h')
    \<and> (case res of Inl e \<Rightarrow> True
       | Inr (p, transmitted) \<Rightarrow>
           2 \<le> length (payload p) \<and> length (payload p) \<le> 29 \<and> payload p = take (length (payload p)) out' \<and> from_bank (payload p) h'
           \<and> (transmitted \<longrightarrow> w_released (watch (length h) h') \<and> w_completed (watch (length h) h')))"
proof -
  obtain N where N: "0 < N" "\<And>h. clock_reads h div N \<le> dev_now dev h" using assms(1) unfolding clock_runs_def by blast
  let ?n = "length h"
  define h1 where "h1 = exchange_begin dev ch timeout tx h"
  define h2 where "h2 = h1 @ [ClockRead (dev_now dev h1)]"
  define rdl where "rdl = min (dev_now dev h1 + timeout) deadline"
  have b: "grows (h @ [TxStage (encode_transmit_buffer tx)]) h1" "flags (watch ?n h1) = (True, False, False)"
    unfolding h1_def by (rule exchange_begin_ok)+
  have "?n \<le> length h1" using grows_length [OF b(1)] by simp
  then have f2: "?n \<le> length h2" "flags (watch ?n h2) = (True, False, False)" using b(2) by (auto simp: h2_def flags_def)
  obtain ts tr h3 where lp: "exchange_loop dev ch (length tx) rdl (rdl + 1000) None False h2 = Some (ts, tr, h3)" "grows h2 h3"
      "w_ok (watch ?n h3)" "tr \<longrightarrow> w_completed (watch ?n h3)" "tr \<longrightarrow> w_released (watch ?n h3)"
    using exchange_loop_ok [OF N, of ?n h2 False None ch "length tx" rdl "rdl + 1000"] f2 by (auto simp: flags_def)
  obtain res out' h' where fin: "exchange_finish dev out ts tr h3 = (res, out', h')" by (cases "exchange_finish dev out ts tr h3")
  have "?n \<le> length h3" using f2(1) grows_length [OF lp(2)] by linarith
  note ok = exchange_finish_ok [OF fin this]
  have "exchange dev r ch deadline timeout tx out h = Some (res, out', h')"
    using assms(2,3) lp(1) fin by (simp add: exchange_eq Let_def h1_def [symmetric] rdl_def [symmetric] h2_def [symmetric])
  moreover have "grows (h @ [TxStage (encode_transmit_buffer tx)]) h'"
    using b(1) lp(2) ok grows_trans [of _ h1 h2] grows_trans by (auto simp: h2_def grows_def)
  ultimately show ?thesis using ok lp(3-5) by (auto simp: flags_def split: sum.splits)
qed

text \<open>
  C6. The connection exchange on every device whose clock runs: it returns. It refuses, without any
  access, a short buffer, an uninitialized or uncalibrated radio and a packet that is not 2 to
  64 octets long; otherwise it ends with the radio idle (mode register, baseband mode field and analog
  enables). It releases the staged response at most once, and only after reading a length of at most 27
  and a clear CRC-error bit; it reports the response as transmitted only after the release and a later
  status read that shows completion. A packet it returns has 2 to 29 octets, all from the
  receive bank, at the start of the caller's buffer.
\<close>

theorem exchange_safe:
  assumes "clock_runs dev"
  shows "\<exists>res out' h'. exchange dev r ch deadline timeout tx out h = Some (res, out', h')
    \<and> grows h h' \<and> length out' = length out
    \<and> (if length out < 29 \<or> \<not> started r tx then h' = h \<and> (\<exists>e. res = Inl e) else radio_idle h')
    \<and> w_ok (watch (length h) h')
    \<and> (case res of Inl e \<Rightarrow> True
       | Inr (p, transmitted) \<Rightarrow>
           2 \<le> length (payload p) \<and> length (payload p) \<le> 29 \<and> payload p = take (length (payload p)) out' \<and> from_bank (payload p) h'
           \<and> (transmitted \<longrightarrow> w_released (watch (length h) h') \<and> w_completed (watch (length h) h')))"
proof (cases "length out < 29 \<or> \<not> started r tx")
  case True
  then show ?thesis by (auto simp: exchange_eq watch_def)
next
  case False
  then show ?thesis
    using exchange_runs [OF assms, of out r tx ch deadline timeout h] grows_trans [of h "h @ [TxStage (encode_transmit_buffer tx)]"]
    by (fastforce simp: grows_def not_less)
qed

definition null_device :: radio_device where
  "null_device = \<lparr>dev_reg = \<lambda>_ _. 0, dev_rx = \<lambda>_ _. 0, dev_now = length, dev_capture_seen = \<lambda>_. False, dev_countdown = \<lambda>_. 0,
     tx_address = 0, response_address = 64, rx_address = 128\<rparr>"

definition ready_radio :: radio where
  "ready_radio = \<lparr>rd_access_address = ADV_ACCESS_ADDRESS, rd_crc_init = ADV_CRC_INIT, rd_phy = Le1M,
     rd_digital_initialized = True, rd_frontend_calibrated = True\<rparr>"

lemma null_clock: "clock_runs null_device"
  unfolding clock_runs_def clock_reads_def by (auto simp: null_device_def intro!: exI [of _ "1 :: nat"])

theorem exchange_safe_witness:
  "\<exists>res out' h'. exchange null_device ready_radio (Channel 5) 1000 500 [0x01, 0] (replicate 29 0) [] = Some (res, out', h')
     \<and> length out' = 29 \<and> radio_idle h' \<and> w_ok (watch 0 h')"
  using exchange_safe [OF null_clock, of ready_radio "Channel 5" 1000 500 "[0x01, 0]" "replicate 29 0" "[]"]
  by (auto simp: started_def ready_radio_def)

end
