(* ===== verification/Radio_Recovery.thy ===== *)
theory Radio_Recovery
  imports Radio_Safety
begin

text \<open>
  How the remaining operations of the radio driver leave the radio: initialization with the tuning table it
  writes, blocking transmit and receive, and the advertising exchange, which ends if the clock runs.
\<close>

section \<open>Initialization and the other operations\<close>

lemma last_write_polls [simp]:
  "last_write a (snd (tune_polls dev n h)) = last_write a h"
  "last_write a (filter_polls dev n h) = last_write a h"
  "last_write a (snd (settle_polls dev n h)) = last_write a h"
  by (induction n arbitrary: h) (simp_all add: reg_read_def Let_def)

definition table_register :: "u32 \<Rightarrow> bool" where
  "table_register a \<longleftrightarrow> a \<in> set (take 12 fe_tune_table)"

lemmas fe_addresses = fe_control_04_def fe_analog_enable_08_def fe_reset_control_0c_def fe_filter_50_def fe_adc_58_def
  fe_filter_status_9c_def fe_tune_table_def RFEND_BASE_def

lemma below_twelve:
  "i < 12 \<Longrightarrow> i = 0 \<or> i = 1 \<or> i = 2 \<or> i = 3 \<or> i = 4 \<or> i = 5 \<or> i = 6 \<or> i = 7 \<or> i = 8 \<or> i = 9 \<or> i = 10 \<or> i = (11 :: nat)"
  by presburger

lemma last_write_table:
  assumes "build_table a b c = Inr t" "i < 12"
  shows "last_write (fe_tune_table ! i) (write_table dev fe_tune_table t 0 h) = Some (t ! i)"
proof -
  have "length t = 13" using assms(1) by (rule build_table_length)
  then obtain t0 t1 t2 t3 t4 t5 t6 t7 t8 t9 t10 t11 t12 where
    "t = [t0, t1, t2, t3, t4, t5, t6, t7, t8, t9, t10, t11, t12]"
    by (auto simp: numeral_eq_Suc length_Suc_conv)
  then show ?thesis using below_twelve [OF assms(2)] by (auto simp: fe_tune_table_def RFEND_BASE_def TABLE_WORDS_def)
qed

lemma last_write_rest:
  assumes "i < 12"
  shows "last_write (fe_tune_table ! i) (rx_adc dev (rx_filter dev (tx_ftune dev h))) = last_write (fe_tune_table ! i) h"
  using below_twelve [OF assms]
  by (auto simp: rx_adc_def rx_filter_def tx_ftune_def fe_addresses reg_read_def lle_operation_countdown_def LLE_BASE_def Let_def)

lemma calibrate_table:
  assumes "calibrate dev h = (Inr (), h')"
  shows "\<exists>a b c t. build_table a b c = Inr t \<and> map (\<lambda>r. last_write r h') (take 12 fe_tune_table) = map Some (take 12 t)"
proof -
  obtain h1 where h1: "tx_ctune dev (reg_modify dev fe_analog_enable_08 (\<lambda>v. v OR 0x00330000) h) = (Inr (), h1)"
    "h' = rx_adc dev (rx_filter dev (tx_ftune dev h1))"
    using assms by (auto simp: calibrate_def split: prod.splits sum.splits)
  then obtain a b c t h0 where t: "build_table a b c = Inr t" "h1 = write_table dev fe_tune_table t 0 h0"
    by (auto simp: tx_ctune_def Let_def split: prod.splits sum.splits)
  have "last_write (fe_tune_table ! i) h' = Some (t ! i)" if "i < 12" for i
    using that last_write_rest last_write_table [OF t(1)] h1(2) t(2) by simp
  moreover have "length t = 13" using t(1) by (rule build_table_length)
  moreover have "length fe_tune_table = 13" by (simp add: fe_tune_table_def)
  ultimately have "map (\<lambda>r. last_write r h') (take 12 fe_tune_table) = map Some (take 12 t)"
    by (intro nth_equalityI) simp_all
  with t(1) show ?thesis by blast
qed

section \<open>Bounded operations\<close>

lemma grows_settle: "grows h (snd (settle_polls dev n h))"
proof (induction n arbitrary: h)
  case (Suc n)
  from Suc [of "h @ [RegRead lle_operation_countdown (dev_reg dev h lle_operation_countdown)]"] show ?case
    by (auto simp: reg_read_def Let_def grows_def)
qed simp

text \<open>What transmit does before the settle countdown, and the countdown itself.\<close>

definition transmit_start :: "radio_device \<Rightarrow> channel \<Rightarrow> bytes \<Rightarrow> radio_bus \<Rightarrow> radio_bus" where
  "transmit_start dev ch packet = steps
     [record_event (TxStage (encode_transmit_buffer packet)), set_channel dev ch, reg_write lle_tx_buffer (tx_address dev),
      prepare_common_operation dev LLE_MODE_TX, reg_modify dev lle_config (\<lambda>v. v AND NOT 0x01), clear_lle_status,
      clear_bb_interrupt_status dev, reg_write lle_operation_countdown 0xa0]"

lemma transmit_cases:
  assumes "started r packet"
  shows "transmit_blocking dev r ch packet h =
    (case wait_for_settle_countdown dev (transmit_start dev ch packet h) of (Inl e, h2) \<Rightarrow> (Inl e, h2)
     | (Inr _, h2) \<Rightarrow>
         (let (result, h3) = wait_for_operation dev (push_bit 1 1)
               (steps [configure_transmit_phy_1m dev (length packet), start_transmit_operation dev] h2)
          in (result, shut_down_operation dev h3)))"
proof -
  obtain x h2 where "wait_for_settle_countdown dev (transmit_start dev ch packet h) = (x, h2)"
    by (cases "wait_for_settle_countdown dev (transmit_start dev ch packet h)")
  then show ?thesis using assms
    by (cases x) (simp_all add: transmit_blocking_def and_try_def stage_transmit_ok transmit_start_def)
qed

lemma idle_events [simp]:
  "radio_idle (record_event IrqEnable h) = radio_idle h" "radio_idle (record_event IrqUnpend h) = radio_idle h"
  "radio_idle (h @ [ClockRead t]) = radio_idle h"
  by (simp_all add: radio_idle_def)

lemma initialize_idle:
  "radio_idle (steps [reg_modify dev bb_config (\<lambda>v. (v AND NOT BB_MODE_MASK) OR BB_MODE_IDLE), reg_write lle_status LLE_STATUS_TIMING,
     leave_calibration dev, reg_write lle_mode LLE_MODE_IDLE] h)"
  by (auto simp: radio_idle_def leave_calibration_def fe_analog_enable_08_def mode_field analog_field radio_addresses)

lemma table_after:
  "r \<in> set (take 12 fe_tune_table) \<Longrightarrow>
   last_write r (steps [reg_modify dev bb_config (\<lambda>v. (v AND NOT BB_MODE_MASK) OR BB_MODE_IDLE), reg_write lle_status LLE_STATUS_TIMING,
     leave_calibration dev, reg_write lle_mode LLE_MODE_IDLE] h) = last_write r h"
  by (auto simp: leave_calibration_def fe_addresses radio_addresses)

lemma transmit_refused:
  "\<not> started r packet \<Longrightarrow> \<exists>e. transmit_blocking dev r ch packet h = (Inl e, h)"
  by (simp add: transmit_blocking_def and_try_def stage_transmit_ok)

lemma settle_error: "settle_polls dev n h = (Inl e, h') \<Longrightarrow> e = Err_Timeout"
  by (induction n arbitrary: h) (auto simp: reg_read_def Let_def split: if_splits)

lemma last_write_start: "last_write lle_mode (transmit_start dev ch packet h) = Some LLE_MODE_TX"
  by (simp add: transmit_start_def prepare_common_operation_def clear_lle_status_def clear_bb_interrupt_status_def)

section \<open>The advertising loop\<close>

text \<open>
  What holds of the loop's variables at every round: a received packet lies in the buffer with 2 to 39
  octets, and a response is under way only for a scan request received with a correct CRC.
\<close>

definition adv_inv :: "nat \<Rightarrow> device_address \<Rightarrow> adv_state \<Rightarrow> bool" where
  "adv_inv sz address s \<longleftrightarrow> length (as_output s) = sz
     \<and> (as_responding s \<longrightarrow> as_armed s)
     \<and> (case as_received s of None \<Rightarrow> \<not> as_responding s
        | Some (n, ok, t) \<Rightarrow> 2 \<le> n \<and> n \<le> 39 \<and> n \<le> sz
            \<and> (as_responding s \<longrightarrow> ok \<and> is_scan_request (take n (as_output s)) address))"

definition phase :: "adv_state \<Rightarrow> nat" where
  "phase s = (if as_responding s then 0 else if as_armed s then 1 else 2)"

text \<open>A round either gets on to the next phase or leaves the deadline alone.\<close>

definition adv_next :: "adv_state \<Rightarrow> adv_state \<Rightarrow> bool" where
  "adv_next s s' \<longleftrightarrow> phase s' < phase s \<or> phase s' = phase s \<and> as_deadline s' = as_deadline s"

definition round_ok :: "nat \<Rightarrow> device_address \<Rightarrow> adv_state \<Rightarrow> radio_bus \<Rightarrow> adv_control \<Rightarrow> bool" where
  "round_ok sz address s h c \<longleftrightarrow> (case c of Adv_Break s' h' \<Rightarrow> grows h h' \<and> adv_inv sz address s'
     | Adv_Continue s' h' \<Rightarrow> grows h h' \<and> adv_inv sz address s' \<and> adv_next s s' \<and> (as_received s' = None \<or> as_responding s'))"

lemma grows_snoc: "grows h h' \<Longrightarrow> grows h (h' @ t)"
  by (auto simp: grows_def)

lemma adv_arm_ok:
  assumes "adv_inv sz address s" "as_received s = None \<or> as_responding s" "adv_arm dev ch timeout st s h = (s', h')"
  shows "grows h h' \<and> adv_inv sz address s' \<and> adv_next s s' \<and> as_received s' = as_received s \<and> as_responding s' = as_responding s
    \<and> as_output s' = as_output s"
proof -
  have "grows h (continue_tx_to_rx_1m dev ch h)" using statement_compounds(1) unfolding statement_def by blast
  then have "grows h (continue_tx_to_rx_1m dev ch h @ [ClockRead t])" for t by (auto simp: grows_def)
  then show ?thesis using assms by (auto simp: adv_arm_def clock_def adv_inv_def adv_next_def phase_def split: if_splits option.splits)
qed

lemma adv_buffered_ok:
  assumes "adv_buffered dev ty len s h = (b, s', h')"
  shows "grows h h' \<and> (\<exists>x. s' = s\<lparr>as_buffered_end := x\<rparr>)"
  using assms
  by (auto simp: adv_buffered_def clock_def grows_def Let_def split: if_splits option.splits intro: exI [of _ "as_buffered_end s"])

lemma adv_end_irrelevant [simp]:
  "adv_inv sz address (s\<lparr>as_buffered_end := x\<rparr>) = adv_inv sz address s" "adv_next s0 (s\<lparr>as_buffered_end := x\<rparr>) = adv_next s0 s"
  by (cases "as_received s"; simp add: adv_inv_def adv_next_def phase_def split: prod.split)+

lemma adv_captured_grows: "adv_captured dev h = (b, h') \<Longrightarrow> grows h h'"
  by (auto simp: adv_captured_def reg_read_def record_event_def grows_def Let_def split: if_splits)

lemma adv_finish_ok:
  "grows h h' \<Longrightarrow> adv_inv sz address s' \<Longrightarrow> adv_next s s' \<Longrightarrow> as_received s' = None \<or> as_responding s' \<Longrightarrow>
   round_ok sz address s h (adv_finish st s' h')"
  by (simp add: adv_finish_def round_ok_def)

lemma adv_packet_ok:
  assumes inv: "adv_inv sz address s" "as_armed s" "\<not> as_responding s" "as_received s = None" and s0: "adv_next s0 s" "phase s0 \<ge> 1" and g: "grows h0 h"
  shows "round_ok sz address s0 h0 (adv_packet dev ch response rlen address len st s h)"
proof -
  let ?h1 = "h @ [RegRead bb_interrupt_status (dev_reg dev h bb_interrupt_status)]"
  obtain n out h2 where c: "copy_received_packet dev (as_output s) True ?h1 = (n, out, h2)" by (cases "copy_received_packet dev (as_output s) True ?h1")
  note cp = copy_packet_ok [OF c]
  have g2: "grows h0 h2" using g cp by (auto simp: grows_def)
  have n39: "n \<le> 39" "n \<le> length (as_output s)" "length out = length (as_output s)" using cp by auto
  have s1: "adv_inv sz address (s\<lparr>as_output := out\<rparr>)" "adv_next s0 (s\<lparr>as_output := out\<rparr>)"
    "as_received (s\<lparr>as_output := out\<rparr>) = None \<or> as_responding (s\<lparr>as_output := out\<rparr>)"
    using inv s0 n39 by (auto simp: adv_inv_def adv_next_def phase_def split: option.splits)
  let ?h3 = "h2 @ [RxByte 0 (dev_rx dev h2 0)]"
  have g3: "grows h0 ?h3" using g2 by (auto simp: grows_def)
  let ?h4 = "?h3 @ [ClockRead (dev_now dev ?h3)]"
  have g4: "grows h0 ?h4" by (rule grows_snoc [OF g3])
  have g5: "grows h0 (release_receive_to_transmit_1m dev ch response rlen len ?h4 @ [ClockRead t])" for t
  proof -
    have "grows ?h4 (release_receive_to_transmit_1m dev ch response rlen len ?h4)"
      using statement_compounds(2) unfolding statement_def by blast
    then show ?thesis by (intro grows_snoc) (rule grows_trans [OF g4])
  qed
  show ?thesis
    using c inv s0 n39 g4 g5 adv_finish_ok [OF g2 s1] adv_finish_ok [OF g3 s1]
    by (auto simp: adv_packet_def reg_read_def read_dma_byte_def clock_def Let_def round_ok_def adv_inv_def adv_next_def phase_def)
qed

lemma adv_round_ok:
  assumes "adv_inv sz address s" "as_received s = None \<or> as_responding s"
  shows "round_ok sz address s h (adv_round dev ch timeout response rlen address s h)"
proof -
  let ?st = "dev_reg dev h lle_status"
  let ?h1 = "h @ [RegRead lle_status ?st]"
  obtain s1 h2 where a: "adv_arm dev ch timeout ?st s ?h1 = (s1, h2)" by (cases "adv_arm dev ch timeout ?st s ?h1")
  note ao = adv_arm_ok [OF assms a]
  let ?b0 = "dev_rx dev h2 0"
  let ?h3 = "h2 @ [RxByte 0 ?b0]"
  let ?b1 = "dev_rx dev ?h3 1"
  let ?h4 = "?h3 @ [RxByte 1 ?b1]"
  obtain bs s2 h5 where b: "adv_buffered dev (?b0 AND 0x0f) (?b1 AND 0x3f) s1 ?h4 = (bs, s2, h5)"
    by (cases "adv_buffered dev (?b0 AND 0x0f) (?b1 AND 0x3f) s1 ?h4") auto
  note bo = adv_buffered_ok [OF b]
  obtain cap h6 where c: "adv_captured dev h5 = (cap, h6)" by (cases "adv_captured dev h5")
  note co = adv_captured_grows [OF c]
  have "grows h ?h1" "grows ?h1 h2" "grows h2 ?h4" "grows ?h4 h5" "grows h5 h6" using ao bo co by (auto simp: grows_def)
  then have g6: "grows h h6" using grows_trans by blast
  have i2: "adv_inv sz address s2" "adv_next s s2" "as_responding s2 = as_responding s" "as_received s2 = None \<or> as_responding s2"
    using ao bo assms(2) by auto
  have e: "adv_round dev ch timeout response rlen address s h =
      (if as_armed s2 \<and> \<not> as_responding s2 \<and> (?st AND LLE_STATUS_RX_TO_TX \<noteq> 0 \<or> cap \<or> bs)
       then adv_packet dev ch response rlen address (?b1 AND 0x3f) ?st s2 h6 else adv_finish ?st s2 h6)"
    using a b c by (simp add: adv_round_def reg_read_def read_dma_byte_def cong: if_cong)
  show ?thesis
    unfolding e using adv_packet_ok [OF i2(1) _ _ _ i2(2) _ g6] adv_finish_ok [OF g6 i2(1,2,4)] i2(3,4) by (auto simp: phase_def)
qed

text \<open>The transmit buffer register changes only when a response is released.\<close>

lemma last_write_inert: "list_all inert t \<Longrightarrow> last_write a (h @ t) = last_write a h"
proof (induction t arbitrary: h)
  case (Cons e t)
  then have "last_write a (h @ [e]) = last_write a h" by (cases e) (auto simp: last_write_def)
  then show ?case using Cons.IH [of "h @ [e]"] Cons.prems by simp
qed simp

lemma other_registers:
  "bb_config \<noteq> lle_tx_buffer" "bb_tx_control \<noteq> lle_tx_buffer" "lle_status \<noteq> lle_tx_buffer" "lle_operation_countdown \<noteq> lle_tx_buffer"
  "lle_rx_to_tx_timing \<noteq> lle_tx_buffer" "lle_mode \<noteq> lle_tx_buffer" "lle_interrupt_enable \<noteq> lle_tx_buffer" "lle_config \<noteq> lle_tx_buffer"
  "bb_receive_config_18 \<noteq> lle_tx_buffer" "RFEND_BASE + 0x08 \<noteq> lle_tx_buffer" "RFEND_BASE + 0x2c \<noteq> lle_tx_buffer"
  "RFEND_BASE + 0x44 \<noteq> lle_tx_buffer" "lle_command \<noteq> lle_tx_buffer" "bb_interrupt_status \<noteq> lle_tx_buffer" "lle_rx_buffer \<noteq> lle_tx_buffer"
  by (simp_all add: radio_addresses)

lemma tx_buffer_kept:
  "last_write lle_tx_buffer (continue_tx_to_rx_1m dev ch h) = last_write lle_tx_buffer h"
  "last_write lle_tx_buffer (snd (snd (copy_received_packet dev out adv h))) = last_write lle_tx_buffer h"
  "last_write lle_tx_buffer (configure_transmit_phy_1m dev n h) = last_write lle_tx_buffer h"
  "last_write lle_tx_buffer (start_transmit_operation dev h) = last_write lle_tx_buffer h"
  "last_write lle_tx_buffer (prepare_common_operation dev m h) = last_write lle_tx_buffer h"
  "last_write lle_tx_buffer (shut_down_operation dev h) = last_write lle_tx_buffer h"
  using copy_inert [of dev out adv h] last_write_inert
  by (auto simp: continue_tx_to_rx_1m_def configure_ch585_synth_def configure_receive_phy_1m_def configure_transmit_phy_1m_def Let_def
      start_transmit_operation_def prepare_common_operation_def shut_down_operation_def other_registers)

lemma last_write_kinds [simp]:
  "last_write a (h @ [RxByte i b]) = last_write a h" "last_write a (h @ [RxByte i b, RxByte j c]) = last_write a h"
  "last_write a (h @ [RxByte i b, ClockRead t]) = last_write a h"
  "last_write a (record_event (CaptureSeenLoad x) h) = last_write a h" "last_write a (record_event (CaptureSeenStore x) h) = last_write a h"
  "last_write a (record_event RxFill h) = last_write a h" "last_write a (record_event (ResponseStage bs) h) = last_write a h"
  by (simp_all add: last_write_def record_event_def)

text \<open>A change of the register after a round means that a response is under way.\<close>

definition tx_honest :: "radio_bus \<Rightarrow> adv_state \<Rightarrow> adv_control \<Rightarrow> bool" where
  "tx_honest h s c \<longleftrightarrow> (case c of
     Adv_Break s' h' \<Rightarrow> (as_responding s' \<or> last_write lle_tx_buffer h' = last_write lle_tx_buffer h) \<and> (as_responding s \<longrightarrow> as_responding s')
   | Adv_Continue s' h' \<Rightarrow> (as_responding s' \<or> last_write lle_tx_buffer h' = last_write lle_tx_buffer h) \<and> (as_responding s \<longrightarrow> as_responding s'))"

lemma adv_arm_tx:
  "adv_arm dev ch timeout st s h = (s', h') \<Longrightarrow>
   last_write lle_tx_buffer h' = last_write lle_tx_buffer h \<and> as_responding s' = as_responding s"
  by (auto simp: adv_arm_def clock_def tx_buffer_kept split: if_splits)

lemma adv_buffered_tx:
  "adv_buffered dev ty len s h = (b, s', h') \<Longrightarrow>
   last_write lle_tx_buffer h' = last_write lle_tx_buffer h \<and> as_responding s' = as_responding s"
  by (auto simp: adv_buffered_def clock_def Let_def last_write_def split: if_splits option.splits)

lemma adv_captured_tx: "adv_captured dev h = (b, h') \<Longrightarrow> last_write lle_tx_buffer h' = last_write lle_tx_buffer h"
  by (auto simp: adv_captured_def reg_read_def Let_def split: if_splits)

lemma adv_packet_tx:
  assumes "last_write lle_tx_buffer h = last_write lle_tx_buffer h0" "as_responding s0 \<longrightarrow> as_responding s"
  shows "tx_honest h0 s0 (adv_packet dev ch response rlen address len st s h)"
proof -
  let ?h1 = "h @ [RegRead bb_interrupt_status (dev_reg dev h bb_interrupt_status)]"
  obtain n out h2 where c: "copy_received_packet dev (as_output s) True ?h1 = (n, out, h2)" by (cases "copy_received_packet dev (as_output s) True ?h1")
  have "last_write lle_tx_buffer h2 = last_write lle_tx_buffer h0"
    using tx_buffer_kept(2) [of dev "as_output s" True ?h1] c assms(1) by simp
  then show ?thesis using c assms(2)
    by (auto simp: adv_packet_def reg_read_def read_dma_byte_def clock_def Let_def tx_honest_def adv_finish_def)
qed

lemma adv_round_tx: "tx_honest h s (adv_round dev ch timeout response rlen address s h)"
proof -
  let ?st = "dev_reg dev h lle_status"
  let ?h1 = "h @ [RegRead lle_status ?st]"
  obtain s1 h2 where a: "adv_arm dev ch timeout ?st s ?h1 = (s1, h2)" by (cases "adv_arm dev ch timeout ?st s ?h1")
  let ?b0 = "dev_rx dev h2 0"
  let ?h3 = "h2 @ [RxByte 0 ?b0]"
  let ?b1 = "dev_rx dev ?h3 1"
  let ?h4 = "?h3 @ [RxByte 1 ?b1]"
  obtain bs s2 h5 where b: "adv_buffered dev (?b0 AND 0x0f) (?b1 AND 0x3f) s1 ?h4 = (bs, s2, h5)"
    by (cases "adv_buffered dev (?b0 AND 0x0f) (?b1 AND 0x3f) s1 ?h4") auto
  obtain cap h6 where c: "adv_captured dev h5 = (cap, h6)" by (cases "adv_captured dev h5")
  have k: "last_write lle_tx_buffer h6 = last_write lle_tx_buffer h" "as_responding s \<longrightarrow> as_responding s2"
    using adv_arm_tx [OF a] adv_buffered_tx [OF b] adv_captured_tx [OF c] by auto
  have "adv_round dev ch timeout response rlen address s h =
      (if as_armed s2 \<and> \<not> as_responding s2 \<and> (?st AND LLE_STATUS_RX_TO_TX \<noteq> 0 \<or> cap \<or> bs)
       then adv_packet dev ch response rlen address (?b1 AND 0x3f) ?st s2 h6 else adv_finish ?st s2 h6)"
    using a b c by (simp add: adv_round_def reg_read_def read_dma_byte_def cong: if_cong)
  then show ?thesis using adv_packet_tx [OF k] k by (auto simp: adv_finish_def tx_honest_def)
qed

lemma adv_loop_ok:
  assumes N: "0 < N" "\<And>h. clock_reads h div N \<le> dev_now dev h"
  shows "adv_inv sz address s \<Longrightarrow> as_received s = None \<or> as_responding s \<Longrightarrow>
    as_responding s \<or> last_write lle_tx_buffer h = x \<Longrightarrow>
    \<exists>s' h'. adv_loop dev ch timeout response rlen address s h = Some (s', h') \<and> grows h h' \<and> adv_inv sz address s'
      \<and> (as_responding s' \<or> last_write lle_tx_buffer h' = x)"
proof (induction "(phase s, N * as_deadline s - clock_reads h)" arbitrary: s h rule: wf_induct_rule [OF wf_lex_prod [OF wf_less_than wf_less_than]])
  case 1
  note IH = 1(1) and inv = 1(2-4)
  let ?h1 = "h @ [ClockRead (dev_now dev h)]"
  show ?case
  proof (cases "dev_now dev h < as_deadline s")
    case False
    then have "adv_loop dev ch timeout response rlen address s h = Some (s, ?h1)" by (subst adv_loop.simps) (simp add: clock_def)
    then show ?thesis using inv by (auto simp: grows_def)
  next
    case True
    let ?c = "adv_round dev ch timeout response rlen address s ?h1"
    have e: "adv_loop dev ch timeout response rlen address s h =
        (case ?c of Adv_Break s' h' \<Rightarrow> Some (s', h') | Adv_Continue s' h' \<Rightarrow> adv_loop dev ch timeout response rlen address s' h')"
      using True by (subst adv_loop.simps) (simp add: clock_def)
    note ok = adv_round_ok [OF inv(1,2), of ?h1 dev ch timeout response rlen]
    note tx = adv_round_tx [of ?h1 s dev ch timeout response rlen address]
    have g: "grows ?h1 h' \<Longrightarrow> grows h h'" for h' by (auto simp: grows_def)
    show ?thesis
    proof (cases ?c)
      case (Adv_Break s' h')
      then show ?thesis using e ok tx inv(3) g by (auto simp: round_ok_def tx_honest_def)
    next
      case (Adv_Continue s' h')
      then have o: "grows ?h1 h'" "adv_inv sz address s'" "adv_next s s'" "as_received s' = None \<or> as_responding s'"
        "as_responding s' \<or> last_write lle_tx_buffer h' = x"
        using ok tx inv(3) by (auto simp: round_ok_def tx_honest_def)
      have "clock_reads h div N < as_deadline s" using N(2) [of h] True by linarith
      then have "clock_reads h < N * as_deadline s" using N(1) by (metis div_less_iff_less_mult mult.commute)
      moreover have "Suc (clock_reads h) \<le> clock_reads h'" using clock_reads_grows [OF o(1)] by simp
      ultimately have "((phase s', N * as_deadline s' - clock_reads h'), (phase s, N * as_deadline s - clock_reads h))
          \<in> less_than <*lex*> less_than"
        using o(3) by (auto simp: adv_next_def)
      from IH [OF this o(2,4,5)] show ?thesis using e Adv_Continue g [OF o(1)] grows_trans by fastforce
    qed
  qed
qed

section \<open>Properties\<close>

text \<open>
  C22. On every device, whatever its registers show: initialize always leaves the radio idle, marks it
  calibrated exactly when it succeeds, and has then written the first twelve words of a tuning table built
  from three measurements; receive_blocking touches nothing or ends idle; transmit_blocking touches
  nothing, ends idle, or gives up on the settle countdown with a timeout.
\<close>

theorem radio_recovers:
  "(case initialize dev r h of (res, r', h') \<Rightarrow>
      radio_idle h' \<and> rd_digital_initialized r'
      \<and> (res = Inr () \<and> rd_frontend_calibrated r'
           \<and> (\<exists>a b c t. build_table a b c = Inr t \<and> map (\<lambda>x. last_write x h') (take 12 fe_tune_table) = map Some (take 12 t))
         \<or> (\<exists>e. res = Inl e) \<and> \<not> rd_frontend_calibrated r'))
   \<and> (case receive_blocking dev r ch timeout out h of (res, out', h') \<Rightarrow> (h' = h \<and> out' = out \<and> (\<exists>e. res = Inl e)) \<or> radio_idle h')
   \<and> (case transmit_blocking dev r ch packet h of (res, h') \<Rightarrow>
        (h' = h \<and> (\<exists>e. res = Inl e)) \<or> radio_idle h'
        \<or> res = Inl Err_Timeout \<and> fst (wait_for_settle_countdown dev (transmit_start dev ch packet h)) = Inl Err_Timeout)"
proof (intro conjI)
  show "case initialize dev r h of (res, r', h') \<Rightarrow>
      radio_idle h' \<and> rd_digital_initialized r'
      \<and> (res = Inr () \<and> rd_frontend_calibrated r'
           \<and> (\<exists>a b c t. build_table a b c = Inr t \<and> map (\<lambda>x. last_write x h') (take 12 fe_tune_table) = map Some (take 12 t))
         \<or> (\<exists>e. res = Inl e) \<and> \<not> rd_frontend_calibrated r')"
  proof -
    obtain r1 h2 where ib: "init_baseband dev r (initialize_baseline dev (init_lle dev h)) = (r1, h2)"
      by (cases "init_baseband dev r (initialize_baseline dev (init_lle dev h))")
    define h3 where "h3 = steps [reg_modify dev lle_mode (\<lambda>v. v AND NOT 0x700), reg_modify dev lle_command (\<lambda>v. v OR 0x08),
        reg_modify dev bb_config (\<lambda>v. v OR push_bit 7 1), reg_modify dev bb_config (\<lambda>v. (v AND NOT BB_MODE_MASK) OR BB_MODE_ACTIVE),
        reg_write lle_mode LLE_MODE_CALIBRATION] h2"
    obtain x h4 where c: "calibrate dev h3 = (x, h4)" by (cases "calibrate dev h3")
    define h5 where "h5 = steps [reg_modify dev bb_config (\<lambda>v. (v AND NOT BB_MODE_MASK) OR BB_MODE_IDLE),
        reg_write lle_status LLE_STATUS_TIMING, leave_calibration dev, reg_write lle_mode LLE_MODE_IDLE] h4"
    have i5: "radio_idle h5" unfolding h5_def by (rule initialize_idle)
    have t5: "last_write x h5 = last_write x h4" if "x \<in> set (take 12 fe_tune_table)" for x
      unfolding h5_def using that by (rule table_after)
    note e = initialize_def [of dev r h, unfolded Let_def, simplified ib prod.case h3_def [symmetric] c h5_def [symmetric]]
    show ?thesis
    proof (cases x)
      case (Inl err)
      then show ?thesis using i5 by (simp add: e)
    next
      case (Inr u)
      then obtain a b c t where "build_table a b c = Inr t" "map (\<lambda>x. last_write x h4) (take 12 fe_tune_table) = map Some (take 12 t)"
        using calibrate_table [of dev h3 h4] c by auto
      moreover have "map (\<lambda>x. last_write x (record_event IrqEnable h5)) (take 12 fe_tune_table) = map (\<lambda>x. last_write x h4) (take 12 fe_tune_table)"
        using t5 by (intro map_cong) simp_all
      ultimately show ?thesis using i5 Inr by (auto simp: e)
    qed
  qed
  show "case receive_blocking dev r ch timeout out h of (res, out', h') \<Rightarrow> (h' = h \<and> out' = out \<and> (\<exists>e. res = Inl e)) \<or> radio_idle h'"
    by (auto simp: receive_blocking_def Let_def clock_def shut_down_idle split: prod.split sum.split)
  show "case transmit_blocking dev r ch packet h of (res, h') \<Rightarrow>
        (h' = h \<and> (\<exists>e. res = Inl e)) \<or> radio_idle h'
        \<or> res = Inl Err_Timeout \<and> fst (wait_for_settle_countdown dev (transmit_start dev ch packet h)) = Inl Err_Timeout"
  proof (cases "started r packet")
    case True
    then show ?thesis using settle_error [of dev MAX_OPERATION_POLLS "transmit_start dev ch packet h"] shut_down_idle
      by (auto simp: transmit_cases wait_for_settle_countdown_def split: prod.splits sum.splits)
  qed (use transmit_refused [of r packet dev ch h] in auto)
qed

text \<open>
  The settle countdown is the exception: when it never expires, transmit returns a timeout with the mode
  register still set to transmit, without the shut-down of every other path.
\<close>

lemma settle_stuck: "\<forall>h. dev_reg dev h lle_operation_countdown \<noteq> 0 \<Longrightarrow> fst (settle_polls dev n h) = Inl Err_Timeout"
  by (induction n arbitrary: h) (simp_all add: reg_read_def Let_def)

theorem settle_timeout_stays_active:
  assumes "\<forall>h. dev_reg dev h lle_operation_countdown \<noteq> 0" "started r packet"
  shows "\<exists>h'. transmit_blocking dev r ch packet h = (Inl Err_Timeout, h') \<and> last_write lle_mode h' = Some LLE_MODE_TX"
proof -
  let ?h1 = "transmit_start dev ch packet h"
  obtain h2 where "wait_for_settle_countdown dev ?h1 = (Inl Err_Timeout, h2)"
    using settle_stuck [OF assms(1), of MAX_OPERATION_POLLS ?h1] unfolding wait_for_settle_countdown_def by (metis prod.collapse)
  moreover have "last_write lle_mode (snd (wait_for_settle_countdown dev ?h1)) = Some LLE_MODE_TX"
    by (simp add: wait_for_settle_countdown_def last_write_start)
  ultimately show ?thesis using assms(2) by (simp add: transmit_cases)
qed

text \<open>Up to the settle countdown, and from there to the first poll.\<close>

definition adv_begin :: "radio_device \<Rightarrow> channel \<Rightarrow> bytes \<Rightarrow> bytes \<Rightarrow> radio_bus \<Rightarrow> radio_bus" where
  "adv_begin dev ch tx response h = adv_prepare dev (record_event (ResponseStage (encode_transmit_buffer response))
     (steps [record_event (TxStage (encode_transmit_buffer tx)), set_channel dev ch, reg_write lle_tx_buffer (tx_address dev)] h))"

lemma adv_begin_ok:
  "grows h (adv_begin dev ch tx response h)" "last_write lle_tx_buffer (adv_begin dev ch tx response h) = Some (tx_address dev)"
  "last_write lle_mode (adv_begin dev ch tx response h) = Some LLE_MODE_TX"
proof -
  show "grows h (adv_begin dev ch tx response h)" unfolding adv_begin_def adv_prepare_def
    by (intro grows_statement [OF statement_steps] grows_statement [OF statement_prims(4)] grows_refl) simp_all
qed (simp_all add: adv_begin_def adv_prepare_def prepare_common_operation_def clear_lle_status_def clear_bb_interrupt_status_def other_registers)

lemma settle_keeps:
  assumes "wait_for_settle_countdown dev h = (x, h')"
  shows "grows h h'" "last_write a h' = last_write a h" "x = Inl e \<Longrightarrow> e = Err_Timeout"
proof -
  have p: "settle_polls dev MAX_OPERATION_POLLS h = (x, h')" using assms by (simp add: wait_for_settle_countdown_def)
  then show "grows h h'" using grows_settle [of h dev MAX_OPERATION_POLLS] by simp
  have "h' = snd (settle_polls dev MAX_OPERATION_POLLS h)" using p by simp
  then show "last_write a h' = last_write a h" by (simp only: last_write_polls)
  show "x = Inl e \<Longrightarrow> e = Err_Timeout" using p settle_error by simp
qed

lemma adv_launch_ok: "grows h (adv_launch dev m h)" "last_write lle_tx_buffer (adv_launch dev m h) = last_write lle_tx_buffer h"
proof -
  show "grows h (adv_launch dev m h)" unfolding adv_launch_def by (intro grows_statement [OF statement_steps] grows_refl) simp
qed (simp add: adv_launch_def tx_buffer_kept)

lemma adv_result_ok:
  assumes "adv_inv sz address s" "adv_result dev s h = (res, out', h')"
  shows "grows h h' \<and> radio_idle h' \<and> length out' = sz \<and> last_write lle_tx_buffer h' = last_write lle_tx_buffer h
    \<and> (case res of Inl e \<Rightarrow> \<not> as_responding s
       | Inr p \<Rightarrow> 2 \<le> length (payload p) \<and> length (payload p) \<le> 39 \<and> payload p = take (length (payload p)) out'
           \<and> (as_responding s \<longrightarrow> crc_ok p \<and> is_scan_request (payload p) address))"
proof -
  let ?h1 = "h @ [RegRead bb_rssi_status (dev_reg dev h bb_rssi_status)]"
  have e: "(res, out', h') = (case as_received s of None \<Rightarrow> (Inl Err_Timeout, as_output s, shut_down_operation dev ?h1)
      | Some (n, ok, t) \<Rightarrow> (Inr \<lparr>payload = take n (as_output s), rssi_dbm = rssi_of (dev_reg dev h bb_rssi_status),
            crc_ok = ok, timestamp_us = t\<rparr>, as_output s, shut_down_operation dev ?h1))"
    unfolding assms(2) [symmetric] adv_result_def by (simp add: reg_read_def Let_def)
  then have h': "out' = as_output s" "h' = shut_down_operation dev ?h1" by (auto split: option.splits)
  have "grows h ?h1" by (simp add: grows_def)
  then have "grows h h'" unfolding h' by (rule grows_statement [OF statement_shut_down])
  moreover have "last_write lle_tx_buffer h' = last_write lle_tx_buffer h" by (simp add: h' tx_buffer_kept)
  ultimately show ?thesis using e assms(1) shut_down_idle [of dev ?h1] by (auto simp: h' adv_inv_def min_def split: option.splits)
qed

text \<open>
  C12. The advertising exchange on every device whose clock runs: it returns, with nothing touched for a
  refused advertisement, with the radio idle, or after a timeout of the settle countdown. A packet it
  returns has 2 to 39 octets at the start of the caller's buffer. If the transmit buffer register
  ends up at the scan response, the returned packet is a scan request for the advertiser's address
  received with a correct CRC: no other packet is ever answered.
\<close>

theorem advertising_exchange_safe:
  assumes "clock_runs dev" "tx_address dev \<noteq> response_address dev" "2 \<le> length response" "length response \<le> 64"
  shows "\<exists>res out' h'. advertising_exchange dev r ch timeout tx response adva out h = Some (res, out', h')
    \<and> grows h h' \<and> length out' = length out
    \<and> (if \<not> started r tx then h' = h \<and> (\<exists>e. res = Inl e)
       else radio_idle h' \<or> res = Inl Err_Timeout \<and> last_write lle_mode h' = Some LLE_MODE_TX)
    \<and> (case res of Inl e \<Rightarrow> True
       | Inr p \<Rightarrow> 2 \<le> length (payload p) \<and> length (payload p) \<le> 39 \<and> payload p = take (length (payload p)) out')
    \<and> (started r tx \<and> last_write lle_tx_buffer h' = Some (response_address dev) \<longrightarrow>
         (\<exists>p. res = Inr p \<and> crc_ok p
            \<and> is_scan_request (payload p) \<lparr>da_bytes = adva, da_kind = (if tx ! 0 AND push_bit 6 1 \<noteq> 0 then Random else Public)\<rparr>))"
proof (cases "started r tx")
  case False
  then show ?thesis by (auto simp: advertising_exchange_def stage_transmit_ok)
next
  case go: True
  obtain N where N: "0 < N" "\<And>h. clock_reads h div N \<le> dev_now dev h" using assms(1) unfolding clock_runs_def by blast
  let ?address = "\<lparr>da_bytes = adva, da_kind = (if tx ! 0 AND push_bit 6 1 \<noteq> 0 then Random else Public)\<rparr>"
  define h2 where "h2 = adv_begin dev ch tx response h"
  note b = adv_begin_ok [where dev = dev and ch = ch and tx = tx and response = response and h = h, folded h2_def]
  obtain x h3 where st: "wait_for_settle_countdown dev h2 = (x, h3)" by (cases "wait_for_settle_countdown dev h2")
  note k = settle_keeps [OF st]
  define h3' where "h3' = adv_launch dev (length tx) h3"
  define s where "s = \<lparr>as_deadline = dev_now dev h3' + 2000, as_armed = False, as_responding = False, as_buffered_end = None,
      as_received = None, as_output = out\<rparr>"
  have e: "advertising_exchange dev r ch timeout tx response adva out h = (case x of Inl e \<Rightarrow> Some (Inl e, out, h3)
      | Inr _ \<Rightarrow> Option.bind (adv_loop dev ch timeout (response_address dev) (length response) ?address s (h3' @ [ClockRead (dev_now dev h3')]))
           (\<lambda>(s', h5). Some (adv_result dev s' h5)))"
    using go assms(3,4) st unfolding advertising_exchange_def s_def h3'_def h2_def adv_begin_def
    by (cases x) (simp_all add: stage_transmit_ok stage_response_def RF_DMA_BUFFER_LEN_def clock_def Let_def del: steps_simps)
  have g3: "grows h h3" using grows_trans [OF b(1) k(1)] .
  show ?thesis
  proof (cases x)
    case (Inl err)
    then show ?thesis using e g3 go b k assms(2) by auto
  next
    case (Inr u)
    let ?h4 = "h3' @ [ClockRead (dev_now dev h3')]"
    have g4: "grows h ?h4" using grows_snoc [OF grows_trans [OF g3 adv_launch_ok(1)]] unfolding h3'_def .
    have l4: "last_write lle_tx_buffer ?h4 = Some (tx_address dev)" using k(2) b(2) by (simp add: h3'_def adv_launch_ok(2))
    have start: "adv_inv (length out) ?address s" "as_received s = None \<or> as_responding s" by (simp_all add: s_def adv_inv_def)
    obtain s' h5 where lp: "adv_loop dev ch timeout (response_address dev) (length response) ?address s ?h4 = Some (s', h5)"
      "grows ?h4 h5" "adv_inv (length out) ?address s'" "as_responding s' \<or> last_write lle_tx_buffer h5 = Some (tx_address dev)"
      using adv_loop_ok [OF N start, of ?h4 "Some (tx_address dev)" ch timeout "response_address dev" "length response"] l4 by blast
    obtain res out' h' where fin: "adv_result dev s' h5 = (res, out', h')" by (cases "adv_result dev s' h5")
    note r = adv_result_ok [OF lp(3) fin]
    have "advertising_exchange dev r ch timeout tx response adva out h = Some (res, out', h')"
      unfolding e Inr sum.case lp(1) by (simp add: fin)
    moreover have "grows h h'" using grows_trans [OF grows_trans [OF g4 lp(2)]] r by blast
    ultimately show ?thesis using go r lp(4) assms(2) by (auto split: sum.splits)
  qed
qed

theorem advertising_exchange_safe_witness:
  "\<exists>res out' h'. advertising_exchange null_device ready_radio ADV_37 1000 [0x00, 6, 1, 2, 3, 4, 5, 6] [0x04, 0] [1, 2, 3, 4, 5, 6] (replicate 39 0) []
       = Some (res, out', h') \<and> length out' = 39
     \<and> (radio_idle h' \<or> res = Inl Err_Timeout \<and> last_write lle_mode h' = Some LLE_MODE_TX)"
proof -
  have "tx_address null_device \<noteq> response_address null_device" by (simp add: null_device_def)
  from advertising_exchange_safe [OF null_clock this, of "[0x04, 0]" ready_radio ADV_37 1000 "[0x00, 6, 1, 2, 3, 4, 5, 6]" "[1, 2, 3, 4, 5, 6]" "replicate 39 0" "[]"]
  show ?thesis by (auto simp: started_def ready_radio_def)
qed

end
