(* ===== verification/Radio_Diagnostics.thy ===== *)
theory Radio_Diagnostics
  imports Radio_Safety
begin

text \<open>
  The telemetry of the receive length policy, \<open>rf_dma_limit_counters\<close>, and the \<open>BleRadio\<close> operations that only
  forward, in \<^verbatim>\<open>crates/ch58x-ble/src/radio.rs\<close>. The counters live in uninitialized memory: \<open>boot\<close> is what it
  holds before the first store.
\<close>

section \<open>Model\<close>

definition radio_transmit :: "radio_device \<Rightarrow> radio \<Rightarrow> channel \<Rightarrow> bytes \<Rightarrow> radio_bus \<Rightarrow> (radio_error + unit) \<times> radio_bus" where
  "radio_transmit dev r channel packet h = transmit_blocking dev r channel packet h"

definition radio_receive ::
    "radio_device \<Rightarrow> radio \<Rightarrow> channel \<Rightarrow> nat \<Rightarrow> bytes \<Rightarrow> radio_bus \<Rightarrow> (radio_error + received_packet) \<times> bytes \<times> radio_bus" where
  "radio_receive dev r channel timeout buffer h = receive_blocking dev r channel timeout buffer h"

text \<open>One word of \<open>RF_DMA_LIMIT_DIAGNOSTICS\<close> after a history; \<open>fetch_add\<close> wraps.\<close>

definition diagnostic :: "(nat \<Rightarrow> u32) \<Rightarrow> nat \<Rightarrow> radio_bus \<Rightarrow> u32" where
  "diagnostic boot k h = fold (\<lambda>e v. case e of DiagnosticStore j x \<Rightarrow> if j = k then x else v
     | DiagnosticAdd j \<Rightarrow> if j = k then v + 1 else v | _ \<Rightarrow> v) h (boot k)"

definition rf_dma_limit_counters :: "(nat \<Rightarrow> u32) \<Rightarrow> radio_bus \<Rightarrow> u32 \<times> u32" where
  "rf_dma_limit_counters boot h =
     (if diagnostic boot 0 h \<noteq> RF_DMA_LIMITS_MAGIC then (0, 0) else (diagnostic boot 1 h, diagnostic boot 2 h))"

section \<open>Lemmas\<close>

lemma diagnostic_append: "diagnostic boot k (h @ t) = diagnostic (\<lambda>_. diagnostic boot k h) k t"
  by (simp add: diagnostic_def)

lemma diagnostic_dma: "dma_from i t \<Longrightarrow> diagnostic boot k t = boot k"
  by (induction i t rule: dma_from.induct) (auto simp: diagnostic_def)

text \<open>\<open>Radio::new\<close> starts the counters at zero, whatever the memory held.\<close>

lemma counters_new: "rf_dma_limit_counters boot (snd (radio_new h)) = (0, 0)"
  by (simp add: rf_dma_limit_counters_def radio_new_def diagnostic_append record_event_def) (simp add: diagnostic_def)

text \<open>
  Every copy out of the DMA bank counts a packet that the length policy rejects, once and in the counter of its reason,
  and counts nothing otherwise.
\<close>

lemma counters_copy:
  assumes "copy_received_packet dev out adv h = (n, out', h')" "diagnostic boot 0 h = RF_DMA_LIMITS_MAGIC"
  defines "len \<equiv> unat (if adv then dev_rx dev h 1 AND 0x3f else dev_rx dev h 1)"
  shows "diagnostic boot 0 h' = RF_DMA_LIMITS_MAGIC
    \<and> rf_dma_limit_counters boot h' = (case rf_dma_limit_counters boot h of (physical, unsupported) \<Rightarrow>
        case classify_received_length adv len of Accepted _ \<Rightarrow> (physical, unsupported)
        | PhysicalDmaOverflow \<Rightarrow> (physical + 1, unsupported) | UnsupportedCapability \<Rightarrow> (physical, unsupported + 1))"
proof -
  let ?h1 = "h @ [RxByte 1 (dev_rx dev h 1)]"
  have one: "diagnostic boot k ?h1 = diagnostic boot k h" for k by (simp add: diagnostic_def)
  have add: "diagnostic boot k (?h1 @ [DiagnosticAdd j]) = diagnostic boot k h + of_bool (j = k)" for k j by (simp add: diagnostic_def)
  have copy: "diagnostic boot k (snd (copy_bytes dev 0 w out ?h1)) = diagnostic boot k h" if fits: "w \<le> length out" for k w
  proof -
    obtain t where "snd (copy_bytes dev 0 w out ?h1) = ?h1 @ t" "dma_from 0 t" using copy_bytes_ok [OF le0 fits, of dev ?h1] by blast
    then show ?thesis using one by (simp only: diagnostic_append [of _ _ ?h1 t] diagnostic_dma)
  qed
  have e: "copy_received_packet dev out adv h = (case classify_received_length adv len of
        Accepted w \<Rightarrow> if length out < w then (0, out, ?h1) else (let (o', h'') = copy_bytes dev 0 w out ?h1 in (w, o', h''))
      | PhysicalDmaOverflow \<Rightarrow> (0, out, ?h1 @ [DiagnosticAdd 1]) | UnsupportedCapability \<Rightarrow> (0, out, ?h1 @ [DiagnosticAdd 2]))"
    by (cases adv) (simp_all add: copy_received_packet_def read_dma_byte_def record_event_def len_def Let_def split: ReceiveLengthPolicy.split)
  show ?thesis
  proof (cases "classify_received_length adv len")
    case (Accepted w)
    then have "diagnostic boot k h' = diagnostic boot k h" for k
      using assms(1) e one copy [of w k] by (auto split: if_splits prod.splits)
    then show ?thesis using assms(2) Accepted by (simp add: rf_dma_limit_counters_def)
  qed (use assms(1,2) e add in \<open>auto simp: rf_dma_limit_counters_def\<close>)
qed

end
