(* ===== verification/Link_Driver.thy ===== *)
theory Link_Driver
  imports Link_Loop Radio_Recovery
begin

text \<open>
  The runner on its radio. \<open>exchange_driver\<close> is the contract between them: an exchange of a frame of 2 to
  29 octets returns, leaves the driver ready for the next one and guarantees \<open>done\<close>. The runner's
  side is proved from the contract, and the driver of \<^verbatim>\<open>crates/ch58x-ble/src/radio.rs\<close> meets it on every device
  whose clock runs.
\<close>

section \<open>Model\<close>

type_synonym 's exchange_drive = "'s \<Rightarrow> channel \<Rightarrow> nat \<Rightarrow> nat \<Rightarrow> bytes \<Rightarrow> (exchange_result option \<times> 's) option"

text \<open>\<open>connection_event\<close> with the state of the radio threaded through its exchange.\<close>

definition driven_event :: "'s exchange_drive \<Rightarrow> 's \<Rightarrow> (nat \<Rightarrow> nat) \<Rightarrow> active_connection \<Rightarrow> host_link \<Rightarrow> (ll_result \<times> 's) option" where
  "driven_event drive s clk c h =
     (case stage_event clk c h of None \<Rightarrow> None
      | Some (Inl early) \<Rightarrow> Some (early, s)
      | Some (Inr (ch, deadline, timeout, c1, h1)) \<Rightarrow>
          (case drive s ch deadline timeout (take (ac_tx_frame_len c1) (ac_tx_frame c1)) of None \<Rightarrow> None
           | Some (x, s') \<Rightarrow>
               map_option (\<lambda>res. (res, s'))
                 (case x of None \<Rightarrow> Some (None, c1, h1)
                  | Some ex \<Rightarrow> after_exchange clk c1 h1 (\<not> ac_tx_frame_fresh c1) ex)))"

type_synonym driver = "radio_device \<times> radio \<times> radio_bus"

text \<open>The call in \<open>connection_event\<close>: a fresh receive buffer, and \<open>.ok()?\<close> on the result.\<close>

definition radio_drive :: "driver exchange_drive" where
  "radio_drive s ch deadline timeout frame =
     (case s of (dev, r, b) \<Rightarrow>
        map_option (\<lambda>(res, out, b').
            (case res of Inl _ \<Rightarrow> None | Inr (p, transmitted) \<Rightarrow> Some \<lparr>ex_transmitted = transmitted, ex_received = p\<rparr>, (dev, r, b')))
          (exchange dev r ch deadline timeout frame (replicate CONNECTION_EVENT_RX_BUFFER_LEN 0) b))"

section \<open>The contract\<close>

locale exchange_driver =
  fixes drive :: "'s exchange_drive"
    and ready :: "'s \<Rightarrow> bool"
    and done_with :: "'s \<Rightarrow> bytes \<Rightarrow> exchange_result option \<Rightarrow> 's \<Rightarrow> bool"
  assumes drive_ok: "ready s \<Longrightarrow> 2 \<le> length f \<Longrightarrow> length f \<le> 29 \<Longrightarrow>
      \<exists>x s'. drive s ch d t f = Some (x, s') \<and> ready s' \<and> done_with s f x s'"
begin

lemma driven_event_ok:
  assumes "ready s" "link_inv c"
  shows "\<exists>e c' h' s'. driven_event drive s clk c h = Some ((e, c', h'), s') \<and> link_inv c' \<and> ready s'
    \<and> (if stage_refused c then s' = s \<and> e = Some 0x1f \<and> same_queues c c' \<and> traffic h' = traffic h
       else \<exists>x. connection_event (\<lambda>_ _ _ _. x) clk c h = Some (e, c', h') \<and> done_with s (air_frame c) x s')"
proof -
  note st = stage_event_ok [OF assms(2), of h clk, unfolded staged_ok_def]
  show ?thesis
  proof (cases "stage_event clk c h")
    case None
    with st show ?thesis by simp
  next
    case (Some r)
    show ?thesis
    proof (cases r)
      case (Inl y)
      with st Some assms(1) show ?thesis by (cases y) (simp add: driven_event_def)
    next
      case (Inr y)
      obtain ch d t c1 h1 where y: "y = (ch, d, t, c1, h1)" by (cases y)
      let ?f = "take (ac_tx_frame_len c1) (ac_tx_frame c1)"
      have i: "link_inv c1" "frame_holds c1" using st Some Inr y by simp_all
      have f: "?f = air_frame c" "length (snd (event_pdu c)) \<le> 27" "\<not> stage_refused c"
        using staged_frame [OF assms(2), of clk h] Some Inr y by simp_all
      then have "2 \<le> length ?f" "length ?f \<le> 29" by (simp_all add: air_frame_def)
      then obtain x s' where dr: "drive s ch d t ?f = Some (x, s')" "ready s'" "done_with s ?f x s'"
        using drive_ok [OF assms(1)] by blast
      let ?res = "case x of None \<Rightarrow> Some (None, c1, h1) | Some ex \<Rightarrow> after_exchange clk c1 h1 (\<not> ac_tx_frame_fresh c1) ex"
      have "\<exists>e c' h'. ?res = Some (e, c', h') \<and> link_inv c'"
      proof (cases x)
        case None
        then show ?thesis using i(1) by simp
      next
        case (Some ex)
        then show ?thesis using after_exchange_ok [OF i, of clk h1 ex] by (simp, blast)
      qed
      then obtain e c' h' where res: "?res = Some (e, c', h')" "link_inv c'" by blast
      have "driven_event drive s clk c h = Some ((e, c', h'), s')"
        unfolding driven_event_def Some Inr y using dr(1) res(1) by simp
      moreover have "connection_event (\<lambda>_ _ _ _. x) clk c h = Some (e, c', h')"
        unfolding connection_event_def Some Inr y using res(1) by simp
      ultimately show ?thesis unfolding if_not_P [OF f(3)] using res(2) dr(2,3) f(1) by (metis (no_types))
    qed
  qed
qed

end

section \<open>The driver meets the contract\<close>

definition driver_ready :: "driver \<Rightarrow> bool" where
  "driver_ready s \<longleftrightarrow> (case s of (dev, r, b) \<Rightarrow> clock_runs dev \<and> rd_digital_initialized r \<and> rd_frontend_calibrated r)"

text \<open>
  A finished exchange: the transmit bank was loaded with the frame first, the radio is idle, nothing was
  released unchecked, a returned packet was read from the receive bank, and a response counts as transmitted
  only after its release and completion.
\<close>

definition radio_done :: "driver \<Rightarrow> bytes \<Rightarrow> exchange_result option \<Rightarrow> driver \<Rightarrow> bool" where
  "radio_done s f x s' \<longleftrightarrow> (case (s, s') of ((dev, r, b), (dev', r', b')) \<Rightarrow>
     dev' = dev \<and> r' = r \<and> grows (b @ [TxStage (encode_transmit_buffer f)]) b' \<and> radio_idle b' \<and> w_ok (watch (length b) b')
     \<and> (case x of None \<Rightarrow> True
        | Some ex \<Rightarrow> from_bank (payload (ex_received ex)) b'
            \<and> (ex_transmitted ex \<longrightarrow> w_released (watch (length b) b') \<and> w_completed (watch (length b) b'))))"

interpretation radio_driver: exchange_driver radio_drive driver_ready radio_done
proof
  fix s :: driver and f :: bytes and ch :: channel and d t :: nat
  obtain dev r b where s: "s = (dev, r, b)" by (cases s)
  assume "driver_ready s" "2 \<le> length f" "length f \<le> 29"
  then have "clock_runs dev" "started r f" by (simp_all add: s driver_ready_def started_def)
  then obtain res out b' where ex: "exchange dev r ch d t f (replicate 29 0) b = Some (res, out, b')"
      "grows (b @ [TxStage (encode_transmit_buffer f)]) b'" "radio_idle b'" "w_ok (watch (length b) b')"
      "case res of Inl e \<Rightarrow> True
       | Inr (p, sent) \<Rightarrow> 2 \<le> length (payload p) \<and> length (payload p) \<le> 29 \<and> payload p = take (length (payload p)) out
           \<and> from_bank (payload p) b' \<and> (sent \<longrightarrow> w_released (watch (length b) b') \<and> w_completed (watch (length b) b'))"
    using exchange_runs [of dev "replicate 29 0" r f ch d t b] unfolding length_replicate by blast
  have len: "CONNECTION_EVENT_RX_BUFFER_LEN = 29"
    by (simp add: CONNECTION_EVENT_RX_BUFFER_LEN_def CONNECTION_RX_MAX_WIRE_PAYLOAD_LEN_def MAX_LL_DATA_PAYLOAD_LEN_def)
  show "\<exists>x s'. radio_drive s ch d t f = Some (x, s') \<and> driver_ready s' \<and> radio_done s f x s'"
    using ex \<open>driver_ready s\<close> unfolding s radio_drive_def prod.case len ex(1)
    by (cases res) (auto simp: driver_ready_def radio_done_def)
qed

section \<open>Properties\<close>

text \<open>
  C4. A connection event on the register-level radio: from every state of the link invariant, on every
  device whose clock runs, the event returns and keeps the invariant. It leaves the radio untouched exactly
  when the procedure that owns the control PDU of the event is not waiting to send it, and then ends the link
  with reason 0x1f. Otherwise the first thing in the history is the DMA bank loaded with exactly the PDU of the
  event (what is selected, and else the first of the priority control PDU, the control PDU and the ACL payload,
  and else the empty PDU), under a header with its LLID, NESN and SN, padded with zeros; the radio ends idle,
  no response was released without the length and CRC checks, and the outcome is that of
  \<open>connection_event\<close> for a packet read from the receive bank, with the frame counted as transmitted only after
  its release and completion.
\<close>

theorem connection_event_on_radio:
  assumes "clock_runs dev" "rd_digital_initialized r" "rd_frontend_calibrated r" "link_inv c" "event_pdu c = (llid, pl)"
  shows "\<exists>e c' h' b'. driven_event radio_drive (dev, r, b) clk c h = Some ((e, c', h'), (dev, r, b')) \<and> link_inv c'
    \<and> (if stage_refused c then b' = b \<and> e = Some 0x1f \<and> same_queues c c' \<and> traffic h' = traffic h
       else \<exists>x. length pl \<le> 27
            \<and> grows (b @ [TxStage ((llid OR push_bit 2 (ac_expected_sn c) OR push_bit 3 (ac_transmit_sn c))
                  # word_of_nat (length pl) # pl @ replicate (62 - length pl) 0)]) b'
            \<and> radio_idle b' \<and> w_ok (watch (length b) b')
            \<and> connection_event (\<lambda>_ _ _ _. x) clk c h = Some (e, c', h')
            \<and> (case x of None \<Rightarrow> True
               | Some ex \<Rightarrow> from_bank (payload (ex_received ex)) b'
                   \<and> (ex_transmitted ex \<longrightarrow> w_released (watch (length b) b') \<and> w_completed (watch (length b) b'))))"
proof -
  have "driver_ready (dev, r, b)" using assms(1-3) by (simp add: driver_ready_def)
  from radio_driver.driven_event_ok [OF this assms(4), of clk h]
  obtain e c' h' s' where ev: "driven_event radio_drive (dev, r, b) clk c h = Some ((e, c', h'), s')" "link_inv c'"
    and alt: "if stage_refused c then s' = (dev, r, b) \<and> e = Some 0x1f \<and> same_queues c c' \<and> traffic h' = traffic h
       else \<exists>x. connection_event (\<lambda>_ _ _ _. x) clk c h = Some (e, c', h') \<and> radio_done (dev, r, b) (air_frame c) x s'"
    by blast
  show ?thesis
  proof (cases "stage_refused c")
    case True
    then show ?thesis using ev alt by auto
  next
    case False
    then obtain x where x: "connection_event (\<lambda>_ _ _ _. x) clk c h = Some (e, c', h')"
      "radio_done (dev, r, b) (air_frame c) x s'" using alt by auto
    obtain b' where s': "s' = (dev, r, b')" using x(2) by (cases s') (auto simp: radio_done_def)
    have n: "length pl \<le> 27" using event_pdu_len [OF assms(4)] assms(5) by simp
    then have "encode_transmit_buffer (air_frame c) = (llid OR push_bit 2 (ac_expected_sn c) OR push_bit 3 (ac_transmit_sn c))
        # word_of_nat (length pl) # pl @ replicate (62 - length pl) 0"
      using assms(5) by (simp add: air_frame_def encode_transmit_buffer_def RF_DMA_BUFFER_LEN_def splice_def)
    then show ?thesis using False ev x n unfolding s' radio_done_def by auto
  qed
qed

text \<open>The example queues two octets of ACL data, and they are what the bank is loaded with.\<close>

definition example_sender :: active_connection where
  "example_sender = example_connection\<lparr>ac_pending := Some \<lparr>pd_bytes = [0xaa, 0xbb] @ replicate 25 0,
     pd_len = 2, pd_llid = LLID_START, pd_owner_token = 1\<rparr>\<rparr>"

lemma example_sender_inv: "link_inv example_sender"
  using example_link_inv example_tx_fields example_connection_fields(9,10)
  by (simp add: example_sender_def link_inv_def conn_ok_def acl_ok_def frame_ok_def pd_ok_def
      MAX_DATA_PDU_PAYLOAD_def ACL_PAYLOAD_LEN_def)

theorem connection_event_on_radio_witness:
  "\<exists>e c' h' b'. driven_event radio_drive (null_device, ready_radio, []) (\<lambda>_. 1700) example_sender host_link_init
      = Some ((e, c', h'), (null_device, ready_radio, b')) \<and> radio_idle b'
      \<and> grows [TxStage ([0x02, 2, 0xaa, 0xbb] @ replicate 60 0)] b'"
proof -
  have "rd_digital_initialized ready_radio" "rd_frontend_calibrated ready_radio" by (simp_all add: ready_radio_def)
  moreover have "event_pdu example_sender = (2, [0xaa, 0xbb])" "\<not> stage_refused example_sender"
    by (simp_all add: example_sender_def event_pdu_def event_control_def stage_refused_def example_connection_fields
        example_priority LLID_START_def)
  moreover have "ac_expected_sn example_sender = 0" "ac_transmit_sn example_sender = 0"
    by (simp_all add: example_sender_def example_tx_fields)
  ultimately show ?thesis
    using connection_event_on_radio [OF null_clock _ _ example_sender_inv, of ready_radio 2 "[0xaa, 0xbb]" "[]" "\<lambda>_. 1700" host_link_init]
    by auto
qed

end
