(* ===== verification/Link_Keys.thy ===== *)
theory Link_Keys
  imports Link_Loop
begin

text \<open>
  The air identity of a link: access address and CRC initial value come from the CONNECT\_IND and never
  change afterwards, whatever parameters the link renegotiates; the runner's copy of the radio's keys
  changes with \<open>HCI_Reset\<close>, at the start and at the end of a link, and nowhere else.
\<close>

section \<open>The connection\<close>

definition air_keys :: "active_connection \<Rightarrow> u32 \<times> u32" where
  "air_keys c = (ci_access_address (ac_request c), ci_crc_init (ac_request c))"

lemma air_keys_request: "ac_request c' = ac_request c \<Longrightarrow> air_keys c' = air_keys c"
  by (simp add: air_keys_def)

lemma air_keys_ctrl: "ctrl_ok c c' \<Longrightarrow> air_keys c' = air_keys c"
  by (simp add: ctrl_ok_def same_data_def air_keys_def)

lemma air_keys_schedule [simp]: "air_keys (schedule_following_event c) = air_keys c"
  by (simp add: schedule_following_event_def Let_def air_keys_def split: option.split)

lemma air_keys_next_channel: "ac_next_channel c = Some (x, c') \<Longrightarrow> air_keys c' = air_keys c"
  by (auto simp: ac_next_channel_def air_keys_def split: option.splits)

lemma air_keys_instants: "apply_instants now c = Inr (x, c') \<Longrightarrow> air_keys c' = air_keys c"
  by (auto simp: apply_instants_def apply_channel_map_def apply_connection_update_def air_keys_def Let_def
      split: option.splits sum.splits if_splits)

lemma air_keys_instants_step: "instants_step now c h = Inr (c', h') \<Longrightarrow> air_keys c' = air_keys c"
  by (auto simp: instants_step_def Let_def air_keys_def dest!: air_keys_instants [unfolded air_keys_def] split: sum.splits if_splits)

lemma air_keys_pending: "with_pending_procedure c f = Some c' \<Longrightarrow> air_keys c' = air_keys c"
  by (auto simp: with_pending_procedure_def air_keys_def split: option.splits sum.splits)

lemma air_keys_skip:
  "skip_loop clock now count notify c = Some (Inr (n, nt, c')) \<Longrightarrow> air_keys c' = air_keys c"
proof (induction clock now count notify c rule: skip_loop.induct)
  case (1 clock now count notify c)
  show ?case
  proof (cases "now > receive_close c")
    case False
    then show ?thesis using 1(2) by (simp add: skip_loop.simps [of clock now count notify c])
  next
    case True
    obtain a ch c1 x c3 where s: "apply_instants (clock count) c = Inr ((a, ch), c1)"
      "ac_next_channel (if a then c1\<lparr>ac_local_connection_param_request := None\<rparr> else c1) = Some (x, c3)" "count + 1 < 65536"
      "skip_loop clock now (count + 1) (notify \<or> ch \<or> (a \<and> ac_local_connection_param_request c1 \<noteq> None)) (schedule_following_event c3)
         = Some (Inr (n, nt, c'))"
      using 1(2) True by (subst (asm) skip_loop.simps) (auto simp: Let_def split: sum.splits option.splits if_split_asm)
    have "air_keys c' = air_keys c3" using 1(1) [OF True s(1) refl refl refl refl s(2) refl refl s(3,4)] by simp
    moreover have "air_keys c3 = air_keys c1" using air_keys_next_channel [OF s(2)] by (simp add: air_keys_def split: if_splits)
    ultimately show ?thesis using air_keys_instants [OF s(1)] by simp
  qed
qed

lemma air_keys_queue_acl: "queue_acl c p = Inr c' \<Longrightarrow> air_keys c' = air_keys c"
  by (auto simp: queue_acl_def Let_def air_keys_def split: if_splits option.splits)

section \<open>A connection event\<close>

lemma air_keys_stage:
  assumes "stage_event clock c h = Some (Inr (ch, d, t, c', h'))"
  shows "air_keys c' = air_keys c"
proof -
  have p: "air_keys (choose_transmit (promote_priority_control_if_idle x)) = air_keys x" for x
    by (simp add: choose_transmit_def promote_priority_control_if_idle_def air_keys_def)
  have b: "air_keys y = air_keys x" if "build_transmit_frame x = Some y" for x y
    using that air_keys_pending [of x tx_planned]
    by (auto simp: build_transmit_frame_def plan_pending_control_procedure_def Let_def air_keys_def
        split: option.splits if_splits prod.splits)
  have t: "air_keys y = air_keys x" if "take_receive_timeout x = (n, y)" for x n y
    using that by (auto simp: take_receive_timeout_def Let_def air_keys_def)
  obtain c1 where c1: "instants_step (clock 0) c h = Inr (c1, h')" using assms by (auto simp: stage_event_def Let_def split: sum.splits option.splits prod.splits)
  obtain x c2 where c2: "ac_next_channel c1 = Some (x, c2)" using assms c1 by (auto simp: stage_event_def split: option.splits)
  obtain n c3 where c3: "take_receive_timeout c2 = (n, c3)" by (cases "take_receive_timeout c2")
  define c4 where "c4 = choose_transmit (promote_priority_control_if_idle c3)"
  have "air_keys c' = air_keys c4"
    using assms b [of c4] unfolding stage_event_def c1 sum.case prod.case c2 option.case c3 Let_def c4_def [symmetric]
    by (auto simp: air_keys_def split: option.splits if_splits)
  then show ?thesis using p t [OF c3] air_keys_next_channel [OF c2] air_keys_instants_step [OF c1] by (simp add: c4_def)
qed

lemma air_keys_ack: "ack_step now c h = Some (c', h') \<Longrightarrow> air_keys c' = air_keys c"
  using air_keys_pending [of c]
  by (auto simp: ack_step_def acknowledge_pending_control_def release_acl_def Let_def air_keys_def
      split: option.splits if_splits transmitted_pdu.splits)

lemma air_keys_receive: "receive_step c h header pl = Some (e, c', h') \<Longrightarrow> air_keys c' = air_keys c"
  using air_keys_ctrl handle_ll_control_ok [of "c\<lparr>ac_expected_sn := ac_expected_sn c XOR 1\<rparr>" h pl]
  by (force simp: receive_step_def Let_def air_keys_def split: if_splits)

lemma air_keys_packet:
  assumes "after_packet clock c h outstanding st received header pl = Some (e, c', h')"
  shows "air_keys c' = air_keys c"
proof -
  define c2 where "c2 = c\<lparr>ac_last_rssi := rssi_dbm received,
      ac_supervision_deadline := clock 1 + unat (ci_supervision_timeout (ac_request c)) * 10000\<rparr>"
  define a where "a = (if acknowledges_transmit_owner header (ac_transmit_sn c2) outstanding False then ack_step (clock 2) c2 h else Some (c2, h))"
  note body = assms [unfolded after_packet_def Let_def c2_def [symmetric] a_def [symmetric]]
  have k2: "air_keys c2 = air_keys c" by (simp add: c2_def air_keys_def)
  show ?thesis
  proof (cases a)
    case None
    then show ?thesis using body k2 by simp
  next
    case (Some y)
    obtain c3 h3 where y: "y = (c3, h3)" by (cases y)
    have k3: "air_keys c3 = air_keys c" using Some y k2 air_keys_ack [of "clock 2" c2 h c3 h3] by (auto simp: a_def split: if_splits)
    obtain t c4 h4 where r: "(if drop_bit 3 header AND 1 = ac_expected_sn c3 then receive_step c3 h3 header pl else Some (None, c3, h3))
        = Some (t, c4, h4)"
      using body Some y by (auto split: option.splits prod.splits)
    have k4: "air_keys c4 = air_keys c" using r k3 air_keys_receive by (auto split: if_splits)
    show ?thesis using body Some y r k4 air_keys_instants_step
      by (auto simp: synchronize_def air_keys_def split: sum.splits)
  qed
qed

lemma air_keys_exchange:
  assumes "after_exchange clock c h outstanding ex = Some (e, c', h')"
  shows "air_keys c' = air_keys c"
proof -
  define a where "a = (if ac_tx_frame_fresh c \<and> ex_transmitted ex then map_option (\<lambda>c'. c'\<lparr>ac_tx_frame_fresh := False\<rparr>)
      (if ac_transmitted c = TP_Control then complete_pending_control_transmit c else Some c) else Some c)"
  have k: "air_keys c1 = air_keys c" if "a = Some c1" for c1
    using that air_keys_pending [of c]
    by (auto simp: a_def complete_pending_control_transmit_def air_keys_def split: if_splits option.splits)
  show ?thesis
    using assms k air_keys_packet unfolding after_exchange_def a_def [symmetric] Let_def
    by (auto split: option.splits if_splits list.splits)
qed

section \<open>Commands\<close>

definition is_reset :: "bytes \<Rightarrow> bool" where
  "is_reset b \<longleftrightarrow> command_wf b \<and> command_opcode b = 0x0c03 \<and> length b = 3"

text \<open>What a command may do to the runner's view of the radio and of advertising.\<close>

definition air_step :: "bool \<Rightarrow> 'g runner \<Rightarrow> 'g runner \<Rightarrow> bool" where
  "air_step reset r r' \<longleftrightarrow> rn_connected r' = rn_connected r
     \<and> (rn_connected r \<and> \<not> av_enabled (rn_advertiser r) \<longrightarrow> \<not> av_enabled (rn_advertiser r'))
     \<and> (rn_access_address r', rn_crc_init r') =
         (if reset then (ADV_ACCESS_ADDRESS, ADV_CRC_INIT) else (rn_access_address r, rn_crc_init r))"

lemma reply_air: "reply op r x = Some r' \<Longrightarrow> \<exists>h. r' = r\<lparr>rn_link := h\<rparr>"
  by (auto simp: reply_def split: option.splits sum.splits)

lemma reply_advertiser_air:
  assumes "reply_advertiser op r x = Some r'"
    and "\<And>a. x = Inr a \<Longrightarrow> rn_connected r \<Longrightarrow> \<not> av_enabled (rn_advertiser r) \<Longrightarrow> \<not> av_enabled a"
  shows "air_step False r r'"
  using assms by (cases x) (auto simp: reply_advertiser_def air_step_def dest!: reply_air)

lemma advertiser_commands_air:
  "reply_advertiser op r (set_random_address (rn_advertiser r) p) = Some r' \<Longrightarrow> air_step False r r'"
  "reply_advertiser op r (set_advertising_parameters (rn_advertiser r) p) = Some r' \<Longrightarrow> air_step False r r'"
  "reply_advertiser op r (map_sum id (\<lambda>d. (rn_advertiser r)\<lparr>av_data := d\<rparr>) y) = Some r' \<Longrightarrow> air_step False r r'"
  "reply_advertiser op r (map_sum id (\<lambda>d. (rn_advertiser r)\<lparr>av_scan_response := d\<rparr>) y) = Some r' \<Longrightarrow> air_step False r r'"
  "reply_advertiser op r (set_advertising_enable (rn_connected r) (rn_advertiser r) p) = Some r' \<Longrightarrow> air_step False r r'"
  by (erule reply_advertiser_air; cases y;
      auto simp: set_random_address_def set_advertising_parameters_def set_advertising_enable_def split: if_splits sum.splits option.splits)+

lemma handle_command_air:
  assumes "handle_command fill r b = Some r'"
  shows "air_step (is_reset b) r r'"
proof (cases "command_wf b")
  case False
  then show ?thesis using assms handle_command_malformed [of b fill r] by (simp add: is_reset_def air_step_def)
next
  case True
  then have wf: "\<not> (length b < 3 \<or> length b \<noteq> 3 + unat (b ! 2))" by (auto simp: command_wf_def)
  have len: "length b = 3 \<longleftrightarrow> drop 3 b = []" using wf by auto
  define P where "P x \<longleftrightarrow> (\<forall>r'. x = Some r' \<longrightarrow> air_step (is_reset b) r r')" for x
  have rs: "is_reset b \<longleftrightarrow> command_opcode b = 0x0c03 \<and> drop 3 b = []" using True len by (simp add: is_reset_def)
  have rp: "P (reply op r' result)"
    if "rn_access_address r' = rn_access_address r" "rn_crc_init r' = rn_crc_init r" "rn_connected r' = rn_connected r"
      "rn_advertiser r' = rn_advertiser r" "\<not> is_reset b" for op r' result
    using that by (auto simp: P_def air_step_def dest!: reply_air)
  have rz: "P (reply op (set_crc_init ADV_CRC_INIT (set_access_address ADV_ACCESS_ADDRESS
      (r\<lparr>rn_link := h, rn_advertiser := (rn_advertiser r)\<lparr>av_enabled := False\<rparr>\<rparr>))) result)" if "is_reset b" for op h result
    using that by (auto simp: P_def air_step_def set_crc_init_def set_access_address_def ADV_CRC_INIT_def dest!: reply_air)
  have st: "P (Some (r\<lparr>rn_link := h\<rparr>))" "P (case k of None \<Rightarrow> None | Some h' \<Rightarrow> Some (r\<lparr>rn_random := g, rn_link := h'\<rparr>))"
    if "\<not> is_reset b" for h k g
    using that by (auto simp: P_def air_step_def split: option.splits)
  have ra: "P (reply_advertiser op r (set_random_address (rn_advertiser r) p))"
    "P (reply_advertiser op r (set_advertising_parameters (rn_advertiser r) p))"
    "P (reply_advertiser op r (map_sum id (\<lambda>d. (rn_advertiser r)\<lparr>av_data := d\<rparr>) y))"
    "P (reply_advertiser op r (map_sum id (\<lambda>d. (rn_advertiser r)\<lparr>av_scan_response := d\<rparr>) y))"
    "P (reply_advertiser op r (set_advertising_enable (rn_connected r) (rn_advertiser r) p))"
    if "\<not> is_reset b" for op p y
    unfolding P_def using that by (auto dest: advertiser_commands_air)
  have "P (handle_command fill r b)"
  proof (cases "is_reset b")
    case True
    then show ?thesis unfolding handle_command_def Let_def if_not_P [OF wf] command_opcode_def [symmetric]
      using rs by (simp add: rz)
  next
    case False
    have f: "P (let (random, g) = fill (rn_random r) 8 in
        case command_complete op HCI_SUCCESS random (rn_link r) of None \<Rightarrow> None | Some h \<Rightarrow> Some (r\<lparr>rn_random := g, rn_link := h\<rparr>))" for op
      using st(2) [OF False] by (simp add: split_beta)
    have nr: "\<not> (command_opcode b = 0x0c03 \<and> drop 3 b = [])" using False rs by simp
    show ?thesis unfolding handle_command_def if_not_P [OF wf] command_opcode_def [symmetric] Let_def if_not_P [OF nr]
      using f by (simp add: rp [OF _ _ _ _ False] st [OF False] ra [OF False] Let_def)
  qed
  then show ?thesis using assms unfolding P_def by blast
qed

lemma air_step_link: "\<not> reset \<Longrightarrow> air_step reset r (r\<lparr>rn_link := h\<rparr>)"
  by (simp add: air_step_def)

lemma handle_connected_command_air:
  assumes "handle_connected_command fill r c b = Some (stop, r', c')"
  shows "air_step (is_reset b) r r'"
proof (cases "command_wf b \<and> \<not> is_reset b")
  case False
  then have "handle_command fill r b = Some r'"
  proof (cases "command_wf b")
    case True
    then have wf: "\<not> (length b < 3 \<or> length b \<noteq> 3 + unat (b ! 2))" by (auto simp: command_wf_def)
    have "command_opcode b = 0x0c03 \<and> drop 3 b = []" using False True by (simp add: is_reset_def)
    then show ?thesis using assms unfolding handle_connected_command_def if_not_P [OF wf] command_opcode_def [symmetric] Let_def by simp
  qed (use assms handle_command_malformed [of b fill r] in \<open>auto simp: handle_connected_command_def command_wf_def\<close>)
  then show ?thesis by (rule handle_command_air)
next
  case True
  then have wf: "\<not> (length b < 3 \<or> length b \<noteq> 3 + unat (b ! 2))" by (auto simp: command_wf_def)
  have len: "length b = 3 \<longleftrightarrow> drop 3 b = []" using wf by auto
  have nr: "\<not> (command_opcode b = 0x0c03 \<and> drop 3 b = [])" using True len by (auto simp: is_reset_def)
  define P where "P x \<longleftrightarrow> (\<forall>stop r' c'. x = Some (stop, r', c') \<longrightarrow> air_step (is_reset b) r r')" for x :: "(bool \<times> 'a runner \<times> active_connection) option"
  have st: "P (Some (s, r\<lparr>rn_link := h\<rparr>, c''))" "P (map_option (\<lambda>h. (s, r\<lparr>rn_link := h\<rparr>, c'')) k)" for s h c'' k
    using True air_step_link by (auto simp: P_def)
  have hc: "P (map_option (\<lambda>r'. (s, r', c)) (handle_command fill r b))" for s
    using handle_command_air by (auto simp: P_def)
  have "P (handle_connected_command fill r c b)"
    unfolding handle_connected_command_def if_not_P [OF wf] command_opcode_def [symmetric] Let_def if_not_P [OF nr]
    by (simp add: st hc split: prod.split)
  then show ?thesis using assms unfolding P_def by blast
qed

definition packet_resets :: "packet \<Rightarrow> bool" where
  "packet_resets p \<longleftrightarrow> pk_kind p = Kind_Cmd \<and> is_reset (take (pk_len p) (pk_bytes p))"

lemma air_step_refl [simp]: "air_step False r r"
  by (simp add: air_step_def)

lemma host_packet_air: "handle_host_packet fill r p = Some r' \<Longrightarrow> air_step (packet_resets p) r r'"
  using handle_command_air [of fill r "take (pk_len p) (pk_bytes p)"]
  by (auto simp: handle_host_packet_def packet_resets_def split: packet_kind.splits)

lemma connected_packet_air:
  assumes "process_connected_host_packet fill r c p = Some (stop, r', c')" "fills fill"
  shows "air_step (packet_resets p) r r' \<and> air_keys c' = air_keys c \<and> (stop \<longleftrightarrow> packet_resets p)"
proof (cases "pk_kind p")
  case Kind_Cmd
  let ?b = "take (pk_len p) (pk_bytes p)"
  have h: "handle_connected_command fill r c ?b = Some (stop, r', c')"
    using assms(1) Kind_Cmd by (simp add: process_connected_host_packet_def)
  have "length (fst (fill (rn_random r) 8)) = 8" using assms(2) by (simp add: fills_def)
  then have "ctrl_ok c c' \<and> (stop \<longleftrightarrow> is_reset ?b)" using handle_connected_command_ok [of fill r c ?b] h by (auto simp: is_reset_def)
  then show ?thesis using handle_connected_command_air [OF h] air_keys_ctrl Kind_Cmd by (simp add: packet_resets_def)
qed (use assms air_keys_queue_acl in \<open>auto simp: process_connected_host_packet_def packet_resets_def split: sum.splits\<close>)

section \<open>Turns\<close>

lemma air_step_trans: "air_step False r r1 \<Longrightarrow> air_step reset r1 r2 \<Longrightarrow> air_step reset r r2"
  by (simp add: air_step_def)

lemma drain_air:
  "drain_host_packets fill r c ps = Some (stop, r', c') \<Longrightarrow> fills fill \<Longrightarrow> air_step stop r r' \<and> air_keys c' = air_keys c"
proof (induction ps arbitrary: r c)
  case (Cons p ps)
  obtain s1 r1 c1 where p: "process_connected_host_packet fill r c p = Some (s1, r1, c1)"
    using Cons.prems(1) by (auto split: option.splits)
  note a = connected_packet_air [OF p Cons.prems(2)]
  show ?case
  proof (cases s1)
    case True
    then show ?thesis using Cons.prems(1) p a by simp
  next
    case False
    then show ?thesis using Cons.IH [of r1 c1] Cons.prems p a air_step_trans by auto
  qed
qed simp

lemma skip_and_notify_air:
  "skip_and_notify clock now r c = Some (Inr (n, r', c')) \<Longrightarrow> air_step False r r' \<and> air_keys c' = air_keys c"
  by (auto simp: skip_and_notify_def skip_expired_events_def air_step_def dest: air_keys_skip split: option.splits sum.splits if_splits)

lemma connection_event_air: "connection_event exchange clock c h = Some (None, c', h') \<Longrightarrow> air_keys c' = air_keys c"
proof -
  assume ev: "connection_event exchange clock c h = Some (None, c', h')"
  show ?thesis
  proof (cases "stage_event clock c h")
    case None
    then show ?thesis using ev by (simp add: connection_event_def)
  next
    case (Some y)
    show ?thesis
    proof (cases y)
      case (Inl z)
      then have "stage_event clock c h = Some (Inl (None, c', h'))" using ev Some by (simp add: connection_event_def)
      then show ?thesis by (auto simp: stage_event_def Let_def split: sum.splits option.splits prod.splits)
    next
      case (Inr z)
      obtain ch d t c1 h1 where z: "z = (ch, d, t, c1, h1)" by (cases z)
      then have "air_keys c1 = air_keys c" using air_keys_stage Some Inr by simp
      then show ?thesis using ev Some Inr z air_keys_exchange
        by (auto simp: connection_event_def Let_def split: option.splits)
    qed
  qed
qed

lemma timer_turn_air:
  "timer_turn exchange clock now r c = Some (Again, r', c') \<Longrightarrow> air_step False r r' \<and> air_keys c' = air_keys c"
  using connection_event_air
  by (auto simp: timer_turn_def air_step_def dest!: skip_and_notify_air split: option.splits sum.splits if_splits)

lemma turn_air:
  assumes "run_connection_turn fill exchange clock now later drained wake r c = Some (Again, r', c')" "fills fill"
  shows "air_step False r r' \<and> air_keys c' = air_keys c"
proof -
  obtain r1 c1 where d: "drain_host_packets fill r c drained = Some (False, r1, c1)"
    using assms(1) by (auto simp: run_connection_turn_def split: option.splits bool.splits)
  define c2 where "c2 = c1\<lparr>ac_procedures := snd (check_timeouts (ac_procedures c1) (word_of_nat now) 0x22)\<rparr>"
  have k2: "air_step False r r1" "air_keys c2 = air_keys c" using drain_air [OF d assms(2)] by (simp_all add: c2_def air_keys_def)
  obtain n r3 c3 where s: "skip_and_notify clock now r1 c2 = Some (Inr (n, r3, c3))"
    using assms(1) by (auto simp: run_connection_turn_def d c2_def Let_def split: option.splits sum.splits if_splits prod.splits)
  have k3: "air_step False r r3" "air_keys c3 = air_keys c" using skip_and_notify_air [OF s] k2 air_step_trans by auto
  have "n \<noteq> 0 \<and> r' = r3 \<and> c' = c3
      \<or> (\<exists>p. process_connected_host_packet fill r3 c3 p = Some (False, r', c'))
      \<or> timer_turn exchange clock later r3 c3 = Some (Again, r', c')"
    using assms(1) d s by (auto simp: run_connection_turn_def c2_def Let_def split: option.splits if_splits prod.splits)
  then show ?thesis
    using k3 timer_turn_air connected_packet_air [OF _ assms(2)] air_step_trans [OF k3(1)] by (metis (full_types))
qed

end
