(* ===== verification/Radio_Keys.thy ===== *)
theory Radio_Keys
  imports Radio_Recovery
begin

text \<open>
  The air identity of the radio: the access address and the CRC initial value last written to the
  baseband. Both exchanges of \<^verbatim>\<open>crates/ch58x-ble/src/radio.rs\<close> leave them alone, initialization writes the
  advertising values, and only the two setters change them.
\<close>

section \<open>Keys\<close>

definition radio_keys :: "radio_bus \<Rightarrow> u32 option \<times> u32 option" where
  "radio_keys h = (last_write bb_tx_access_address h, last_write bb_tx_crc_init h)"

definition key_register :: "u32 \<Rightarrow> bool" where
  "key_register a \<longleftrightarrow> a = bb_tx_access_address \<or> a = bb_tx_crc_init"

lemma radio_keys_iff: "radio_keys h' = radio_keys h \<longleftrightarrow> (\<forall>a. key_register a \<longrightarrow> last_write a h' = last_write a h)"
  by (auto simp: radio_keys_def key_register_def)

lemma radio_keys_inert: "list_all inert t \<Longrightarrow> radio_keys (h @ t) = radio_keys h"
  by (simp add: radio_keys_def last_write_inert)

lemma radio_keys_events [simp]:
  "radio_keys (h @ [ClockRead t]) = radio_keys h" "radio_keys (h @ [RegRead b v]) = radio_keys h"
  "radio_keys (h @ [RxByte i x]) = radio_keys h"
  by (simp_all add: radio_keys_def)

lemma radio_keys_append: "list_all (\<lambda>e. \<forall>a v. e \<noteq> RegWrite a v) t \<Longrightarrow> radio_keys (h @ t) = radio_keys h"
proof (induction t arbitrary: h)
  case (Cons e t)
  then have "radio_keys (h @ [e]) = radio_keys h" by (cases e) (auto simp: radio_keys_def last_write_def)
  then show ?case using Cons.IH [of "h @ [e]"] Cons.prems by simp
qed simp

section \<open>Statements that leave the keys alone\<close>

definition unkeyed :: "(radio_bus \<Rightarrow> radio_bus) \<Rightarrow> bool" where
  "unkeyed f \<longleftrightarrow> (\<forall>h. radio_keys (f h) = radio_keys h)"

lemma unkeyedD [simp]: "unkeyed f \<Longrightarrow> radio_keys (f h) = radio_keys h"
  by (simp add: unkeyed_def)

lemma unkeyed_prims [simp, intro]:
  "\<not> key_register a \<Longrightarrow> unkeyed (reg_write a v)" "\<not> key_register a \<Longrightarrow> unkeyed (reg_modify dev a f)"
  "unkeyed (half_write a w)" "inert e \<Longrightarrow> unkeyed (record_event e)"
  using radio_keys_inert [of "[e]"]
  by (auto simp: unkeyed_def radio_keys_iff record_event_def)

lemma unkeyed_steps [simp, intro]: "list_all unkeyed fs \<Longrightarrow> unkeyed (steps fs)"
  by (induction fs) (auto simp: unkeyed_def)

lemma key_registers [simp]:
  "\<not> key_register bb_config" "\<not> key_register bb_tx_control" "\<not> key_register bb_interrupt_status" "\<not> key_register bb_receive_config_18"
  "\<not> key_register lle_mode" "\<not> key_register lle_command" "\<not> key_register lle_status" "\<not> key_register lle_config"
  "\<not> key_register lle_operation_countdown" "\<not> key_register lle_interrupt_enable" "\<not> key_register lle_tx_buffer"
  "\<not> key_register lle_rx_buffer" "\<not> key_register lle_rx_to_tx_timing"
  "\<not> key_register (RFEND_BASE + 0x08)" "\<not> key_register (RFEND_BASE + 0x2c)" "\<not> key_register (RFEND_BASE + 0x44)"
  by (simp_all add: key_register_def bb_tx_access_address_def bb_tx_crc_init_def radio_addresses)

lemma unkeyed_ops [simp, intro]:
  "unkeyed (configure_ch585_synth dev ch rx)" "unkeyed (set_channel dev ch)" "unkeyed (set_receive_channel dev ch)"
  "unkeyed (prepare_common_operation dev mode)" "unkeyed (configure_transmit_phy_1m dev n)" "unkeyed (configure_receive_phy_1m dev)"
  "unkeyed (start_transmit_operation dev)" "unkeyed clear_lle_status" "unkeyed (clear_bb_interrupt_status dev)"
  "unkeyed (shut_down_operation dev)"
  by (simp_all add: configure_ch585_synth_def set_channel_def set_receive_channel_def prepare_common_operation_def Let_def
      configure_transmit_phy_1m_def configure_receive_phy_1m_def start_transmit_operation_def
      clear_lle_status_def clear_bb_interrupt_status_def shut_down_operation_def)

lemma unkeyed_compounds [simp, intro]:
  "unkeyed (continue_tx_to_rx_1m dev ch)" "unkeyed (release_receive_to_transmit_1m dev ch a n l)"
  "unkeyed (release_exchange dev ch n l)" "unkeyed (exchange_start dev ch timeout)"
  "unkeyed (adv_prepare dev)" "unkeyed (adv_launch dev n)"
  by (simp_all add: continue_tx_to_rx_1m_def release_receive_to_transmit_1m_def release_exchange_def exchange_start_def
      adv_prepare_def adv_launch_def)

lemma copy_keys: "copy_received_packet dev out adv h = (n, out', h') \<Longrightarrow> radio_keys h' = radio_keys h"
  using copy_inert [of dev out adv h] radio_keys_inert by auto

lemma stage_keys: "stage_transmit dev r ch packet h = (x, h') \<Longrightarrow> radio_keys h' = radio_keys h"
proof -
  have "unkeyed (steps [record_event (TxStage (encode_transmit_buffer packet)), set_channel dev ch, reg_write lle_tx_buffer (tx_address dev)])"
    by simp
  then show "stage_transmit dev r ch packet h = (x, h') \<Longrightarrow> radio_keys h' = radio_keys h"
    unfolding stage_transmit_ok by (auto simp del: steps_simps split: if_splits)
qed

section \<open>The exchanges\<close>

lemma exchange_loop_keys:
  assumes "exchange_loop dev ch m rdl opd ts turn h = Some y"
  shows "radio_keys (snd (snd y)) = radio_keys h"
  using assms
proof (rule exchange_loop.raw_induct [rotated])
  fix loop dev ch m rdl opd ts turn h y
  assume IH: "\<And>dev ch m rdl opd ts turn h y. loop dev ch m rdl opd ts turn h = Some y \<Longrightarrow> radio_keys (snd (snd y)) = radio_keys h"
    and body: "(let (now, h1) = clock dev h in
      if \<not> now < opd then Some (ts, False, h1)
      else (let (status, h2) = reg_read dev lle_status h1 in
        if status AND LLE_STATUS_RX_TO_TX \<noteq> 0 \<and> \<not> turn then
          (let (len, h3) = read_dma_byte dev 1 h2;
               (t, h4) = clock dev h3;
               (bb, h5) = reg_read dev bb_interrupt_status h4
           in if bb AND push_bit 5 1 \<noteq> 0 \<or> unat len > CONNECTION_RX_MAX_WIRE_PAYLOAD_LEN then Some (Some t, False, h5)
              else loop dev ch m rdl opd (Some t) True (release_exchange dev ch m len h5))
        else if turn \<and> status AND LLE_STATUS_RX_COMPLETE \<noteq> 0 then
          Some (ts, True, reg_write lle_status LLE_STATUS_RX_COMPLETE h2)
        else (let (left, h3) = reg_read dev lle_operation_countdown h2 in
          if left = 0 then Some (ts, False, h3)
          else if \<not> turn then
            (let (now2, h4) = clock dev h3 in
             if now2 \<ge> rdl then Some (ts, False, h4) else loop dev ch m rdl opd ts turn h4)
          else loop dev ch m rdl opd ts turn h3))) = Some y"
  show "radio_keys (snd (snd y)) = radio_keys h"
    using body by (auto simp: clock_def reg_read_def read_dma_byte_def radio_keys_append dest!: IH split: if_splits)
qed

lemma exchange_finish_keys: "exchange_finish dev out ts tr h = (res, out', h') \<Longrightarrow> radio_keys h' = radio_keys h"
  using copy_keys [of dev out False]
  by (auto simp: exchange_finish_def reg_read_def Let_def split: option.splits prod.splits if_splits)

lemma exchange_keys:
  assumes "exchange dev r ch d t tx out h = Some (res, out', h')"
  shows "radio_keys h' = radio_keys h"
proof (cases "29 \<le> length out \<and> started r tx")
  case False
  then show ?thesis using assms by (auto simp: exchange_eq split: if_splits)
next
  case True
  define h1 where "h1 = exchange_begin dev ch t tx h"
  have h1: "radio_keys h1 = radio_keys h" unfolding h1_def exchange_begin_def by simp
  obtain y where y: "exchange_loop dev ch (length tx) (min (dev_now dev h1 + t) d) (min (dev_now dev h1 + t) d + 1000) None False
        (h1 @ [ClockRead (dev_now dev h1)]) = Some y"
    "(case y of (ts, tr, h3) \<Rightarrow> exchange_finish dev out ts tr h3) = (res, out', h')"
    using assms True by (auto simp: exchange_eq Let_def h1_def [symmetric] bind_eq_Some_conv)
  show ?thesis using exchange_loop_keys [OF y(1)] exchange_finish_keys y(2) h1 by (auto split: prod.splits)
qed

definition control_bus :: "adv_control \<Rightarrow> radio_bus" where
  "control_bus c = (case c of Adv_Continue _ h \<Rightarrow> h | Adv_Break _ h \<Rightarrow> h)"

lemma control_bus_simps [simp]: "control_bus (Adv_Continue s h) = h" "control_bus (Adv_Break s h) = h"
  by (simp_all add: control_bus_def)

lemma adv_arm_keys: "adv_arm dev ch timeout st s h = (s', h') \<Longrightarrow> radio_keys h' = radio_keys h"
  by (auto simp: adv_arm_def clock_def split: if_splits)

lemma adv_buffered_keys: "adv_buffered dev ty len s h = (b, s', h') \<Longrightarrow> radio_keys h' = radio_keys h"
  by (auto simp: adv_buffered_def clock_def Let_def radio_keys_append split: if_splits option.splits)

lemma adv_captured_keys: "adv_captured dev h = (b, h') \<Longrightarrow> radio_keys h' = radio_keys h"
  by (auto simp: adv_captured_def reg_read_def record_event_def Let_def radio_keys_append split: if_splits)

lemma adv_finish_bus [simp]: "control_bus (adv_finish st s h) = h"
  by (simp add: adv_finish_def control_bus_def)

lemma adv_packet_keys: "radio_keys (control_bus (adv_packet dev ch response rlen address len st s h)) = radio_keys h"
proof -
  let ?h1 = "h @ [RegRead bb_interrupt_status (dev_reg dev h bb_interrupt_status)]"
  obtain n out h2 where c: "copy_received_packet dev (as_output s) True ?h1 = (n, out, h2)" by (cases "copy_received_packet dev (as_output s) True ?h1")
  then have "radio_keys h2 = radio_keys h" using copy_keys [OF c] by simp
  then show ?thesis using c
    by (simp add: adv_packet_def reg_read_def read_dma_byte_def clock_def Let_def radio_keys_append if_distrib [where f = control_bus])
qed

lemma adv_round_keys: "radio_keys (control_bus (adv_round dev ch timeout response rlen address s h)) = radio_keys h"
proof -
  let ?h1 = "h @ [RegRead lle_status (dev_reg dev h lle_status)]"
  obtain s1 h2 where a: "adv_arm dev ch timeout (dev_reg dev h lle_status) s ?h1 = (s1, h2)"
    by (cases "adv_arm dev ch timeout (dev_reg dev h lle_status) s ?h1")
  let ?h3 = "h2 @ [RxByte 0 (dev_rx dev h2 0)]"
  let ?h4 = "?h3 @ [RxByte 1 (dev_rx dev ?h3 1)]"
  obtain bs s2 h5 where b: "adv_buffered dev (dev_rx dev h2 0 AND 0x0f) (dev_rx dev ?h3 1 AND 0x3f) s1 ?h4 = (bs, s2, h5)"
    by (cases "adv_buffered dev (dev_rx dev h2 0 AND 0x0f) (dev_rx dev ?h3 1 AND 0x3f) s1 ?h4") auto
  obtain cap h6 where c: "adv_captured dev h5 = (cap, h6)" by (cases "adv_captured dev h5")
  have "radio_keys h6 = radio_keys h"
    using adv_arm_keys [OF a] adv_buffered_keys [OF b] adv_captured_keys [OF c] by (simp add: radio_keys_append)
  then show ?thesis
    using a b c by (simp add: adv_round_def reg_read_def read_dma_byte_def adv_packet_keys cong: if_cong)
qed

lemma adv_loop_keys:
  assumes "adv_loop dev ch timeout response rlen address s h = Some y"
  shows "radio_keys (snd y) = radio_keys h"
  using assms
proof (rule adv_loop.raw_induct [rotated])
  fix loop dev ch timeout response rlen address s h y
  assume IH: "\<And>dev ch timeout response rlen address s h y. loop dev ch timeout response rlen address s h = Some y \<Longrightarrow>
      radio_keys (snd y) = radio_keys h"
    and body: "(let (now, h1) = clock dev h in
      if \<not> now < as_deadline s then Some (s, h1)
      else case adv_round dev ch timeout response rlen address s h1 of
        Adv_Continue s' h' \<Rightarrow> loop dev ch timeout response rlen address s' h'
      | Adv_Break s' h' \<Rightarrow> Some (s', h')) = Some y"
  let ?h1 = "h @ [ClockRead (dev_now dev h)]"
  show "radio_keys (snd y) = radio_keys h"
    using body adv_round_keys [of dev ch timeout response rlen address s ?h1]
    by (auto simp: clock_def control_bus_def dest: IH split: if_splits adv_control.splits)
qed

lemma adv_result_keys: "adv_result dev s h = (res, out', h') \<Longrightarrow> radio_keys h' = radio_keys h"
  by (auto simp: adv_result_def reg_read_def Let_def split: option.splits)

lemma advertising_exchange_keys:
  assumes "advertising_exchange dev r ch timeout tx response adva out h = Some (res, out', h')"
  shows "radio_keys h' = radio_keys h"
proof -
  obtain x h1 where s: "stage_transmit dev r ch tx h = (x, h1)" by (cases "stage_transmit dev r ch tx h")
  obtain y h2 where p: "stage_response dev response h1 = (y, h2)" by (cases "stage_response dev response h1")
  obtain z h3 where w: "wait_for_settle_countdown dev (adv_prepare dev h2) = (z, h3)" by (cases "wait_for_settle_countdown dev (adv_prepare dev h2)")
  have k1: "radio_keys h1 = radio_keys h" using stage_keys [OF s] .
  have k2: "radio_keys h2 = radio_keys h"
    using p k1 by (auto simp: stage_response_def split: if_splits)
  have k3: "radio_keys h3 = radio_keys h" using settle_keeps(2) [OF w] k2 by (simp add: radio_keys_iff) (simp add: radio_keys_iff [symmetric])
  have done_with: "radio_keys (snd (snd (adv_result dev s' h5))) = radio_keys h5" for s' h5
    using adv_result_keys by (metis prod.collapse)
  show ?thesis
    using assms s p w k1 k2 k3 done_with
    by (auto simp: advertising_exchange_def clock_def bind_eq_Some_conv Let_def dest!: adv_loop_keys split: sum.splits)
      (metis snd_conv)
qed

text \<open>Both exchanges return on every device whose clock runs, whatever they are given.\<close>

lemma advertising_exchange_total:
  assumes "clock_runs dev"
  shows "\<exists>res out' h'. advertising_exchange dev r ch timeout tx response adva out h = Some (res, out', h')"
proof -
  obtain N where N: "0 < N" "\<And>h. clock_reads h div N \<le> dev_now dev h" using assms unfolding clock_runs_def by blast
  have lp: "\<exists>s' h'. adv_loop dev ch timeout resp rlen address \<lparr>as_deadline = d, as_armed = False, as_responding = False,
      as_buffered_end = None, as_received = None, as_output = out\<rparr> h = Some (s', h')" for ch resp rlen address d h
    using adv_loop_ok [OF N, of "length out" address "\<lparr>as_deadline = d, as_armed = False, as_responding = False,
      as_buffered_end = None, as_received = None, as_output = out\<rparr>" h "last_write lle_tx_buffer h" ch timeout resp rlen]
    by (auto simp: adv_inv_def)
  have fin: "\<exists>res out' h'. Option.bind m (\<lambda>(s', h5). Some (adv_result dev s' h5)) = Some (res, out', h')"
    if "\<exists>s' h'. m = Some (s', h')" for m
    using that by (metis (no_types, lifting) bind.simps(2) case_prod_conv prod_cases3)
  show ?thesis
    unfolding advertising_exchange_def clock_def Let_def
    by (auto intro!: fin lp split: prod.split sum.split)
qed

lemma exchange_total:
  assumes "clock_runs dev"
  shows "\<exists>res out' h'. exchange dev r ch d t tx out h = Some (res, out', h')"
  using exchange_runs [OF assms, of out r tx ch d t h] by (cases "29 \<le> length out \<and> started r tx") (auto simp: exchange_eq)

section \<open>Initialization\<close>

lemma fe_key_registers [simp]:
  "\<not> key_register fe_control_04" "\<not> key_register fe_analog_enable_08" "\<not> key_register fe_reset_control_0c"
  "\<not> key_register fe_config_28" "\<not> key_register fe_config_2c" "\<not> key_register fe_config_38"
  "\<not> key_register fe_filter_50" "\<not> key_register fe_adc_58" "\<not> key_register fe_tune_co_90"
  "list_all (\<lambda>r. \<not> key_register r) fe_tune_table"
  by (simp_all add: key_register_def bb_tx_access_address_def bb_tx_crc_init_def fe_addresses fe_config_28_def fe_config_2c_def
      fe_config_38_def fe_tune_co_90_def BB_BASE_def)

lemma write_table_keys: "list_all (\<lambda>r. \<not> key_register r) rs \<Longrightarrow> radio_keys (write_table dev rs vs i h) = radio_keys h"
  by (induction dev rs vs i h rule: write_table.induct) (simp_all add: Let_def)

lemma poll_keys [simp]:
  "radio_keys (snd (tune_polls dev n h)) = radio_keys h" "radio_keys (filter_polls dev n h) = radio_keys h"
  by (simp_all add: radio_keys_def)

lemma measure_keys [simp]: "radio_keys (snd (measure_ctune dev tune h)) = radio_keys h"
proof -
  let ?h1 = "steps [reg_modify dev fe_control_04 (\<lambda>v. v AND NOT 0x01), reg_modify dev fe_config_38 (\<lambda>v. (v AND 0xfffe00ff) OR tune),
      reg_modify dev fe_control_04 (\<lambda>v. v OR 0x01)] h"
  obtain x h2 where w: "wait_tune dev ?h1 = (x, h2)" by (cases "wait_tune dev ?h1")
  have "radio_keys (snd (wait_tune dev ?h1)) = radio_keys ?h1" unfolding wait_tune_def by (simp only: poll_keys) simp
  then have "radio_keys h2 = radio_keys h" unfolding w by simp
  then show ?thesis using w by (cases x) (simp_all add: measure_ctune_def reg_read_def Let_def radio_keys_append)
qed

lemma and_try_keys:
  assumes "\<And>h. radio_keys (snd (m h)) = radio_keys h" "\<And>x h. radio_keys (snd (k x h)) = radio_keys h"
  shows "radio_keys (snd (and_try m k h)) = radio_keys h"
proof -
  obtain y h1 where m: "m h = (y, h1)" by (cases "m h")
  then show ?thesis using assms(1) [of h] assms(2) by (cases y) (simp_all add: and_try_def)
qed

lemma measurements_keys: "radio_keys (snd (measurements dev h)) = radio_keys h"
  unfolding measurements_def by (intro and_try_keys) simp_all

lemma tx_ctune_keys: "tx_ctune dev h = (x, h') \<Longrightarrow> radio_keys h' = radio_keys h"
proof -
  let ?h1 = "steps [reg_modify dev fe_control_04 (\<lambda>v. v AND NOT 0x100), reg_modify dev fe_config_28 (\<lambda>v. v AND NOT 0x1000),
      reg_modify dev fe_config_2c (\<lambda>v. v AND NOT 0x10), reg_modify dev fe_analog_enable_08 (\<lambda>v. v OR 0x00020000),
      reg_modify dev fe_control_04 (\<lambda>v. v OR 0x10)] h"
  obtain ms h2 where m: "measurements dev ?h1 = (ms, h2)" by (cases "measurements dev ?h1")
  have "radio_keys h2 = radio_keys h" using measurements_keys [of dev ?h1] m by simp
  then show "tx_ctune dev h = (x, h') \<Longrightarrow> radio_keys h' = radio_keys h"
    unfolding tx_ctune_def Let_def m prod.case
    by (auto simp: write_table_keys split: sum.splits prod.splits)
qed

lemma calibrate_keys: "calibrate dev h = (x, h') \<Longrightarrow> radio_keys h' = radio_keys h"
  by (auto simp: calibrate_def tx_ftune_def rx_filter_def rx_adc_def reg_read_def Let_def dest!: tx_ctune_keys split: prod.splits sum.splits)

lemma initialize_keys:
  assumes "initialize dev r h = (res, r', h')"
  shows "radio_keys h' = (Some (rd_access_address r), Some (rd_crc_init r AND 0x00ffffff))"
    and "rd_digital_initialized r'" "rd_frontend_calibrated r' \<longleftrightarrow> (\<exists>u. res = Inr u)"
proof -
  obtain r1 h2 where ib: "init_baseband dev r (initialize_baseline dev (init_lle dev h)) = (r1, h2)"
    by (cases "init_baseband dev r (initialize_baseline dev (init_lle dev h))")
  have k2: "radio_keys h2 = (Some (rd_access_address r), Some (rd_crc_init r AND 0x00ffffff))"
    using ib by (auto simp: init_baseband_def radio_set_access_address_def radio_set_crc_init_def Let_def radio_keys_def
        bb_tx_access_address_def bb_tx_crc_init_def)
  define h3 where "h3 = steps [reg_modify dev lle_mode (\<lambda>v. v AND NOT 0x700), reg_modify dev lle_command (\<lambda>v. v OR 0x08),
      reg_modify dev bb_config (\<lambda>v. v OR push_bit 7 1), reg_modify dev bb_config (\<lambda>v. (v AND NOT BB_MODE_MASK) OR BB_MODE_ACTIVE),
      reg_write lle_mode LLE_MODE_CALIBRATION] h2"
  obtain x h4 where c: "calibrate dev h3 = (x, h4)" by (cases "calibrate dev h3")
  define h5 where "h5 = steps [reg_modify dev bb_config (\<lambda>v. (v AND NOT BB_MODE_MASK) OR BB_MODE_IDLE),
      reg_write lle_status LLE_STATUS_TIMING, leave_calibration dev, reg_write lle_mode LLE_MODE_IDLE] h4"
  have "radio_keys h5 = radio_keys h4" unfolding h5_def by (simp add: leave_calibration_def)
  moreover have "radio_keys h3 = radio_keys h2" unfolding h3_def by simp
  ultimately have k5: "radio_keys h5 = radio_keys h2" using calibrate_keys [OF c] by simp
  note e = initialize_def [of dev r h, unfolded Let_def, simplified ib prod.case h3_def [symmetric] c h5_def [symmetric]]
  show "radio_keys h' = (Some (rd_access_address r), Some (rd_crc_init r AND 0x00ffffff))" "rd_digital_initialized r'"
    "rd_frontend_calibrated r' \<longleftrightarrow> (\<exists>u. res = Inr u)"
    using assms k5 k2 by (auto simp: e split: sum.splits)
qed

end
