(* ===== verification/Controller.thy ===== *)
theory Controller
  imports Link_Driver Link_Keys Radio_Keys
begin

text \<open>
  The whole controller: \<open>Runner\<close> of \<^verbatim>\<open>crates/ch58x-ble/src/link_layer.rs\<close> with the radio it owns. The operations of
  the runner are those of \<open>Runner\<close> and \<open>Link_Loop\<close> with the state of the radio threaded through every
  call, including the two setters that move the radio between the advertising and the data channels.
  A step of the controller is one wake-up of \<open>Runner::run\<close> or one turn of \<open>run_connection\<close>.
\<close>

section \<open>The radio as the runner uses it\<close>

record 's radio_ops =
  ro_exchange :: "'s exchange_drive"
  ro_advertise :: "'s \<Rightarrow> channel \<Rightarrow> bytes \<Rightarrow> bytes \<Rightarrow> bytes \<Rightarrow> (received_packet option \<times> 's) option"
  ro_set_access_address :: "u32 \<Rightarrow> 's \<Rightarrow> 's"
  ro_set_crc_init :: "u32 \<Rightarrow> 's \<Rightarrow> 's"

text \<open>The two setters, always called in this order.\<close>

definition rekey :: "'s radio_ops \<Rightarrow> u32 \<Rightarrow> u32 \<Rightarrow> 's \<Rightarrow> 's" where
  "rekey ops access_address crc_init s = ro_set_crc_init ops crc_init (ro_set_access_address ops access_address s)"

section \<open>Host packets\<close>

text \<open>The calls on the radio in the \<open>HCI_Reset\<close> arm of \<open>handle_command\<close>.\<close>

definition reset_radio :: "'s radio_ops \<Rightarrow> packet \<Rightarrow> 's \<Rightarrow> 's" where
  "reset_radio ops p s = (if packet_resets p then rekey ops ADV_ACCESS_ADDRESS ADV_CRC_INIT s else s)"

definition driven_host_packet ::
    "'s radio_ops \<Rightarrow> ('g \<Rightarrow> nat \<Rightarrow> bytes \<times> 'g) \<Rightarrow> packet \<Rightarrow> 'g runner \<Rightarrow> 's \<Rightarrow> ('g runner \<times> 's) option" where
  "driven_host_packet ops fill p r s = map_option (\<lambda>r'. (r', reset_radio ops p s)) (handle_host_packet fill r p)"

definition driven_connected_packet ::
    "'s radio_ops \<Rightarrow> ('g \<Rightarrow> nat \<Rightarrow> bytes \<times> 'g) \<Rightarrow> packet \<Rightarrow> 'g runner \<Rightarrow> active_connection \<Rightarrow> 's
     \<Rightarrow> ((bool \<times> 'g runner \<times> active_connection) \<times> 's) option" where
  "driven_connected_packet ops fill p r c s =
     map_option (\<lambda>res. (res, reset_radio ops p s)) (process_connected_host_packet fill r c p)"

fun driven_drain ::
    "'s radio_ops \<Rightarrow> ('g \<Rightarrow> nat \<Rightarrow> bytes \<times> 'g) \<Rightarrow> packet list \<Rightarrow> 'g runner \<Rightarrow> active_connection \<Rightarrow> 's
     \<Rightarrow> ((bool \<times> 'g runner \<times> active_connection) \<times> 's) option" where
  "driven_drain ops fill [] r c s = Some ((False, r, c), s)"
| "driven_drain ops fill (p # ps) r c s =
     (case driven_connected_packet ops fill p r c s of None \<Rightarrow> None
      | Some ((True, r', c'), s') \<Rightarrow> Some ((True, r', c'), s')
      | Some ((False, r', c'), s') \<Rightarrow> driven_drain ops fill ps r' c' s')"

section \<open>Connection turns\<close>

definition driven_timer_turn ::
    "'s radio_ops \<Rightarrow> (nat \<Rightarrow> nat) \<Rightarrow> nat \<Rightarrow> 'g runner \<Rightarrow> active_connection \<Rightarrow> 's
     \<Rightarrow> ((turn \<times> 'g runner \<times> active_connection) \<times> 's) option" where
  "driven_timer_turn ops clk now r c s =
     (case skip_and_notify clk now r c of None \<Rightarrow> None
      | Some (Inl reason) \<Rightarrow> Some ((Ended reason, r, c), s)
      | Some (Inr (n, r1, c1)) \<Rightarrow>
          if n \<noteq> 0 then Some ((Again, r1, c1), s)
          else (case driven_event (ro_exchange ops) s clk c1 (rn_link r1) of None \<Rightarrow> None
                | Some ((Some reason, c2, h), s') \<Rightarrow> Some ((Ended reason, r1\<lparr>rn_link := h\<rparr>, c2), s')
                | Some ((None, c2, h), s') \<Rightarrow> Some ((Again, r1\<lparr>rn_link := h\<rparr>, schedule_following_event c2), s')))"

definition driven_turn ::
    "'s radio_ops \<Rightarrow> ('g \<Rightarrow> nat \<Rightarrow> bytes \<times> 'g) \<Rightarrow> (nat \<Rightarrow> nat) \<Rightarrow> nat \<Rightarrow> nat \<Rightarrow> packet list \<Rightarrow> packet option
     \<Rightarrow> 'g runner \<Rightarrow> active_connection \<Rightarrow> 's \<Rightarrow> ((turn \<times> 'g runner \<times> active_connection) \<times> 's) option" where
  "driven_turn ops fill clk now later drained wake r c s =
     (case driven_drain ops fill drained r c s of None \<Rightarrow> None
      | Some ((True, r1, c1), s1) \<Rightarrow> Some ((Ended 0x16, r1, c1), s1)
      | Some ((False, r1, c1), s1) \<Rightarrow>
        (let (expired, m) = check_timeouts (ac_procedures c1) (word_of_nat now) 0x22;
             c2 = c1\<lparr>ac_procedures := m\<rparr>
         in if expired then Some ((Ended 0x22, r1, c2), s1)
            else if now \<ge> ac_supervision_deadline c2 then Some ((Ended 0x08, r1, c2), s1)
            else (case skip_and_notify clk now r1 c2 of None \<Rightarrow> None
                  | Some (Inl reason) \<Rightarrow> Some ((Ended reason, r1, c2), s1)
                  | Some (Inr (n, r3, c3)) \<Rightarrow>
                      if n \<noteq> 0 then Some ((Again, r3, c3), s1)
                      else (case scheduler_open c3 of None \<Rightarrow> None
                            | Some _ \<Rightarrow> (case wake of
                                Some p \<Rightarrow> (case driven_connected_packet ops fill p r3 c3 s1 of None \<Rightarrow> None
                                   | Some ((stop, r4, c4), s4) \<Rightarrow> Some ((if stop then Ended 0x16 else Again, r4, c4), s4))
                              | None \<Rightarrow> driven_timer_turn ops clk later r3 c3 s1)))))"

section \<open>Advertising\<close>

fun driven_channels ::
    "'s radio_ops \<Rightarrow> nat \<Rightarrow> 'g runner \<Rightarrow> (channel \<times> bool) list \<Rightarrow> 's
     \<Rightarrow> (('g runner \<times> active_connection option) \<times> 's) option" where
  "driven_channels ops now r [] s = Some ((r, None), s)"
| "driven_channels ops now r ((ch, used) # rest) s =
     (if \<not> used \<or> \<not> av_enabled (rn_advertiser r) then driven_channels ops now r rest s
      else (let a = rn_advertiser r in
        case (build_adv_ind (av_address a) (av_data a) (replicate MAX_LEGACY_ADV_PDU_LEN 0),
              build_scan_rsp (av_address a) (av_scan_response a) (replicate MAX_LEGACY_ADV_PDU_LEN 0)) of
          (Inr pdu, Inr scan_response) \<Rightarrow>
            (case ro_advertise ops s ch pdu scan_response (da_bytes (av_address a)) of None \<Rightarrow> None
             | Some (None, s') \<Rightarrow> driven_channels ops now r rest s'
             | Some (Some received, s') \<Rightarrow>
                 if is_scan_request (payload received) (av_address a) then driven_channels ops now r rest s'
                 else if (case payload received of [] \<Rightarrow> False | header # _ \<Rightarrow> header AND 0x0f = 0x05) then
                   (if \<not> crc_ok received then driven_channels ops now r rest s'
                    else (case parse_connect_ind_detailed (payload received) (av_address a) of
                            Inl _ \<Rightarrow> driven_channels ops now r rest s'
                          | Inr request \<Rightarrow>
                              (case active_connection_new now request (timestamp_us received) of
                                 Inl _ \<Rightarrow> Some ((r, None), s')
                               | Inr c \<Rightarrow>
                                   Some (((set_crc_init (ci_crc_init (ac_request c))
                                       (set_access_address (ci_access_address (ac_request c)) r))
                                      \<lparr>rn_advertiser := a\<lparr>av_enabled := False\<rparr>, rn_connected := True,
                                       rn_link := emit_connection_complete c (rn_link r)\<rparr>, Some c),
                                     rekey ops (ci_access_address (ac_request c)) (ci_crc_init (ac_request c)) s'))))
                 else driven_channels ops now r rest s')
        | _ \<Rightarrow> Some ((r, None), s)))"

definition driven_advertising_event ::
    "'s radio_ops \<Rightarrow> nat \<Rightarrow> 'g runner \<Rightarrow> 's \<Rightarrow> (('g runner \<times> active_connection option) \<times> 's) option" where
  "driven_advertising_event ops now r s =
     driven_channels ops now r
       [(ADV_37, av_channels (rn_advertiser r) ! 0), (ADV_38, av_channels (rn_advertiser r) ! 1),
        (ADV_39, av_channels (rn_advertiser r) ! 2)] s"

section \<open>The controller\<close>

record ('g, 's) controller =
  ct_runner :: "'g runner"
  ct_radio :: 's
  ct_link :: "active_connection option"

text \<open>What the controller waits for: a Host packet, the advertising interval (with the time of the event),
  or the next turn of a connection (the clock, its readings in the loop, the packets drained and the wake-up).\<close>

datatype controller_input =
    Host_Packet packet
  | Advertising_Interval nat
  | Link_Turn "nat \<Rightarrow> nat" nat nat "packet list" "packet option"

fun expects :: "('g, 's) controller \<Rightarrow> controller_input \<Rightarrow> bool" where
  "expects st (Host_Packet p) \<longleftrightarrow> ct_link st = None \<and> packet_wf p"
| "expects st (Advertising_Interval now) \<longleftrightarrow> ct_link st = None \<and> av_enabled (rn_advertiser (ct_runner st))"
| "expects st (Link_Turn clk now later drained wake) \<longleftrightarrow>
     ct_link st \<noteq> None \<and> list_all packet_wf drained \<and> pred_option packet_wf wake"

fun controller_turn ::
    "'s radio_ops \<Rightarrow> ('g \<Rightarrow> nat \<Rightarrow> bytes \<times> 'g) \<Rightarrow> controller_input \<Rightarrow> ('g, 's) controller \<Rightarrow> ('g, 's) controller option" where
  "controller_turn ops fill (Host_Packet p) st =
     (case driven_host_packet ops fill p (ct_runner st) (ct_radio st) of None \<Rightarrow> None
      | Some (r', s') \<Rightarrow> Some (st\<lparr>ct_runner := r', ct_radio := s'\<rparr>))"
| "controller_turn ops fill (Advertising_Interval now) st =
     (case driven_advertising_event ops now (ct_runner st) (ct_radio st) of None \<Rightarrow> None
      | Some ((r', link), s') \<Rightarrow> Some (st\<lparr>ct_runner := r', ct_radio := s', ct_link := link\<rparr>))"
| "controller_turn ops fill (Link_Turn clk now later drained wake) st =
     (case ct_link st of None \<Rightarrow> Some st
      | Some c \<Rightarrow>
          (case driven_turn ops fill clk now later drained wake (ct_runner st) c (ct_radio st) of None \<Rightarrow> None
           | Some ((Ended reason, r', c'), s') \<Rightarrow>
               Some (st\<lparr>ct_runner := end_connection r' c' reason, ct_radio := rekey ops ADV_ACCESS_ADDRESS ADV_CRC_INIT s',
                        ct_link := None\<rparr>)
           | Some ((Again, r', c'), s') \<Rightarrow> Some (st\<lparr>ct_runner := r', ct_radio := s', ct_link := Some c'\<rparr>)))"

inductive controller_reachable ::
    "'s radio_ops \<Rightarrow> ('g \<Rightarrow> nat \<Rightarrow> bytes \<times> 'g) \<Rightarrow> ('g, 's) controller \<Rightarrow> ('g, 's) controller \<Rightarrow> bool"
  for ops fill st0 where
  reach_start: "controller_reachable ops fill st0 st0"
| reach_turn: "controller_reachable ops fill st0 st \<Longrightarrow> expects st i \<Longrightarrow> controller_turn ops fill i st = Some st' \<Longrightarrow>
    controller_reachable ops fill st0 st'"

section \<open>The controller on the register-level radio\<close>

text \<open>The call in \<open>advertising_event\<close>: a window of 500 microseconds and a zeroed receive buffer.\<close>

definition radio_advertise :: "driver \<Rightarrow> channel \<Rightarrow> bytes \<Rightarrow> bytes \<Rightarrow> bytes \<Rightarrow> (received_packet option \<times> driver) option" where
  "radio_advertise s ch pdu scan_response address =
     (case s of (dev, r, b) \<Rightarrow>
        map_option (\<lambda>(res, out, b'). (case res of Inl _ \<Rightarrow> None | Inr p \<Rightarrow> Some p, (dev, r, b')))
          (advertising_exchange dev r ch 500 pdu scan_response address (replicate MAX_LEGACY_ADV_PDU_LEN 0) b))"

definition driver_set_access_address :: "u32 \<Rightarrow> driver \<Rightarrow> driver" where
  "driver_set_access_address a s = (case s of (dev, r, b) \<Rightarrow> (dev, radio_set_access_address a r b))"

definition driver_set_crc_init :: "u32 \<Rightarrow> driver \<Rightarrow> driver" where
  "driver_set_crc_init v s = (case s of (dev, r, b) \<Rightarrow> (dev, radio_set_crc_init v r b))"

definition radio_operations :: "driver radio_ops" where
  "radio_operations = \<lparr>ro_exchange = radio_drive, ro_advertise = radio_advertise,
     ro_set_access_address = driver_set_access_address, ro_set_crc_init = driver_set_crc_init\<rparr>"

text \<open>\<open>Runner::new\<close> with the radio it initializes.\<close>

definition controller_new :: "radio_device \<Rightarrow> 'g \<Rightarrow> radio_bus \<Rightarrow> radio_error + ('g, driver) controller" where
  "controller_new dev random b =
     (let (r, b1) = radio_new b in
      case initialize dev r b1 of (Inl e, _, _) \<Rightarrow> Inl e
      | (Inr _, r', b2) \<Rightarrow> Inr \<lparr>ct_runner = runner_new random, ct_radio = (dev, r', b2), ct_link = None\<rparr>)"

text \<open>The public \<open>is_connected\<close>, a load of \<open>LINK_CONNECTED\<close>.\<close>

definition is_connected :: "'g runner \<Rightarrow> bool" where
  "is_connected r = rn_connected r"

section \<open>Refinement\<close>

text \<open>
  \<open>follows\<close> relates an operation with the radio threaded through to the same operation of the runner on a
  radio given by its results: both panic, or both return the same value and the radio is ready again, its
  keys unchanged after the results in \<open>quietly\<close>.
\<close>

definition follows :: "('s \<Rightarrow> bool) \<Rightarrow> ('s \<Rightarrow> 'k) \<Rightarrow> ('a \<Rightarrow> bool) \<Rightarrow> 's \<Rightarrow> ('a \<times> 's) option \<Rightarrow> 'a option \<Rightarrow> bool" where
  "follows ready keys quietly s m spec \<longleftrightarrow>
     (case m of None \<Rightarrow> spec = None | Some (x, s') \<Rightarrow> spec = Some x \<and> ready s' \<and> (quietly x \<longrightarrow> keys s' = keys s))"

lemma follows_simps [simp]:
  "follows ready keys q s None spec \<longleftrightarrow> spec = None"
  "follows ready keys q s (Some (x, s')) spec \<longleftrightarrow> spec = Some x \<and> ready s' \<and> (q x \<longrightarrow> keys s' = keys s)"
  by (simp_all add: follows_def)

text \<open>The result of the exchange in the present state of the radio.\<close>

definition exchange_result_of :: "'s radio_ops \<Rightarrow> 's \<Rightarrow> radio_exchange" where
  "exchange_result_of ops s ch d t f = (case ro_exchange ops s ch d t f of Some (x, _) \<Rightarrow> x | None \<Rightarrow> None)"

lemma advertising_channels_cong:
  "(\<And>ch. ch \<in> fst ` set chs \<Longrightarrow> radio ch = radio' ch) \<Longrightarrow> advertising_channels radio now r chs = advertising_channels radio' now r chs"
proof (induction chs)
  case (Cons x rest)
  obtain ch used where x: "x = (ch, used)" by (cases x)
  have "advertising_channels radio now r rest = advertising_channels radio' now r rest" "radio ch = radio' ch"
    using Cons x by auto
  then show ?case unfolding x advertising_channels.simps by (simp only:)
qed simp

definition runner_keys :: "'g runner \<Rightarrow> u32 option \<times> u32 option" where
  "runner_keys r = (Some (rn_access_address r), Some (rn_crc_init r))"

text \<open>
  The invariant: the radio is ready, its keys are the runner's; without a link they are those of the
  advertising channels and the link flag is down, with one they are the link's own, the flag is up,
  advertising is off and the connection satisfies the invariant of \<open>Link_Loop\<close>.
\<close>

definition controller_inv :: "('s \<Rightarrow> bool) \<Rightarrow> ('s \<Rightarrow> u32 option \<times> u32 option) \<Rightarrow> ('g, 's) controller \<Rightarrow> bool" where
  "controller_inv ready keys st \<longleftrightarrow> ready (ct_radio st) \<and> keys (ct_radio st) = runner_keys (ct_runner st)
     \<and> (case ct_link st of
          None \<Rightarrow> \<not> rn_connected (ct_runner st) \<and> runner_keys (ct_runner st) = (Some ADV_ACCESS_ADDRESS, Some ADV_CRC_INIT)
        | Some c \<Rightarrow> rn_connected (ct_runner st) \<and> \<not> av_enabled (rn_advertiser (ct_runner st)) \<and> turn_inv c
            \<and> (rn_access_address (ct_runner st), rn_crc_init (ct_runner st)) = air_keys c)"

lemma host_packet_total: "fills fill \<Longrightarrow> \<exists>r'. handle_host_packet fill r p = Some r'"
  using handle_command_replies [of fill r "take (pk_len p) (pk_bytes p)"] handle_command_malformed [of "take (pk_len p) (pk_bytes p)" fill r]
  by (cases "command_wf (take (pk_len p) (pk_bytes p))") (auto simp: handle_host_packet_def fills_def split: packet_kind.split)

text \<open>The same for advertising: the keys of the radio are those of the runner it ends with.\<close>

definition adv_follows ::
    "('s \<Rightarrow> bool) \<Rightarrow> ('s \<Rightarrow> u32 option \<times> u32 option) \<Rightarrow> (('g runner \<times> active_connection option) \<times> 's) option
     \<Rightarrow> 'g runner \<times> active_connection option \<Rightarrow> bool" where
  "adv_follows ready keys m spec \<longleftrightarrow> (\<exists>s'. m = Some (spec, s') \<and> ready s' \<and> keys s' = runner_keys (fst spec))"

section \<open>The contract of the radio\<close>

locale controller_radio =
  fixes ops :: "'s radio_ops"
    and ready :: "'s \<Rightarrow> bool"
    and keys :: "'s \<Rightarrow> u32 option \<times> u32 option"
  assumes exchange_returns: "ready s \<Longrightarrow> \<exists>x s'. ro_exchange ops s ch d t f = Some (x, s') \<and> ready s' \<and> keys s' = keys s"
    and advertise_returns: "ready s \<Longrightarrow> \<exists>x s'. ro_advertise ops s ch pdu response address = Some (x, s') \<and> ready s' \<and> keys s' = keys s"
    and access_address_set: "ready s \<Longrightarrow> ready (ro_set_access_address ops a s) \<and> keys (ro_set_access_address ops a s) = (Some a, snd (keys s))"
    and crc_init_set: "ready s \<Longrightarrow> ready (ro_set_crc_init ops v s)
      \<and> keys (ro_set_crc_init ops v s) = (fst (keys s), Some (v AND 0x00ffffff))"
begin

lemma rekey_ok: "ready s \<Longrightarrow> ready (rekey ops a v s) \<and> keys (rekey ops a v s) = (Some a, Some (v AND 0x00ffffff))"
  by (simp add: rekey_def access_address_set crc_init_set)

lemma reset_radio_ok:
  "ready s \<Longrightarrow> ready (reset_radio ops p s)
   \<and> keys (reset_radio ops p s) = (if packet_resets p then (Some ADV_ACCESS_ADDRESS, Some ADV_CRC_INIT) else keys s)"
  by (simp add: reset_radio_def rekey_ok ADV_CRC_INIT_def)

lemma driven_event_follows:
  assumes "ready s"
  shows "follows ready keys (\<lambda>_. True) s (driven_event (ro_exchange ops) s clk c h) (connection_event (exchange_result_of ops s) clk c h)"
proof (cases "stage_event clk c h")
  case None
  then show ?thesis by (simp add: driven_event_def connection_event_def)
next
  case (Some y)
  show ?thesis
  proof (cases y)
    case (Inl early)
    then show ?thesis using Some assms by (simp add: driven_event_def connection_event_def)
  next
    case (Inr z)
    obtain ch d t c1 h1 where z: "z = (ch, d, t, c1, h1)" by (cases z)
    let ?f = "take (ac_tx_frame_len c1) (ac_tx_frame c1)"
    obtain x s' where x: "ro_exchange ops s ch d t ?f = Some (x, s')" "ready s'" "keys s' = keys s"
      using exchange_returns [OF assms] by blast
    then have o: "exchange_result_of ops s ch d t ?f = x" by (simp add: exchange_result_of_def)
    show ?thesis
    proof (cases "case x of None \<Rightarrow> Some (None, c1, h1) | Some ex \<Rightarrow> after_exchange clk c1 h1 (\<not> ac_tx_frame_fresh c1) ex")
      case None
      then show ?thesis unfolding driven_event_def connection_event_def Some Inr z using x o by simp
    next
      case res: (Some w)
      then show ?thesis unfolding driven_event_def connection_event_def Some Inr z using x o by simp
    qed
  qed
qed

lemma connected_packet_follows:
  assumes "ready s" "fills fill"
  shows "follows ready keys (\<lambda>(stop, _). \<not> stop) s (driven_connected_packet ops fill p r c s) (process_connected_host_packet fill r c p)"
proof (cases "process_connected_host_packet fill r c p")
  case None
  then show ?thesis by (simp add: driven_connected_packet_def)
next
  case (Some y)
  obtain stop r' c' where y: "y = (stop, r', c')" by (cases y)
  then show ?thesis using Some connected_packet_air [of fill r c p stop r' c'] assms reset_radio_ok [OF assms(1), of p]
    by (simp add: driven_connected_packet_def)
qed

lemma drain_follows:
  "ready s \<Longrightarrow> fills fill \<Longrightarrow>
   follows ready keys (\<lambda>(stop, _). \<not> stop) s (driven_drain ops fill ps r c s) (drain_host_packets fill r c ps)"
proof (induction ps arbitrary: r c s)
  case (Cons p ps)
  note f = connected_packet_follows [OF Cons.prems, of p r c]
  show ?case
  proof (cases "driven_connected_packet ops fill p r c s")
    case None
    then show ?thesis using f by simp
  next
    case (Some y)
    obtain stop r' c' s' where y: "y = ((stop, r', c'), s')" by (metis surj_pair)
    then have p: "process_connected_host_packet fill r c p = Some (stop, r', c')" "ready s'" "\<not> stop \<longrightarrow> keys s' = keys s"
      using f Some by auto
    show ?thesis
    proof (cases stop)
      case True
      then show ?thesis using Some y p by simp
    next
      case False
      then show ?thesis using Some y p Cons.IH [OF p(2) Cons.prems(2), of r' c'] by (auto simp: follows_def split: option.splits)
    qed
  qed
qed simp

lemma timer_turn_follows:
  assumes "ready s"
  shows "follows ready keys (\<lambda>(t, _). t = Again) s (driven_timer_turn ops clk now r c s) (timer_turn (exchange_result_of ops s) clk now r c)"
proof -
  note f = driven_event_follows [OF assms]
  have "follows ready keys (\<lambda>(t, _). t = Again) s
      (case driven_event (ro_exchange ops) s clk c1 (rn_link r1) of None \<Rightarrow> None
       | Some ((Some reason, c2, h), s') \<Rightarrow> Some ((Ended reason, r1\<lparr>rn_link := h\<rparr>, c2), s')
       | Some ((None, c2, h), s') \<Rightarrow> Some ((Again, r1\<lparr>rn_link := h\<rparr>, schedule_following_event c2), s'))
      (case connection_event (exchange_result_of ops s) clk c1 (rn_link r1) of None \<Rightarrow> None
       | Some (Some reason, c2, h) \<Rightarrow> Some (Ended reason, r1\<lparr>rn_link := h\<rparr>, c2)
       | Some (None, c2, h) \<Rightarrow> Some (Again, r1\<lparr>rn_link := h\<rparr>, schedule_following_event c2))" for r1 :: "'a runner" and c1
    using f [of clk c1 "rn_link r1"] by (auto simp: follows_def split: option.splits prod.splits)
  then show ?thesis using assms
    by (auto simp: driven_timer_turn_def timer_turn_def split: option.split sum.split)
qed

lemma turn_follows:
  assumes "ready s" "fills fill"
  shows "\<exists>s1. follows ready keys (\<lambda>(t, _). t = Again) s (driven_turn ops fill clk now later drained wake r c s)
    (run_connection_turn fill (exchange_result_of ops s1) clk now later drained wake r c)"
proof -
  note d = drain_follows [OF assms, of drained r c]
  show ?thesis
  proof (cases "driven_drain ops fill drained r c s")
    case None
    then show ?thesis using d by (simp add: driven_turn_def run_connection_turn_def)
  next
    case (Some y)
    obtain stop r1 c1 s1 where y: "y = ((stop, r1, c1), s1)" by (metis surj_pair)
    then have p: "drain_host_packets fill r c drained = Some (stop, r1, c1)" "ready s1" "\<not> stop \<longrightarrow> keys s1 = keys s"
      using d Some by auto
    have w: "follows ready keys (\<lambda>(t, _). t = Again) s
        (case driven_connected_packet ops fill p' r3 c3 s1 of None \<Rightarrow> None
         | Some ((stop, r4, c4), s4) \<Rightarrow> Some ((if stop then Ended 0x16 else Again, r4, c4), s4))
        (case process_connected_host_packet fill r3 c3 p' of None \<Rightarrow> None
         | Some (stop, r4, c4) \<Rightarrow> Some (if stop then Ended 0x16 else Again, r4, c4))" if "\<not> stop" for p' r3 c3
      using connected_packet_follows [OF p(2) assms(2), of p' r3 c3] p(3) that by (auto simp: follows_def split: option.splits prod.splits)
    have t: "follows ready keys (\<lambda>(t, _). t = Again) s (driven_timer_turn ops clk later r3 c3 s1)
        (timer_turn (exchange_result_of ops s1) clk later r3 c3)" if "\<not> stop" for r3 :: "'a runner" and c3
      using timer_turn_follows [OF p(2), of clk later r3 c3] p(3) that by (auto simp: follows_def split: option.splits prod.splits)
    have "follows ready keys (\<lambda>(t, _). t = Again) s (driven_turn ops fill clk now later drained wake r c s)
      (run_connection_turn fill (exchange_result_of ops s1) clk now later drained wake r c)"
      unfolding driven_turn_def run_connection_turn_def Some y p(1) option.case prod.case
      using p(2,3) w t
      by (cases stop) (simp_all add: Let_def split: option.split sum.split prod.split)
    then show ?thesis ..
  qed
qed

lemma used_channel_follows:
  assumes "used" "av_enabled (rn_advertiser r)"
    and build: "build_adv_ind (av_address (rn_advertiser r)) (av_data (rn_advertiser r)) (replicate MAX_LEGACY_ADV_PDU_LEN 0) = Inr pdu"
      "build_scan_rsp (av_address (rn_advertiser r)) (av_scan_response (rn_advertiser r)) (replicate MAX_LEGACY_ADV_PDU_LEN 0) = Inr sr"
    and rx: "ro_advertise ops s ch pdu sr (da_bytes (av_address (rn_advertiser r))) = Some (rx, s1)" "ready s1" "keys s1 = runner_keys r"
    and radio: "radio ch pdu sr (da_bytes (av_address (rn_advertiser r))) = rx"
    and rest: "adv_follows ready keys (driven_channels ops now r rest s1) (advertising_channels radio now r rest)"
  shows "adv_follows ready keys (driven_channels ops now r ((ch, used) # rest) s) (advertising_channels radio now r ((ch, used) # rest))"
proof -
  let ?a = "rn_advertiser r"
  note base = assms(1,2) build rx(1) radio
  have stay: "adv_follows ready keys (Some ((r, None), s1)) (r, None)" using rx by (simp add: adv_follows_def)
  have new: "adv_follows ready keys (Some (((set_crc_init (ci_crc_init q) (set_access_address (ci_access_address q) r))
        \<lparr>rn_advertiser := v, rn_connected := True, rn_link := h\<rparr>, Some c), rekey ops (ci_access_address q) (ci_crc_init q) s1))
      ((set_crc_init (ci_crc_init q) (set_access_address (ci_access_address q) r))
        \<lparr>rn_advertiser := v, rn_connected := True, rn_link := h\<rparr>, Some c)" for q :: connect_ind and v h c
    using rekey_ok [OF rx(2)] by (simp add: adv_follows_def runner_keys_def set_crc_init_def set_access_address_def)
  show ?thesis
  proof (cases rx)
    case None
    then show ?thesis using base rest by simp
  next
    case (Some p)
    show ?thesis
    proof (cases "parse_connect_ind_detailed (payload p) (av_address ?a)")
      case (Inl e)
      then show ?thesis using base rest Some by (simp add: Let_def split: list.split)
    next
      case (Inr cq)
      then show ?thesis using base rest Some stay new
        by (cases "active_connection_new now cq (timestamp_us p)") (simp_all add: Let_def split: list.split)
    qed
  qed
qed

lemma channels_follow:
  "ready s \<Longrightarrow> keys s = runner_keys r \<Longrightarrow> distinct (map fst chs) \<Longrightarrow>
   \<exists>radio. adv_follows ready keys (driven_channels ops now r chs s) (advertising_channels radio now r chs)"
proof (induction chs arbitrary: s)
  case (Cons x rest)
  obtain ch used where x: "x = (ch, used)" by (cases x)
  have fresh: "ch \<notin> fst ` set rest" "distinct (map fst rest)" using Cons.prems(3) x by auto
  let ?a = "rn_advertiser r"
  show ?case
  proof (cases "used \<and> av_enabled ?a")
    case False
    then show ?thesis using Cons.IH [OF Cons.prems(1,2) fresh(2)] x by simp
  next
    case True
    obtain pdu sr where b: "build_adv_ind (av_address ?a) (av_data ?a) (replicate MAX_LEGACY_ADV_PDU_LEN 0) = Inr pdu"
        "build_scan_rsp (av_address ?a) (av_scan_response ?a) (replicate MAX_LEGACY_ADV_PDU_LEN 0) = Inr sr"
      by (simp add: build_adv_ind_def build_scan_rsp_def Let_def)
    obtain rx s1 where rx: "ro_advertise ops s ch pdu sr (da_bytes (av_address ?a)) = Some (rx, s1)" "ready s1" "keys s1 = runner_keys r"
      using advertise_returns [OF Cons.prems(1)] Cons.prems(2) by metis
    obtain radio where ih: "adv_follows ready keys (driven_channels ops now r rest s1) (advertising_channels radio now r rest)"
      using Cons.IH [OF rx(2,3) fresh(2)] by blast
    define radio' where "radio' = radio(ch := \<lambda>_ _ _. rx)"
    have "radio' ch' = radio ch'" if "ch' \<in> fst ` set rest" for ch' using that fresh(1) by (auto simp: radio'_def)
    then have "advertising_channels radio' now r rest = advertising_channels radio now r rest" by (rule advertising_channels_cong)
    then have rest: "adv_follows ready keys (driven_channels ops now r rest s1) (advertising_channels radio' now r rest)" using ih by simp
    have rx': "radio' ch pdu sr (da_bytes (av_address ?a)) = rx" by (simp add: radio'_def)
    show ?thesis unfolding x using used_channel_follows [OF _ _ b rx rx' rest] True by blast
  qed
qed (simp add: adv_follows_def)

lemma host_turn_ok:
  assumes "controller_inv ready keys st" "fills fill" "expects st (Host_Packet p)"
  shows "\<exists>st'. controller_turn ops fill (Host_Packet p) st = Some st' \<and> controller_inv ready keys st'"
proof -
  obtain r' where r': "handle_host_packet fill (ct_runner st) p = Some r'" using host_packet_total [OF assms(2)] by blast
  then show ?thesis
    using host_packet_air [OF r'] assms(1,3) reset_radio_ok [of "ct_radio st" p]
    by (cases "packet_resets p") (auto simp: driven_host_packet_def controller_inv_def air_step_def runner_keys_def)
qed

lemma advertising_turn_ok:
  assumes "controller_inv ready keys st" "expects st (Advertising_Interval now)"
  shows "\<exists>st'. controller_turn ops fill (Advertising_Interval now) st = Some st' \<and> controller_inv ready keys st'"
proof -
  let ?r = "ct_runner st"
  let ?chs = "[(ADV_37, av_channels (rn_advertiser ?r) ! 0), (ADV_38, av_channels (rn_advertiser ?r) ! 1), (ADV_39, av_channels (rn_advertiser ?r) ! 2)]"
  have i: "ready (ct_radio st)" "keys (ct_radio st) = runner_keys ?r" "\<not> rn_connected ?r"
      "runner_keys ?r = (Some ADV_ACCESS_ADDRESS, Some ADV_CRC_INIT)" "ct_link st = None"
    using assms by (auto simp: controller_inv_def)
  have "distinct (map fst ?chs)" by (simp add: ADV_37_def ADV_38_def ADV_39_def)
  then obtain radio r' link s' where a: "driven_channels ops now ?r ?chs (ct_radio st) = Some ((r', link), s')"
      "advertising_channels radio now ?r ?chs = (r', link)" "ready s'" "keys s' = runner_keys r'"
    using channels_follow [OF i(1,2), of ?chs now] unfolding adv_follows_def by (metis fst_conv surj_pair)
  have "case (r', link) of (r', None) \<Rightarrow> r' = ?r | (r', Some c) \<Rightarrow> \<exists>ch. (ch, True) \<in> set ?chs \<and> connects radio now ?r ch r' c"
    using advertising_channels_ok [where radio = radio and now = now and r = ?r and chs = ?chs] unfolding a(2) .
  then have "controller_inv ready keys (st\<lparr>ct_runner := r', ct_radio := s', ct_link := link\<rparr>)"
    using a(3,4) i new_request turn_inv_new
    by (cases link) (auto simp: controller_inv_def connects_def air_keys_def)
  then show ?thesis using a(1) by (simp add: driven_advertising_event_def)
qed

lemma link_turn_ok:
  assumes "controller_inv ready keys st" "fills fill" "expects st (Link_Turn clk now later drained wake)"
  shows "\<exists>st'. controller_turn ops fill (Link_Turn clk now later drained wake) st = Some st' \<and> controller_inv ready keys st'"
proof -
  let ?r = "ct_runner st"
  obtain c where c: "ct_link st = Some c" using assms(3) by auto
  then have i: "ready (ct_radio st)" "keys (ct_radio st) = runner_keys ?r" "turn_inv c" "rn_connected ?r"
      "\<not> av_enabled (rn_advertiser ?r)" "(rn_access_address ?r, rn_crc_init ?r) = air_keys c"
    using assms(1) by (auto simp: controller_inv_def)
  have wf: "list_all packet_wf drained" "pred_option packet_wf wake" using assms(3) by simp_all
  obtain s1 where f: "follows ready keys (\<lambda>(t, _). t = Again) (ct_radio st) (driven_turn ops fill clk now later drained wake ?r c (ct_radio st))
      (run_connection_turn fill (exchange_result_of ops s1) clk now later drained wake ?r c)"
    using turn_follows [OF i(1) assms(2)] by blast
  obtain t r' c' where t: "run_connection_turn fill (exchange_result_of ops s1) clk now later drained wake ?r c = Some (t, r', c')"
      "t = Again \<longrightarrow> turn_inv c'"
    using run_connection_turn_ok [OF i(3) wf assms(2)] by blast
  then obtain s' where d: "driven_turn ops fill clk now later drained wake ?r c (ct_radio st) = Some ((t, r', c'), s')"
      "ready s'" "t = Again \<longrightarrow> keys s' = keys (ct_radio st)"
    using f by (auto simp: follows_def split: option.splits)
  show ?thesis
  proof (cases t)
    case (Ended reason)
    then show ?thesis
      using c d rekey_ok [OF d(2), of ADV_ACCESS_ADDRESS ADV_CRC_INIT] end_connection_fields [of r' c' reason]
      by (simp add: controller_inv_def runner_keys_def ADV_CRC_INIT_def)
  next
    case Again
    then show ?thesis using c d t turn_air [of fill "exchange_result_of ops s1" clk now later drained wake ?r c r' c'] assms(2) i(1-5) i(6) [symmetric]
      by (simp add: controller_inv_def runner_keys_def air_step_def)
  qed
qed

lemma controller_turn_ok:
  assumes "controller_inv ready keys st" "fills fill" "expects st i"
  shows "\<exists>st'. controller_turn ops fill i st = Some st' \<and> controller_inv ready keys st'"
  using assms host_turn_ok advertising_turn_ok link_turn_ok by (cases i) blast+

lemma reachable_inv:
  assumes "controller_reachable ops fill st0 st" "controller_inv ready keys st0" "fills fill"
  shows "controller_inv ready keys st"
  using assms(1)
proof (induction rule: controller_reachable.induct)
  case (reach_turn st i st')
  then show ?case using controller_turn_ok [OF reach_turn.IH assms(3) reach_turn.hyps(2)] by auto
qed (rule assms(2))

end

section \<open>The radio meets the contract\<close>

definition driver_keys :: "driver \<Rightarrow> u32 option \<times> u32 option" where
  "driver_keys s = (case s of (dev, r, b) \<Rightarrow> radio_keys b)"

interpretation ble_radio: controller_radio radio_operations driver_ready driver_keys
proof
  fix s :: driver and ch d t f
  obtain dev r b where s: "s = (dev, r, b)" by (cases s)
  assume ready: "driver_ready s"
  then have clk: "clock_runs dev" by (simp add: s driver_ready_def)
  let ?out = "replicate CONNECTION_EVENT_RX_BUFFER_LEN 0"
  obtain res out b' where ex: "exchange dev r ch d t f ?out b = Some (res, out, b')"
    using exchange_total [OF clk, of r ch d t f ?out b] by blast
  then show "\<exists>x s'. ro_exchange radio_operations s ch d t f = Some (x, s') \<and> driver_ready s' \<and> driver_keys s' = driver_keys s"
    using ready exchange_keys [OF ex] by (simp add: radio_operations_def s radio_drive_def driver_ready_def driver_keys_def)
next
  fix s :: driver and ch pdu response address
  obtain dev r b where s: "s = (dev, r, b)" by (cases s)
  assume ready: "driver_ready s"
  then have clk: "clock_runs dev" by (simp add: s driver_ready_def)
  let ?out = "replicate MAX_LEGACY_ADV_PDU_LEN 0"
  obtain res out b' where ex: "advertising_exchange dev r ch 500 pdu response address ?out b = Some (res, out, b')"
    using advertising_exchange_total [OF clk, of r ch 500 pdu response address ?out b] by blast
  then show "\<exists>x s'. ro_advertise radio_operations s ch pdu response address = Some (x, s') \<and> driver_ready s' \<and> driver_keys s' = driver_keys s"
    using ready advertising_exchange_keys [OF ex] by (simp add: radio_operations_def s radio_advertise_def driver_ready_def driver_keys_def)
qed (auto simp: radio_operations_def driver_set_access_address_def driver_set_crc_init_def radio_set_access_address_def radio_set_crc_init_def
    driver_ready_def driver_keys_def radio_keys_def bb_tx_access_address_def bb_tx_crc_init_def Let_def split: prod.splits)

lemma controller_new_inv:
  assumes "clock_runs dev" "controller_new dev random b = Inr st"
  shows "controller_inv driver_ready driver_keys st"
proof -
  obtain r b1 where n: "radio_new b = (r, b1)" by (cases "radio_new b")
  obtain res r' b2 where i: "initialize dev r b1 = (res, r', b2)" by (cases "initialize dev r b1")
  obtain u where u: "res = Inr u" "st = \<lparr>ct_runner = runner_new random, ct_radio = (dev, r', b2), ct_link = None\<rparr>"
    using assms(2) by (auto simp: controller_new_def n i split: sum.splits)
  have "rd_access_address r = ADV_ACCESS_ADDRESS" "rd_crc_init r = ADV_CRC_INIT" using n by (auto simp: radio_new_def)
  then show ?thesis using initialize_keys [OF i] u assms(1)
    by (simp add: controller_inv_def driver_ready_def driver_keys_def runner_keys_def runner_new_def ADV_CRC_INIT_def)
qed

section \<open>Properties\<close>

text \<open>
  C1. The whole controller: after a successful \<open>Runner::new\<close> on any device whose clock runs, and any
  sequence of Host packets, advertising intervals and connection turns, every input the controller waits for
  is handled to the end (no panic, no loop that runs on). The radio stays initialized and
  calibrated. Without a link, \<open>is_connected\<close> is false and the baseband holds the advertising
  access address and CRC; with one, it is true, advertising is off, the link's invariant holds and the
  baseband holds the access address and CRC of the link's own CONNECT\_IND.
\<close>

theorem controller_safe:
  assumes "clock_runs dev" "fills fill" "controller_new dev random b = Inr st0"
    and "controller_reachable radio_operations fill st0 st"
  shows "(\<forall>i. expects st i \<longrightarrow> (\<exists>st'. controller_turn radio_operations fill i st = Some st'))
    \<and> (case ct_radio st of (_, r, h) \<Rightarrow> rd_digital_initialized r \<and> rd_frontend_calibrated r
        \<and> (case ct_link st of
             None \<Rightarrow> \<not> is_connected (ct_runner st)
               \<and> last_write bb_tx_access_address h = Some ADV_ACCESS_ADDRESS \<and> last_write bb_tx_crc_init h = Some ADV_CRC_INIT
           | Some c \<Rightarrow> is_connected (ct_runner st) \<and> \<not> av_enabled (rn_advertiser (ct_runner st)) \<and> link_inv c
               \<and> last_write bb_tx_access_address h = Some (ci_access_address (ac_request c))
               \<and> last_write bb_tx_crc_init h = Some (ci_crc_init (ac_request c))))"
proof -
  have inv: "controller_inv driver_ready driver_keys st"
    using ble_radio.reachable_inv [OF assms(4) controller_new_inv [OF assms(1,3)] assms(2)] .
  have "\<forall>i. expects st i \<longrightarrow> (\<exists>st'. controller_turn radio_operations fill i st = Some st')"
    using ble_radio.controller_turn_ok [OF inv assms(2)] by blast
  then show ?thesis using inv
    by (cases "ct_radio st"; cases "ct_link st")
      (auto simp: controller_inv_def driver_ready_def driver_keys_def radio_keys_def runner_keys_def air_keys_def is_connected_def turn_inv_def)
qed

text \<open>A device whose tuning measurement follows the tune word, so that calibration succeeds.\<close>

definition tuned_device :: radio_device where
  "tuned_device = null_device\<lparr>dev_reg := \<lambda>h a. if a = fe_tune_co_90
     then 0x06000000 OR ((case last_write fe_config_38 h of Some v \<Rightarrow> drop_bit 8 v | None \<Rightarrow> 0) AND 0x3f) else 0\<rparr>"

lemma tuned_read [simp]:
  "dev_reg tuned_device h fe_tune_co_90 = 0x06000000 OR ((case last_write fe_config_38 h of Some v \<Rightarrow> drop_bit 8 v | None \<Rightarrow> 0) AND 0x3f)"
  "a \<noteq> fe_tune_co_90 \<Longrightarrow> dev_reg tuned_device h a = 0"
  by (simp_all add: tuned_device_def)

lemma tuned_clock: "clock_runs tuned_device"
  using null_clock by (simp add: clock_runs_def tuned_device_def)

lemma tuned_measure:
  "fst (measure_ctune tuned_device tune h) = Inr \<lparr>co = ucast (drop_bit 8 tune AND 0x3f), ga = 0\<rparr>"
proof -
  have field: "(0x06000000 OR (x AND 0x3f)) AND 0x06000000 = (0x06000000 :: u32)" "(0x06000000 OR (x AND 0x3f)) AND 0x3f = x AND (0x3f :: u32)" for x :: u32
  proof -
    have "(0x06000000 OR (x AND 0x3f)) AND 0x06000000 = (0x06000000 AND 0x06000000) OR (x AND (0x3f AND 0x06000000) :: u32)"
      "(0x06000000 OR (x AND 0x3f)) AND 0x3f = (0x06000000 AND 0x3f) OR (x AND (0x3f AND 0x3f) :: u32)"
      by (simp_all only: bit.conj_disj_distrib2 and.assoc)
    then show "(0x06000000 OR (x AND 0x3f)) AND 0x06000000 = (0x06000000 :: u32)" "(0x06000000 OR (x AND 0x3f)) AND 0x3f = x AND (0x3f :: u32)"
      by simp_all
  qed
  let ?h1 = "steps [reg_modify tuned_device fe_control_04 (\<lambda>v. v AND NOT 0x01),
      reg_modify tuned_device fe_config_38 (\<lambda>v. (v AND 0xfffe00ff) OR tune), reg_modify tuned_device fe_control_04 (\<lambda>v. v OR 0x01)] h"
  let ?h2 = "reg_write lle_operation_countdown TUNE_COUNTDOWN ?h1"
  have addr: "fe_control_04 \<noteq> fe_config_38" "lle_operation_countdown \<noteq> fe_config_38" "fe_config_38 \<noteq> fe_tune_co_90" "fe_tune_ga_94 \<noteq> fe_tune_co_90"
    by (simp_all add: fe_addresses fe_config_38_def fe_tune_co_90_def fe_tune_ga_94_def lle_operation_countdown_def LLE_BASE_def)
  have lw: "last_write fe_config_38 ?h2 = Some tune" using addr by simp
  have polls: "MAX_CALIBRATION_POLLS = Suc 32767" by (simp add: MAX_CALIBRATION_POLLS_def)
  have w: "wait_tune tuned_device ?h1 = (Inr (), ?h2 @ [RegRead fe_tune_co_90 (dev_reg tuned_device ?h2 fe_tune_co_90)])"
    unfolding wait_tune_def polls tune_polls.simps reg_read_def Let_def prod.case tuned_read lw option.case field(1) by simp
  show ?thesis
    unfolding measure_ctune_def Let_def w prod.case sum.case reg_read_def
    using addr lw field(2) by (simp del: steps_simps)
qed

lemma tuned_measurements:
  "fst (measurements tuned_device h) = Inr (\<lparr>co = 0x3f, ga = 0\<rparr>, \<lparr>co = 0x14, ga = 0\<rparr>, \<lparr>co = 0x28, ga = 0\<rparr>)"
proof -
  have step: "fst (and_try (measure_ctune tuned_device tune) k h) = fst (k \<lparr>co = ucast (drop_bit 8 tune AND 0x3f), ga = 0\<rparr>
      (snd (measure_ctune tuned_device tune h)))" for tune h and k :: "Measurement \<Rightarrow> radio_bus \<Rightarrow> (radio_error + 'b) \<times> radio_bus"
    using tuned_measure [of tune h] unfolding and_try_def by (cases "measure_ctune tuned_device tune h") simp
  show ?thesis unfolding measurements_def step by simp
qed

lemma tuned_calibrate: "fst (calibrate tuned_device h) = Inr ()"
proof -
  have "\<exists>h'. tx_ctune tuned_device h = (Inr (), h')" for h
  proof -
    obtain t where t: "build_table \<lparr>co = 0x3f, ga = 0\<rparr> \<lparr>co = 0x14, ga = 0\<rparr> \<lparr>co = 0x28, ga = 0\<rparr> = Inr t"
      by (simp add: build_table_def Let_def)
    show ?thesis unfolding tx_ctune_def Let_def using tuned_measurements t
      by (simp add: split_beta del: steps_simps)
  qed
  then show ?thesis unfolding calibrate_def by (metis (no_types, lifting) fst_conv old.prod.case old.sum.simps(6))
qed

lemma tuned_controller: "\<exists>st. controller_new tuned_device () [] = Inr st"
proof -
  obtain r b where n: "radio_new [] = (r, b)" by (cases "radio_new []")
  have "fst (initialize tuned_device r b) = Inr ()"
    unfolding initialize_def Let_def using tuned_calibrate by (simp add: split_beta del: steps_simps)
  then show ?thesis unfolding controller_new_def n
    by (cases "initialize tuned_device r b") simp
qed

text \<open>An \<open>HCI_Reset\<close> packet.\<close>

definition reset_packet :: packet where
  "reset_packet = \<lparr>pk_kind = Kind_Cmd, pk_len = 3, pk_bytes = [0x03, 0x0c, 0x00] @ replicate (HCI_PACKET_CAPACITY - 3) 0\<rparr>"

theorem controller_safe_witness:
  "\<exists>st0 st'. controller_new tuned_device () [] = Inr st0
     \<and> controller_turn radio_operations zero_fill (Host_Packet reset_packet) st0 = Some st'
     \<and> last_write bb_tx_access_address (snd (snd (ct_radio st'))) = Some ADV_ACCESS_ADDRESS"
proof -
  obtain st0 where st0: "controller_new tuned_device () [] = Inr st0" using tuned_controller by blast
  have f: "fills zero_fill" by (simp add: fills_def zero_fill_def)
  have n: "ct_link st0 = None" using st0 by (auto simp: controller_new_def split: prod.splits sum.splits)
  then have e: "expects st0 (Host_Packet reset_packet)" by (simp add: reset_packet_def packet_wf_def HCI_PACKET_CAPACITY_def)
  then obtain st' where st': "controller_turn radio_operations zero_fill (Host_Packet reset_packet) st0 = Some st'"
    using controller_safe [OF tuned_clock f st0 reach_start] by blast
  have "ct_link st' = None" using st' n by (auto split: option.splits)
  then have "last_write bb_tx_access_address (snd (snd (ct_radio st'))) = Some ADV_ACCESS_ADDRESS"
    using controller_safe [OF tuned_clock f st0 reach_turn [OF reach_start e st']] by (auto split: prod.splits)
  then show ?thesis using st0 st' by blast
qed

end
