(* ===== verification/Spec2Isabelle.thy ===== *)
theory Spec2Isabelle
  imports Phy_Transforms Control_Pdu Channel_Selection Data_Sequence Tx_Ownership Llcp
    Advertising Hci_Transport Hci_Queue Connection Runner Host_Interface Link_Safety Link_Loop
    Data_Flash Uart Rtc Adc System_Clock Radio_Recovery Radio_Diagnostics Link_Driver Controller
begin

text \<open>
  Verification library for the \<^verbatim>\<open>ch58x-hal\<close> workspace: a hardware abstraction layer for the CH582 and CH585
  (\<^verbatim>\<open>src/\<close>) and a Bluetooth Low Energy Peripheral controller for the CH585
  (\<^verbatim>\<open>crates/ble-controller\<close>, the portable protocol logic, and \<^verbatim>\<open>crates/ch58x-ble\<close>, the runner and the radio driver).

  \<^bold>\<open>The program.\<close> The Host sends HCI commands and ACL data through the transport of \<^verbatim>\<open>controller.rs\<close> to
  \<open>Runner\<close> (\<^verbatim>\<open>crates/ch58x-ble/src/link_layer.rs\<close>). While disconnected the runner answers commands and
  advertises; a CONNECT\_IND makes an \<open>ActiveConnection\<close>, and \<open>run_connection\<close> then serves it event by event: it applies
  instants, chooses a channel, stages a frame, lets the radio exchange packets, acknowledges, delivers, and handles control
  PDUs. The radio driver (\<^verbatim>\<open>radio.rs\<close>, \<^verbatim>\<open>rf_frontend.rs\<close>) runs each exchange on the registers, a DMA bank and an
  interrupt. Below it are clock set-up, GPIO, UART, RTC, ADC and data flash, each a driver of its own.

  \<^bold>\<open>Which theory models what.\<close> One theory per component, its definitions in the order of the source:
    \<^item> \<open>Prelude\<close>: Rust integers as words, little-endian octets, array writes; the locales \<open>step_machine\<close>
      (invariant along a run) and \<open>codec\<close> (encoder with decoder).
    \<^item> \<open>Phy_Transforms\<close>: \<^verbatim>\<open>channel.rs\<close>, \<^verbatim>\<open>whitening.rs\<close>, \<^verbatim>\<open>crc.rs\<close>, \<^verbatim>\<open>phy.rs\<close>. \<open>Control_Pdu\<close>,
      \<open>Channel_Selection\<close>, \<open>Data_Sequence\<close>, \<open>Tx_Ownership\<close>: the parts of
      \<^verbatim>\<open>ble-controller/src/link_layer.rs\<close>. \<open>Llcp\<close>: \<^verbatim>\<open>llcp.rs\<close>. \<open>Advertising\<close>: \<^verbatim>\<open>advertising.rs\<close>.
      \<open>Hci_Transport\<close>: \<^verbatim>\<open>hci.rs\<close> and \<^verbatim>\<open>controller.rs\<close>, its Host end and channels in \<open>Hci_Queue\<close>.
    \<^item> \<open>Connection\<close> (\<open>ActiveConnection\<close>) and \<open>Runner\<close>: \<^verbatim>\<open>ch58x-ble/src/link_layer.rs\<close> and its
      \<^verbatim>\<open>hci.rs\<close>. \<open>Host_Interface\<close>, \<open>Link_Safety\<close>, \<open>Link_Loop\<close>: what the runner guarantees.
    \<^item> \<open>Rf_Calibration\<close>: \<^verbatim>\<open>rf_calibration.rs\<close>. \<open>Radio_Bus\<close>, \<open>Rf_Frontend\<close>, \<open>Radio\<close>: \<^verbatim>\<open>radio_dma_policy.rs\<close>,
      \<^verbatim>\<open>radio_phy.rs\<close>, \<^verbatim>\<open>radio_rx_status.rs\<close>, \<^verbatim>\<open>rf_frontend.rs\<close>, \<^verbatim>\<open>radio.rs\<close>. \<open>Radio_Safety\<close>, \<open>Radio_Recovery\<close>:
      what the driver guarantees; \<open>Radio_Diagnostics\<close>: its counters and forwarding operations.
    \<^item> \<open>Link_Driver\<close>: a connection event on the driver. \<open>Controller\<close>: the whole controller, from \<open>Runner::new\<close> on, as a
      step relation over the runner with the driver's state threaded through every call; \<open>Link_Keys\<close> and
      \<open>Radio_Keys\<close> follow the access address and CRC on either side.
    \<^item> \<open>Mmio\<close>: volatile registers. \<open>Data_Flash\<close>, \<open>Gpio\<close>, \<open>Uart\<close>, \<open>Rtc\<close>, \<open>Adc\<close>, \<open>System_Clock\<close>: the files of
      the same names under \<^verbatim>\<open>src/\<close> (\<^verbatim>\<open>sysctl.rs\<close>, \<^verbatim>\<open>lib.rs\<close> and \<^verbatim>\<open>critical_section_impl.rs\<close> in the last).

  \<^bold>\<open>State and operations.\<close> A struct is a record, an enum a datatype, a method a function from the old state to the result and the
  new state; an error is the left side of a sum. \<open>None\<close> is a panic, or, where the loop has no bound in
  the source (a \<open>partial_function\<close>), not returning; theorems that an operation returns say so. Integers keep their width
  where wrap-around matters; instants and durations are natural numbers of microseconds; \<open>usize\<close> has 32 bits.
  Sequences of awaits run to completion: the runner is one task, and what other tasks and the interrupt do
  between two steps is in the inputs (Host packets, clock readings, device).

  \<^bold>\<open>Code outside the repository\<close> is a parameter. Hardware, DMA and interrupts are a device: any function from the history of
  accesses to the value read, so the theorems hold for every behaviour unless they name a hypothesis:
  \<open>clock_runs\<close> (the time driver advances with its reads), \<open>drains\<close> (a UART FIFO empties), \<open>shows_count\<close> (the
  RTC registers are halves of one count), \<open>faithful\<close> (protected-access and interrupt state read back). Flash operations time out only on
  a device that is not \<open>responsive\<close>, one that stays busy, or reports no completion, for all the polls of a wait. The random
  generator, the channels and packet codecs of the transport, the clock readings of the runner and, in \<open>Runner\<close>, the radio are function parameters; \<open>Link_Driver\<close> puts
  the driver in the place of the radio, and \<open>Controller\<close> does so for every operation of the runner.

  \<^bold>\<open>What the lemmas show.\<close>
    \<^item> Protocol logic: acknowledgement delivers each PDU exactly once over a lossy link; transmit ownership is
      first in, first out and never stuck; control procedures (started with contexts from \<open>ProcedureContext::new\<close>, as the
      runner does; the public fields of a context allow others) complete only with evidence, time out exactly at their deadline
      and complete exactly at their instant; channel selection
      is the algorithm of the specification; validators equal their declarative rules; PDU codecs round trip; the
      CRC detects errors.
    \<^item> Runner: no panic in any sequence of turns of a connection, credits and deliveries exact, errors on air
      change nothing, the end of the link with reason 0x1f exactly where a procedure refuses the control PDU of the event
      (\<open>control_refused\<close>), each command answered once, only a valid CONNECT\_IND connects.
    \<^item> Controller: in every reachable state each awaited input is handled to the end, and the radio listens with the
      advertising keys without a link and with the keys of the live link otherwise.
    \<^item> Radio: exchanges return, answer only checked packets, count a response as sent only after its completion,
      and leave the radio idle; initialization writes the computed compensation table.
    \<^item> Drivers: flash commands are exactly those of the request and always restore the configuration;
      UART transfers are exact; clock set-up writes only inside protected windows and selects the requested clocks on both
      chips; pins are independent; the
      RTC is never torn; conversions are bounded.

  \<^bold>\<open>Interfaces\<close> are locales interpreted on the model: \<open>step_machine\<close> (CRC register, link, ownership, procedures), \<open>codec\<close>
  (parameter PDU, trace), \<open>hop_selector\<close> (channel selection as the connection uses it), \<open>credit_queue\<close> (ACL queue),
  \<open>exchange_driver\<close> (an exchange as the connection event uses it), \<open>controller_radio\<close> (the radio as the whole runner uses
  it: operations that return and keep the keys, setters that set them).

  \<^bold>\<open>Bounds and fuel.\<close> Counted loops of the source keep their counts (\<open>MAX_STATUS_POLLS\<close>, shown to be enough for every responsive flash controller, \<open>MAX_OPERATION_POLLS\<close>,
  \<open>MAX_CALIBRATION_POLLS\<close>, 4096 conversions). No definition has fuel: the loop that
  skips expired events ends by its own 16-bit counter, as in the source, and deadline loops are partial functions
  proved to return on a running clock.

  \<^bold>\<open>Not modelled:\<close> ownership tokens (\<^verbatim>\<open>peripherals.rs\<close>, \<open>split\<close>) and the type-level plumbing of pins and instances, which
  have no behaviour; formatting and conversion of HCI transport errors; the order in which the executor wakes tasks.
  Delays, fences and spin hints have no effect. The test modules of the source are not implementation.
\<close>

end
